(* ===== verification/Rpld_Prelude.thy ===== *)
theory Rpld_Prelude
  imports "HOL-Library.Word"
begin

section \<open>Prelude: machine types, faults, C memory\<close>

text \<open>
  What every component of the daemon shares: the widths of the C integers, the ways a run of
  the C code can end other than by returning (\<open>fault\<close>), sequencing of fallible code,
  and reads and writes of C objects with their bounds. The collections
  \<open>res_simps\<close> and \<open>mem_simps\<close> are what the component proofs give to the
  simplifier.
\<close>

unbundle bit_operations_syntax

named_theorems res_simps \<open>sequencing of fallible code\<close>
named_theorems mem_simps \<open>reads and writes of C objects\<close>

type_synonym u8 = "8 word"
type_synonym u16 = "16 word"
type_synonym u32 = "32 word"
type_synonym size_t = "64 word"
type_synonym bytes = "u8 list"

text \<open>
  \<open>struct in6_addr\<close> is sixteen bytes in network order; the length is part of the
  well-formedness predicates, not of the type.
\<close>

type_synonym in6_addr = "u8 list"

definition wf_addr :: "in6_addr \<Rightarrow> bool" where
  "wf_addr a \<longleftrightarrow> length a = 16"

text \<open>
  A fault is an end of the run that no C return value describes: a call of
  \<open>exit(n)\<close>, a failed \<open>assert\<close>, or an access or a conversion the C standard leaves
  undefined.
\<close>

datatype fault = Exit int | Assert_failed | Out_of_bounds | Use_after_free | Null_deref
  | Undefined_conversion

type_synonym 'a res = "fault + 'a"

definition bind_res :: "'a res \<Rightarrow> ('a \<Rightarrow> 'b res) \<Rightarrow> 'b res" where
  "bind_res m f = (case m of Inl e \<Rightarrow> Inl e | Inr x \<Rightarrow> f x)"

text \<open>A read of \<open>n\<close> bytes at offset \<open>off\<close> of the object \<open>m\<close>.\<close>

definition mem_read :: "bytes \<Rightarrow> nat \<Rightarrow> nat \<Rightarrow> bytes res" where
  "mem_read m off n =
     (if off + n \<le> length m then Inr (take n (drop off m)) else Inl Out_of_bounds)"

definition mem_u8 :: "bytes \<Rightarrow> nat \<Rightarrow> u8 res" where
  "mem_u8 m off = (if off < length m then Inr (m ! off) else Inl Out_of_bounds)"

text \<open>
  A write of the bytes \<open>bs\<close> at offset \<open>off\<close>. The object's bytes are of any type,
  so that \<open>None\<close> can stand for an indeterminate byte of a fresh allocation.
\<close>

definition mem_write :: "'b list \<Rightarrow> nat \<Rightarrow> 'b list \<Rightarrow> 'b list res" where
  "mem_write m off bs =
     (if off + length bs \<le> length m
      then Inr (take off m @ bs @ drop (off + length bs) m) else Inl Out_of_bounds)"

text \<open>Network byte order: the two bytes of a \<open>uint16_t\<close> field in memory.\<close>

definition htons :: "u16 \<Rightarrow> bytes" where
  "htons x = [ucast (drop_bit 8 x), ucast x]"

definition ntohs :: "bytes \<Rightarrow> u16" where
  "ntohs bs = (case bs of [hi, lo] \<Rightarrow> push_bit 8 (ucast hi) OR ucast lo | _ \<Rightarrow> 0)"

subsection \<open>Lemmas on fallible code\<close>

lemma bind_res_simps [simp, res_simps]:
  "bind_res (Inl e) f = Inl e"
  "bind_res (Inr x) f = f x"
  by (simp_all add: bind_res_def)

lemma bind_res_Inr_iff [res_simps]:
  "bind_res m f = Inr y \<longleftrightarrow> (\<exists>x. m = Inr x \<and> f x = Inr y)"
  by (cases m) simp_all

lemma bind_res_Inl_iff [res_simps]:
  "bind_res m f = Inl e \<longleftrightarrow> m = Inl e \<or> (\<exists>x. m = Inr x \<and> f x = Inl e)"
  by (cases m) simp_all

lemma bind_resE:
  assumes "bind_res m f = Inr y"
  obtains x where "m = Inr x" "f x = Inr y"
  using assms by (auto simp: bind_res_Inr_iff)

lemma bind_res_assoc: "bind_res (bind_res m f) g = bind_res m (\<lambda>x. bind_res (f x) g)"
  by (cases m) simp_all

subsection \<open>Lemmas on words and lists\<close>

lemma unat_u8_less: "unat (x :: u8) < 256"
  using unsigned_less [of x, where ?'a = nat] by simp

lemma unat_u16_less: "unat (x :: u16) < 65536"
  using unsigned_less [of x, where ?'a = nat] by simp

lemma unat_ucast_u8: "unat (ucast (x :: u8) :: size_t) = unat x"
  using unat_u8_less [of x] by (simp add: unsigned_ucast_eq take_bit_nat_eq_self)

lemma nth_list_update_if:
  "xs[i := x] ! j = (if i = j \<and> i < length xs then x else xs ! j)"
  by (cases "i < length xs") (auto simp: nth_list_update list_update_beyond)

lemma find_append: "find P (xs @ ys) = (case find P xs of None \<Rightarrow> find P ys | Some x \<Rightarrow> Some x)"
  by (induction xs) auto

lemma find_in: "find P xs = Some a \<Longrightarrow> a \<in> set xs"
  by (auto simp: find_Some_iff)

subsection \<open>Lemmas on memory\<close>

lemma mem_read_Inr [mem_simps]:
  "off + n \<le> length m \<Longrightarrow> mem_read m off n = Inr (take n (drop off m))"
  by (simp add: mem_read_def)

lemma mem_u8_Inr [mem_simps]: "off < length m \<Longrightarrow> mem_u8 m off = Inr (m ! off)"
  by (simp add: mem_u8_def)

lemma mem_write_Inr [mem_simps]:
  "off + length bs \<le> length m \<Longrightarrow>
   mem_write m off bs = Inr (take off m @ bs @ drop (off + length bs) m)"
  by (simp add: mem_write_def)

lemma mem_read_append [mem_simps]:
  "off = length pre \<Longrightarrow> n = length bs \<Longrightarrow> mem_read (pre @ bs @ post) off n = Inr bs"
  by (simp add: mem_read_def)

lemma length_mem_read: "mem_read m off n = Inr bs \<Longrightarrow> length bs = n"
  by (auto simp: mem_read_def split: if_splits)

lemma length_mem_write: "mem_write m off bs = Inr m' \<Longrightarrow> length m' = length m"
  by (auto simp: mem_write_def split: if_splits)

lemma take_mem_write:
  "mem_write m off bs = Inr m' \<Longrightarrow> take (off + length bs) m' = take off m @ bs"
  by (auto simp: mem_write_def split: if_splits)

subsection \<open>Lemmas on byte order\<close>

lemma length_htons [simp]: "length (htons x) = 2"
  by (simp add: htons_def)

lemma ntohs_htons [simp]: "ntohs (htons x) = x"
  by (simp add: ntohs_def htons_def) (rule bit_word_eqI, auto simp: bit_simps)

lemma not_bit_u8 [simp]: "\<not> bit (x :: u8) (8 + n)"
  using bit_imp_le_length [of x "8 + n"] by auto

lemma htons_ntohs:
  assumes "length bs = 2"
  shows "htons (ntohs bs) = bs"
proof -
  from assms obtain hi lo where "bs = [hi, lo]"
    by (auto simp: length_Suc_conv numeral_2_eq_2)
  then show ?thesis
    by (auto simp: htons_def ntohs_def bit_simps intro!: bit_word_eqI)
qed

end
