(* ===== verification/Environment.thy ===== *)
theory Environment
  imports Complex_Main Rpld_Prelude
begin

section \<open>The daemon's environment: allocator, kernel, libev, libmnl\<close>

text \<open>
  The daemon talks to its environment through library calls: the C allocator, the raw
  ICMPv6 socket, the routing socket (libmnl), files under \<open>/proc/sys\<close> and libev's timers. None of that
  code is part of the repository, so it is a parameter of the model:
  \<^item> every call with an outside effect appends an \<open>event\<close> to the trace of the world;
  \<^item> every answer of the environment is a field of the record \<open>env\<close>, a function of the
    trace so far (of the number of allocations so far for the allocator), so that an
    arbitrary \<open>env\<close> is an arbitrary environment, one that fails at any point included.
\<close>

named_theorems world_simps \<open>frame facts about the world\<close>

type_synonym ev_tstamp = real

subsection \<open>Netlink requests as they are handed to libmnl\<close>

text \<open>
  The extra header behind \<open>struct nlmsghdr\<close>. libmnl zeroes the room of the extra header
  before it returns it, so a field the code does not assign is 0.
\<close>

record ifinfomsg =
  ifi_family :: u8
  ifi_index :: u32

record ifaddrmsg =
  ifa_family :: u8
  ifa_prefixlen :: u8
  ifa_flags :: u8
  ifa_scope :: u8
  ifa_index :: u32

record rtmsg =
  rtm_family :: u8
  rtm_dst_len :: u8
  rtm_src_len :: u8
  rtm_tos :: u8
  rtm_table :: u8
  rtm_protocol :: u8
  rtm_scope :: u8
  rtm_type :: u8
  rtm_flags :: u32

datatype nl_extra = Ifinfo ifinfomsg | Ifaddr ifaddrmsg | Rt rtmsg

datatype nl_attr = Nla_bytes u16 bytes | Nla_u32 u16 u32

record nlmsg =
  nlmsg_type :: u16
  nlmsg_flags :: u16
  nlmsg_seq :: u32
  nlmsg_extra :: nl_extra
  nlmsg_attrs :: "nl_attr list"

subsection \<open>Events\<close>

text \<open>One \<open>sendmsg\<close>: destination, source address and interface of the control message, payload.\<close>

record sendmsg_call =
  sm_family :: u16
  sm_port :: bytes
  sm_dest :: in6_addr
  sm_ifindex :: u32
  sm_src :: in6_addr
  sm_payload :: bytes

text \<open>
  The watcher embedded in a \<open>struct dag\<close> (named by interface, instance and DODAG id) and
  the one embedded in a \<open>struct iface\<close>.
\<close>

datatype watcher = Trickle_w u32 u8 in6_addr | Dis_w u32

datatype event =
    Sendmsg sendmsg_call
  | Netlink nlmsg
  | Ev_timer_start watcher ev_tstamp ev_tstamp
  | Ev_timer_stop watcher
  | Write_file string u32
  | Open_socket
  | Setsockopt int int int
  | Multicast int u32 in6_addr
  | Close_socket
  | Nl_socket_open
  | Nl_socket_bind
  | Nl_socket_close
  | Srandom u32

subsection \<open>The environment's answers and the world\<close>

record env =
  alloc_ok :: "nat \<Rightarrow> bool"
  sendmsg_rc :: "event list \<Rightarrow> int"
  mnl_sendto_rc :: "event list \<Rightarrow> int"
  mnl_recvfrom_rc :: "event list \<Rightarrow> int"
  mnl_cb_run_rc :: "event list \<Rightarrow> int"
  file_exists :: "event list \<Rightarrow> string \<Rightarrow> bool"
  file_opens :: "event list \<Rightarrow> string \<Rightarrow> bool"
  file_prints :: "event list \<Rightarrow> string \<Rightarrow> bool"
  socket_rc :: "event list \<Rightarrow> int"
  setsockopt_rc :: "event list \<Rightarrow> int"
  mnl_open_ok :: "event list \<Rightarrow> bool"
  mnl_bind_rc :: "event list \<Rightarrow> int"
  sys_errno :: "event list \<Rightarrow> int"
  sys_time :: "event list \<Rightarrow> u32"
  stack_junk :: bytes

record world =
  w_allocs :: nat
  w_live :: int
  w_errno :: int
  w_trace :: "event list"

definition emit :: "event \<Rightarrow> world \<Rightarrow> world" where
  "emit e w = w\<lparr>w_trace := w_trace w @ [e]\<rparr>"

text \<open>
  \<open>malloc\<close> and \<open>calloc\<close>: whether the next allocation succeeds. \<open>w_allocs\<close> counts the
  requests, \<open>w_live\<close> the objects that are allocated and not yet freed.
\<close>

definition alloc :: "env \<Rightarrow> world \<Rightarrow> bool \<times> world" where
  "alloc E w =
     (let ok = alloc_ok E (w_allocs w) in
      (ok, w\<lparr>w_allocs := Suc (w_allocs w), w_live := w_live w + (if ok then 1 else 0)\<rparr>))"

definition release :: "world \<Rightarrow> world" where
  "release w = w\<lparr>w_live := w_live w - 1\<rparr>"

definition same_io :: "world \<Rightarrow> world \<Rightarrow> bool" where
  "same_io w w' \<longleftrightarrow> w_trace w' = w_trace w \<and> w_errno w' = w_errno w"

definition memory_available :: "env \<Rightarrow> bool" where
  "memory_available E \<longleftrightarrow> (\<forall>n. alloc_ok E n)"

text \<open>An environment in which every call succeeds, and the world at the start.\<close>

definition env0 :: env where
  "env0 = \<lparr>alloc_ok = \<lambda>_. True, sendmsg_rc = \<lambda>_. 0, mnl_sendto_rc = \<lambda>_. 0, mnl_recvfrom_rc = \<lambda>_. 0,
     mnl_cb_run_rc = \<lambda>_. 0, file_exists = \<lambda>_ _. True, file_opens = \<lambda>_ _. True, file_prints = \<lambda>_ _. True,
     socket_rc = \<lambda>_. 3, setsockopt_rc = \<lambda>_. 0, mnl_open_ok = \<lambda>_. True, mnl_bind_rc = \<lambda>_. 0,
     sys_errno = \<lambda>_. 0, sys_time = \<lambda>_. 0, stack_junk = replicate 16 0xaa\<rparr>"

definition world0 :: world where
  "world0 = \<lparr>w_allocs = 0, w_live = 0, w_errno = 0, w_trace = []\<rparr>"

subsection \<open>Lemmas\<close>

lemma emit_simps [simp, world_simps]:
  "w_trace (emit e w) = w_trace w @ [e]"
  "w_errno (emit e w) = w_errno w"
  "w_allocs (emit e w) = w_allocs w"
  "w_live (emit e w) = w_live w"
  by (simp_all add: emit_def)

lemma release_simps [simp, world_simps]:
  "w_trace (release w) = w_trace w"
  "w_errno (release w) = w_errno w"
  "w_live (release w) = w_live w - 1"
  by (simp_all add: release_def)

lemma alloc_simps [world_simps]:
  "fst (alloc E w) = alloc_ok E (w_allocs w)"
  "w_trace (snd (alloc E w)) = w_trace w"
  "w_errno (snd (alloc E w)) = w_errno w"
  "w_live (snd (alloc E w)) = w_live w + (if alloc_ok E (w_allocs w) then 1 else 0)"
  by (simp_all add: alloc_def Let_def)

lemma same_io_alloc [simp, world_simps]: "same_io w (snd (alloc E w))"
  by (simp add: same_io_def alloc_simps)

lemma same_io_refl [simp]: "same_io w w"
  by (simp add: same_io_def)

lemma same_io_trans: "same_io u v \<Longrightarrow> same_io v w \<Longrightarrow> same_io u w"
  by (simp add: same_io_def)

lemma alloc_available [simp]: "memory_available E \<Longrightarrow> fst (alloc E w)"
  by (simp add: memory_available_def alloc_simps)

lemma env0_ok [simp]: "memory_available env0" "length (stack_junk env0) = 16"
  by (simp_all add: env0_def memory_available_def)

end
