(* ===== verification/Buffer.thy ===== *)
theory Buffer
  imports Environment
begin

section \<open>buffer.c: the growing message buffer\<close>

text \<open>
  \<open>struct safe_buffer\<close> and its operations, at the width of the C types: \<open>allocated\<close> and
  \<open>used\<close> are \<open>size_t\<close> values and \<open>buffer\<close> is the allocated block, byte by byte, where
  \<open>None\<close> is an indeterminate byte. A pointer \<open>struct safe_buffer *\<close> is an option. The
  contract the message builders rely on is the locale \<open>byte_sink\<close>, interpreted on these
  operations at the end of the theory.
\<close>

record safe_buffer =
  should_free :: bool
  allocated :: size_t
  used :: size_t
  buffer :: "u8 option list option"

definition SAFE_BUFFER_INIT :: safe_buffer where
  "SAFE_BUFFER_INIT = \<lparr>should_free = False, allocated = 0, used = 0, buffer = None\<rparr>"

text \<open>
  \<open>safe_buffer_new\<close> writes through the result of \<open>malloc\<close> without testing it: a failed
  allocation is a null dereference there.
\<close>

definition safe_buffer_new :: "env \<Rightarrow> world \<Rightarrow> (safe_buffer option \<times> world) res" where
  "safe_buffer_new E w =
     (let (ok, w) = alloc E w in
      if ok then Inr (Some (SAFE_BUFFER_INIT\<lparr>should_free := True\<rparr>), w) else Inl Null_deref)"

text \<open>\<open>safe_buffer_free\<close> gives back the block and, for a buffer of \<open>safe_buffer_new\<close>, the header.\<close>

definition safe_buffer_free :: "safe_buffer \<Rightarrow> world \<Rightarrow> world" where
  "safe_buffer_free sb w =
     (let w = (if buffer sb \<noteq> None then release w else w)
      in if should_free sb then release w else w)"

text \<open>
  \<open>realloc\<close> keeps the bytes of the old block; the bytes beyond it are indeterminate, and a
  failed call returns \<open>NULL\<close>.
\<close>

definition realloc :: "env \<Rightarrow> u8 option list option \<Rightarrow> size_t \<Rightarrow> world
    \<Rightarrow> u8 option list option \<times> world" where
  "realloc E old n w =
     (let ok = alloc_ok E (w_allocs w); b = (case old of None \<Rightarrow> [] | Some b \<Rightarrow> b) in
      (if ok then Some (take (unat n) b @ replicate (unat n - length b) None) else None,
       w\<lparr>w_allocs := Suc (w_allocs w),
         w_live := w_live w + (if ok \<and> old = None then 1 else 0)\<rparr>))"

definition blocksize :: size_t where
  "blocksize = push_bit 6 1"

text \<open>The capacity a request for \<open>n\<close> bytes is rounded up to.\<close>

definition round_up :: "size_t \<Rightarrow> size_t" where
  "round_up n = (if n mod blocksize > 0 then (n OR (blocksize - 1)) + 1 else n)"

definition safe_buffer_resize :: "env \<Rightarrow> safe_buffer \<Rightarrow> size_t \<Rightarrow> world
    \<Rightarrow> (safe_buffer \<times> world) res" where
  "safe_buffer_resize E sb n w =
     (if allocated sb < n then
        (let n = round_up n in
         if n > 64 * 1024 then Inl (Exit 1)
         else (let sb = sb\<lparr>allocated := n\<rparr>;
                   (b, w) = realloc E (buffer sb) (allocated sb) w
               in Inr (sb\<lparr>buffer := b\<rparr>, w)))
      else Inr (sb, w))"

text \<open>
  \<open>memset\<close> and \<open>memcpy\<close> to \<open>&sb->buffer[sb->used]\<close>: nothing happens for a count of 0,
  a write through a null block or beyond the block is a fault.
\<close>

definition buffer_store :: "safe_buffer \<Rightarrow> bytes \<Rightarrow> safe_buffer res" where
  "buffer_store sb bs =
     (case buffer sb of
        None \<Rightarrow> (if bs = [] then Inr sb else Inl Null_deref)
      | Some b \<Rightarrow> bind_res (mem_write b (unat (used sb)) (map Some bs))
                  (\<lambda>b. Inr (sb\<lparr>buffer := Some b\<rparr>)))"

definition safe_buffer_pad :: "env \<Rightarrow> safe_buffer \<Rightarrow> size_t \<Rightarrow> world
    \<Rightarrow> (safe_buffer \<times> world) res" where
  "safe_buffer_pad E sb count w =
     bind_res (safe_buffer_resize E sb (used sb + count) w) (\<lambda>(sb, w).
     bind_res (buffer_store sb (replicate (unat count) 0)) (\<lambda>sb.
     Inr (sb\<lparr>used := used sb + count\<rparr>, w)))"

text \<open>
  \<open>v\<close> is the object the source pointer points to, so a \<open>count\<close> beyond its end is a read out
  of bounds. The C function returns its argument \<open>count\<close>, which no caller looks at.
\<close>

definition safe_buffer_append :: "env \<Rightarrow> safe_buffer option \<Rightarrow> bytes \<Rightarrow> size_t \<Rightarrow> world
    \<Rightarrow> (safe_buffer option \<times> world) res" where
  "safe_buffer_append E sb v count w =
     (case sb of
        None \<Rightarrow> Inr (None, w)
      | Some sb \<Rightarrow>
          bind_res (safe_buffer_resize E sb (used sb + count) w) (\<lambda>(sb, w).
          bind_res (mem_read v 0 (unat count)) (\<lambda>bs.
          bind_res (buffer_store sb bs) (\<lambda>sb.
          Inr (Some (sb\<lparr>used := used sb + count\<rparr>), w)))))"

subsection \<open>What a buffer holds, and its invariant\<close>

text \<open>
  The abstraction is the byte sequence appended so far. The invariant says that the block
  has the recorded size, a multiple of the block size and at most 64 KiB, and that every
  byte below \<open>used\<close> has been written.
\<close>

definition sb_contents :: "safe_buffer option \<Rightarrow> bytes" where
  "sb_contents p =
     (case p of None \<Rightarrow> []
      | Some sb \<Rightarrow> (case buffer sb of None \<Rightarrow> [] | Some b \<Rightarrow> map the (take (unat (used sb)) b)))"

definition block_inv :: "safe_buffer \<Rightarrow> bool" where
  "block_inv sb \<longleftrightarrow> unat (used sb) \<le> unat (allocated sb) \<and> unat (allocated sb) \<le> 64 * 1024 \<and>
     unat (allocated sb) mod 64 = 0 \<and>
     (case buffer sb of None \<Rightarrow> allocated sb = 0
      | Some b \<Rightarrow> length b = unat (allocated sb) \<and> None \<notin> set (take (unat (used sb)) b))"

definition sb_inv :: "safe_buffer option \<Rightarrow> bool" where
  "sb_inv p \<longleftrightarrow> (case p of None \<Rightarrow> False | Some sb \<Rightarrow> block_inv sb)"


text \<open>The number of allocated objects a buffer consists of.\<close>

definition sb_blocks :: "safe_buffer option \<Rightarrow> int" where
  "sb_blocks p =
     (case p of None \<Rightarrow> 0
      | Some sb \<Rightarrow> (if should_free sb then 1 else 0) + (if buffer sb = None then 0 else 1))"

text \<open>A sequence of appends, as the message builders issue them.\<close>

fun append_chunks :: "('s \<Rightarrow> bytes \<Rightarrow> size_t \<Rightarrow> world \<Rightarrow> ('s \<times> world) res)
    \<Rightarrow> 's \<Rightarrow> (bytes \<times> size_t) list \<Rightarrow> world \<Rightarrow> ('s \<times> world) res" where
  "append_chunks app s [] w = Inr (s, w)"
| "append_chunks app s ((v, n) # cs) w =
     bind_res (app s v n w) (\<lambda>(s, w). append_chunks app s cs w)"

definition chunk_bytes :: "(bytes \<times> size_t) list \<Rightarrow> bytes" where
  "chunk_bytes cs = concat (map (\<lambda>(v, n). take (unat n) v) cs)"

definition chunks_ok :: "(bytes \<times> size_t) list \<Rightarrow> bool" where
  "chunks_ok cs \<longleftrightarrow> (\<forall>(v, n) \<in> set cs. unat n \<le> length v \<and> unat n < 2 ^ 63)"

subsection \<open>Capacity arithmetic\<close>

lemma nat_or_63: "(x::nat) OR 63 = 64 * (x div 64) + 63"
proof -
  have "x OR mask 6 = push_bit 6 (drop_bit 6 x) OR mask 6"
    by (rule bit_eqI) (auto simp: bit_simps)
  also have "\<dots> = push_bit 6 (drop_bit 6 x) + mask 6"
    by (rule disjunctive_add [symmetric]) (auto simp: bit_simps)
  finally show ?thesis by (simp add: push_bit_eq_mult drop_bit_eq_div mask_eq_exp_minus_1 mult.commute)
qed

lemma ceil64:
  "r < 64 \<Longrightarrow> (64 * q + r + 63) div 64 = (if r = 0 then q else q + 1)" for q r :: nat
  by (auto intro!: div_nat_eqI)

lemma ceil64_cases:
  fixes x :: nat
  obtains q where "x = 64 * q" "(x + 63) div 64 = q"
  | q r where "x = 64 * q + r" "0 < r" "r < 64" "(x + 63) div 64 = q + 1"
proof (cases "x mod 64 = 0")
  case True
  then have "x = 64 * (x div 64)" by auto
  with ceil64 [of 0 "x div 64"] that(1) [of "x div 64"] show ?thesis by simp
next
  case False
  then show ?thesis
    using ceil64 [of "x mod 64" "x div 64"] that(2) [of "x div 64" "x mod 64"] by simp
qed

lemma unat_round_up:
  assumes "unat n + 63 < 2 ^ 64"
  shows "unat (round_up n) = 64 * ((unat n + 63) div 64)"
proof -
  have mod: "n mod 64 > 0 \<longleftrightarrow> unat n mod 64 > 0"
    by (simp add: word_less_nat_alt unat_mod)
  have bound: "64 * (unat n div 64) + 64 < 2 ^ 64 \<or> unat n mod 64 = 0"
    using assms by (cases "unat n" rule: ceil64_cases) auto
  have "unat n mod 64 > 0 \<Longrightarrow> unat ((n OR 63) + 1) = 64 * (unat n div 64) + 64"
    using bound by (simp add: unat_word_ariths unsigned_or_eq nat_or_63)
  moreover have "unat n mod 64 > 0 \<Longrightarrow> (unat n + 63) div 64 = unat n div 64 + 1"
    by (cases "unat n" rule: ceil64_cases) auto
  moreover have "unat n mod 64 = 0 \<Longrightarrow> 64 * ((unat n + 63) div 64) = unat n"
    by (cases "unat n" rule: ceil64_cases) auto
  ultimately show ?thesis
    by (auto simp: round_up_def blocksize_def mod)
qed

subsection \<open>Lemmas on the operations\<close>

lemma realloc_Some:
  assumes "realloc E (buffer sb) n w = (Some b, w')" "block_inv sb"
    "unat (used sb) \<le> unat n" "unat (allocated sb) \<le> unat n"
  shows "length b = unat n" "same_io w w'"
    "w_live w' = w_live w + (if buffer sb = None then 1 else 0)"
    "take (unat (used sb)) b = (case buffer sb of None \<Rightarrow> [] | Some b0 \<Rightarrow> take (unat (used sb)) b0)"
  using assms
  by (auto simp: realloc_def block_inv_def alloc_def same_io_def Let_def
      split: if_splits option.splits)

lemma realloc_None:
  "realloc E b n w = (None, w') \<Longrightarrow> \<not> memory_available E \<and> same_io w w'"
  by (auto simp: realloc_def alloc_def memory_available_def same_io_def Let_def split: if_splits)

lemma resize_Inr:
  assumes inv: "block_inv sb" and n: "unat (used sb) \<le> unat n" "unat n \<le> 64 * 1024"
  shows "\<exists>sb' w'. safe_buffer_resize E sb n w = Inr (sb', w') \<and> same_io w w' \<and>
     used sb' = used sb \<and> unat n \<le> unat (allocated sb') \<and>
     (block_inv sb' \<and> sb_contents (Some sb') = sb_contents (Some sb) \<and>
      w_live w' - sb_blocks (Some sb') = w_live w - sb_blocks (Some sb)
      \<or> buffer sb' = None \<and> \<not> memory_available E \<and> unat (allocated sb) < unat n)"
proof (cases "allocated sb < n")
  case False
  then show ?thesis using inv by (simp add: safe_buffer_resize_def word_less_nat_alt)
next
  case True
  have r: "unat (round_up n) = 64 * ((unat n + 63) div 64)"
    using n by (intro unat_round_up) simp
  have ge: "unat n \<le> unat (round_up n)" and le: "unat (round_up n) \<le> 64 * 1024"
    using n unfolding r by (cases "unat n" rule: ceil64_cases; auto)+
  obtain b w' where re: "realloc E (buffer sb) (round_up n) w = (b, w')" by force
  have "safe_buffer_resize E sb n w = Inr (sb\<lparr>allocated := round_up n, buffer := b\<rparr>, w')"
    using True le by (simp add: safe_buffer_resize_def Let_def re word_less_nat_alt)
  moreover have "unat (allocated sb) < unat n"
    using True by (simp add: word_less_nat_alt)
  moreover have "b = Some b' \<Longrightarrow> block_inv (sb\<lparr>allocated := round_up n, buffer := b\<rparr>) \<and>
      sb_contents (Some (sb\<lparr>allocated := round_up n, buffer := b\<rparr>)) = sb_contents (Some sb) \<and>
      w_live w' - sb_blocks (Some (sb\<lparr>allocated := round_up n, buffer := b\<rparr>)) =
      w_live w - sb_blocks (Some sb)" for b'
    using realloc_Some [of E sb "round_up n" w b' w'] inv re ge le n r calculation(2)
    by (auto simp: block_inv_def sb_contents_def sb_blocks_def split: option.splits)
  ultimately show ?thesis
    using ge realloc_None [of E "buffer sb" "round_up n" w w'] re realloc_Some(2) [of E sb "round_up n" w _ w'] inv n
    by (cases b) auto
qed

lemma buffer_store_Inr:
  assumes "block_inv sb" "unat (used sb) + unat count \<le> unat (allocated sb)" "length bs = unat count"
  shows "\<exists>sb'. buffer_store sb bs = Inr sb' \<and> used sb' = used sb \<and>
     block_inv (sb'\<lparr>used := used sb + count\<rparr>) \<and>
     sb_blocks (Some (sb'\<lparr>used := used sb + count\<rparr>)) = sb_blocks (Some sb) \<and>
     sb_contents (Some (sb'\<lparr>used := used sb + count\<rparr>)) = sb_contents (Some sb) @ bs"
proof -
  have u: "unat (used sb + count) = unat (used sb) + unat count"
    using assms by (simp add: block_inv_def unat_word_ariths)
  show ?thesis
  proof (cases "buffer sb")
    case None
    then show ?thesis using assms u
      by (auto simp: buffer_store_def block_inv_def sb_contents_def sb_blocks_def)
  next
    case (Some b)
    have len: "length b = unat (allocated sb)" and ini: "None \<notin> set (take (unat (used sb)) b)"
      using assms(1) Some by (simp_all add: block_inv_def)
    obtain b' where b': "mem_write b (unat (used sb)) (map Some bs) = Inr b'"
      using assms len by (simp add: mem_write_Inr)
    have t: "take (unat (used sb) + unat count) b' = take (unat (used sb)) b @ map Some bs"
      using take_mem_write [OF b'] assms(3) by simp
    show ?thesis
      using assms u Some len ini t length_mem_write [OF b']
      by (auto simp: buffer_store_def b' block_inv_def sb_contents_def sb_blocks_def o_def)
  qed
qed


lemma safe_buffer_append_Inr:
  assumes inv: "block_inv sb" and v: "unat count \<le> length v"
    and fit: "unat (used sb) + unat count \<le> 64 * 1024"
  shows "safe_buffer_append E (Some sb) v count w = Inl Null_deref \<and> \<not> memory_available E \<or>
    (\<exists>p' w'. safe_buffer_append E (Some sb) v count w = Inr (p', w') \<and> same_io w w' \<and>
       w_live w' - sb_blocks p' = w_live w - sb_blocks (Some sb) \<and>
       sb_inv p' \<and> sb_contents p' = sb_contents (Some sb) @ take (unat count) v)"
proof -
  have u: "unat (used sb + count) = unat (used sb) + unat count"
    using fit by (simp add: unat_word_ariths)
  obtain sb' w' where r: "safe_buffer_resize E sb (used sb + count) w = Inr (sb', w')"
      "same_io w w'" "used sb' = used sb" "unat (used sb) + unat count \<le> unat (allocated sb')"
    and c: "block_inv sb' \<and> sb_contents (Some sb') = sb_contents (Some sb) \<and>
      w_live w' - sb_blocks (Some sb') = w_live w - sb_blocks (Some sb)
      \<or> buffer sb' = None \<and> \<not> memory_available E \<and> unat (allocated sb) < unat (used sb) + unat count"
    using resize_Inr [OF inv, of "used sb + count" E w] fit u by auto
  have rd: "mem_read v 0 (unat count) = Inr (take (unat count) v)"
    using v by (simp add: mem_read_def)
  from c show ?thesis
  proof (elim disjE conjE)
    assume "block_inv sb'" "sb_contents (Some sb') = sb_contents (Some sb)"
      "w_live w' - sb_blocks (Some sb') = w_live w - sb_blocks (Some sb)"
    with r v show ?thesis
      using buffer_store_Inr [of sb' count "take (unat count) v"]
      by (auto simp: safe_buffer_append_def rd sb_inv_def)
  next
    assume "buffer sb' = None" "\<not> memory_available E"
      "unat (allocated sb) < unat (used sb) + unat count"
    moreover from this inv have "take (unat count) v \<noteq> []"
      using v by (auto simp: block_inv_def)
    ultimately show ?thesis using r
      by (simp add: safe_buffer_append_def rd buffer_store_def)
  qed
qed

lemma safe_buffer_append_full:
  assumes inv: "block_inv sb" and full: "64 * 1024 < unat (used sb) + unat count"
    and small: "unat count < 2 ^ 63"
  shows "safe_buffer_append E (Some sb) v count w = Inl (Exit 1)"
proof -
  have "unat (used sb) \<le> 65536" "unat (allocated sb) \<le> 65536"
    using inv by (simp_all add: block_inv_def)
  then have u: "unat (used sb + count) = unat (used sb) + unat count"
    using small by (simp add: unat_word_ariths)
  have "unat (round_up (used sb + count)) = 64 * ((unat (used sb) + unat count + 63) div 64)"
    using small u \<open>unat (used sb) \<le> 65536\<close> by (subst unat_round_up) simp_all
  also have "\<dots> > 65536" using full by simp
  finally show ?thesis
    using full \<open>unat (allocated sb) \<le> 65536\<close> u
    by (simp add: safe_buffer_append_def safe_buffer_resize_def word_less_nat_alt Let_def)
qed

text \<open>The inverse view: whatever a successful append did.\<close>

lemma safe_buffer_append_InrD:
  assumes ok: "safe_buffer_append E p v count w = Inr (p', w')" and inv: "sb_inv p"
    and small: "unat count < 2 ^ 63"
  shows "sb_inv p' \<and> sb_contents p' = sb_contents p @ take (unat count) v \<and>
     unat count \<le> length v \<and> same_io w w' \<and>
     w_live w' - sb_blocks p' = w_live w - sb_blocks p"
proof -
  from inv obtain sb where p: "p = Some sb" "block_inv sb"
    by (auto simp: sb_inv_def split: option.splits)
  have v: "unat count \<le> length v"
    using ok p by (auto simp: safe_buffer_append_def mem_read_def res_simps split: if_splits)
  show ?thesis
  proof (cases "unat (used sb) + unat count \<le> 64 * 1024")
    case True
    with safe_buffer_append_Inr [OF p(2) v True, of E w] ok p v show ?thesis by auto
  next
    case False
    with safe_buffer_append_full [OF p(2) _ small, of E v w] ok p show ?thesis by auto
  qed
qed

lemma safe_buffer_new_InrD:
  "safe_buffer_new E w = Inr (p, w') \<Longrightarrow> sb_inv p \<and> p \<noteq> None \<and> sb_contents p = [] \<and> same_io w w' \<and>
   w_live w' - sb_blocks p = w_live w"
  by (auto simp: safe_buffer_new_def SAFE_BUFFER_INIT_def alloc_def sb_inv_def block_inv_def sb_contents_def
      sb_blocks_def same_io_def Let_def split: if_splits)

lemma safe_buffer_new_fits:
  "memory_available E \<Longrightarrow> \<exists>p w'. safe_buffer_new E w = Inr (p, w')"
  by (auto simp: safe_buffer_new_def memory_available_def alloc_def Let_def)

lemma length_sb_contents:
  "block_inv sb \<Longrightarrow> length (sb_contents (Some sb)) = unat (used sb)"
  by (auto simp: block_inv_def sb_contents_def split: option.splits)

lemma chunk_bytes_simps [simp]:
  "chunk_bytes [] = []"
  "chunk_bytes ((v, n) # cs) = take (unat n) v @ chunk_bytes cs"
  by (simp_all add: chunk_bytes_def)

lemma chunk_bytes_append: "chunk_bytes (cs @ ds) = chunk_bytes cs @ chunk_bytes ds"
  by (simp add: chunk_bytes_def)

lemma chunks_ok_simps [simp]:
  "chunks_ok []"
  "chunks_ok ((v, n) # cs) \<longleftrightarrow> unat n \<le> length v \<and> unat n < 2 ^ 63 \<and> chunks_ok cs"
  by (auto simp: chunks_ok_def)

lemma append_chunks_append:
  "append_chunks app s (cs @ ds) w =
   bind_res (append_chunks app s cs w) (\<lambda>(s, w). append_chunks app s ds w)"
  by (induction app s cs w rule: append_chunks.induct)
    (auto simp: bind_res_assoc split_def intro!: arg_cong2 [where f = bind_res])

subsection \<open>The interface of the message builders\<close>

text \<open>
  What a message builder needs of the buffer it appends to. The bound \<open>cap\<close> is the largest
  message; a request beyond it ends the process.
\<close>

locale byte_sink =
  fixes append :: "env \<Rightarrow> 's \<Rightarrow> bytes \<Rightarrow> size_t \<Rightarrow> world \<Rightarrow> ('s \<times> world) res"
    and contents :: "'s \<Rightarrow> bytes" and inv :: "'s \<Rightarrow> bool" and blocks :: "'s \<Rightarrow> int" and cap :: nat
  assumes append_fits: "inv s \<Longrightarrow> unat n \<le> length v \<Longrightarrow> length (contents s) + unat n \<le> cap \<Longrightarrow>
      memory_available E \<Longrightarrow> \<exists>s' w'. append E s v n w = Inr (s', w')"
    and append_InrD: "append E s v n w = Inr (s', w') \<Longrightarrow> inv s \<Longrightarrow> unat n < 2 ^ 63 \<Longrightarrow>
      inv s' \<and> contents s' = contents s @ take (unat n) v \<and> unat n \<le> length v \<and> same_io w w' \<and>
      w_live w' - blocks s' = w_live w - blocks s"
    and append_exit: "inv s \<Longrightarrow> cap < length (contents s) + unat n \<Longrightarrow> unat n < 2 ^ 63 \<Longrightarrow>
      append E s v n w = Inl (Exit 1)"
begin

lemma chunks_InrD:
  assumes "append_chunks (append E) s cs w = Inr (s', w')" "inv s"
    "\<forall>(v, n) \<in> set cs. unat n < 2 ^ 63"
  shows "inv s' \<and> contents s' = contents s @ chunk_bytes cs \<and> same_io w w' \<and>
    w_live w' - blocks s' = w_live w - blocks s"
  using assms
proof (induction "append E" s cs w arbitrary: s' w' rule: append_chunks.induct)
  case (2 s v n cs w)
  then obtain s1 w1 where a: "append E s v n w = Inr (s1, w1)"
    and r: "append_chunks (append E) s1 cs w1 = Inr (s', w')"
    by (auto simp: bind_res_Inr_iff)
  have "inv s1 \<and> contents s1 = contents s @ take (unat n) v \<and> same_io w w1 \<and>
      w_live w1 - blocks s1 = w_live w - blocks s"
    using append_InrD [OF a] 2 by auto
  moreover have "inv s' \<and> contents s' = contents s1 @ chunk_bytes cs \<and> same_io w1 w' \<and>
      w_live w' - blocks s' = w_live w1 - blocks s1"
    using "2.hyps" [OF r] calculation "2.prems"(3) by auto
  ultimately show ?case by (auto intro: same_io_trans)
qed auto

lemma chunks_fit:
  assumes "inv s" "chunks_ok cs" "length (contents s) + length (chunk_bytes cs) \<le> cap"
    "memory_available E"
  shows "\<exists>s' w'. append_chunks (append E) s cs w = Inr (s', w') \<and> inv s' \<and>
    contents s' = contents s @ chunk_bytes cs \<and> same_io w w' \<and>
    w_live w' - blocks s' = w_live w - blocks s"
  using assms
proof (induction cs arbitrary: s w)
  case (Cons c cs)
  obtain v n where c: "c = (v, n)" by force
  with Cons.prems obtain s1 w1 where a: "append E s v n w = Inr (s1, w1)"
    using append_fits [of s n v E w] by auto
  have 1: "inv s1 \<and> contents s1 = contents s @ take (unat n) v \<and> same_io w w1 \<and>
      w_live w1 - blocks s1 = w_live w - blocks s"
    using append_InrD [OF a] Cons.prems c by auto
  obtain s' w' where "append_chunks (append E) s1 cs w1 = Inr (s', w') \<and> inv s' \<and>
      contents s' = contents s1 @ chunk_bytes cs \<and> same_io w1 w' \<and>
      w_live w' - blocks s' = w_live w1 - blocks s1"
    using Cons.IH [of s1 w1] Cons.prems c 1 by auto
  with 1 c a show ?case by (auto intro: same_io_trans)
qed auto

lemma chunks_exit:
  assumes "inv s" "chunks_ok cs" "cap < length (contents s) + length (chunk_bytes cs)" "length (contents s) \<le> cap"
    "memory_available E"
  shows "append_chunks (append E) s cs w = Inl (Exit 1)"
  using assms
proof (induction cs arbitrary: s w)
  case (Cons c cs)
  obtain v n where c: "c = (v, n)" by force
  show ?case
  proof (cases "length (contents s) + unat n \<le> cap")
    case True
    with Cons.prems c obtain s1 w1 where a: "append E s v n w = Inr (s1, w1)"
      using append_fits [of s n v E w] by auto
    have "inv s1 \<and> contents s1 = contents s @ take (unat n) v" using append_InrD [OF a] Cons.prems c by auto
    then show ?thesis using Cons.IH [of s1 w1] Cons.prems True c a by auto
  next
    case False
    then show ?thesis using append_exit [of s n E v w] Cons.prems c by simp
  qed
qed simp

end

interpretation sb: byte_sink safe_buffer_append sb_contents sb_inv sb_blocks "64 * 1024"
proof unfold_locales
  fix p :: "safe_buffer option" and v :: bytes and n :: size_t and E :: env and w :: world
  assume a: "sb_inv p" "unat n \<le> length v" "length (sb_contents p) + unat n \<le> 64 * 1024"
    "memory_available E"
  then obtain sb where "p = Some sb" "block_inv sb"
    by (auto simp: sb_inv_def split: option.splits)
  with a show "\<exists>p' w'. safe_buffer_append E p v n w = Inr (p', w')"
    using safe_buffer_append_Inr [of sb n v E w] by (auto simp: length_sb_contents)
next
  fix p p' :: "safe_buffer option" and v :: bytes and n :: size_t and E :: env and w w' :: world
  assume "safe_buffer_append E p v n w = Inr (p', w')" "sb_inv p" "unat n < 2 ^ 63"
  then show "sb_inv p' \<and> sb_contents p' = sb_contents p @ take (unat n) v \<and>
      unat n \<le> length v \<and> same_io w w' \<and>
      w_live w' - sb_blocks p' = w_live w - sb_blocks p"
    by (rule safe_buffer_append_InrD)
next
  fix p :: "safe_buffer option" and v :: bytes and n :: size_t and E :: env and w :: world
  assume "sb_inv p" "64 * 1024 < length (sb_contents p) + unat n" "unat n < 2 ^ 63"
  then show "safe_buffer_append E p v n w = Inl (Exit 1)"
    using safe_buffer_append_full [of _ n E v w]
    by (auto simp: sb_inv_def length_sb_contents split: option.splits)
qed

text \<open>A message built into a fresh buffer.\<close>

lemma fresh_chunks_InrD:
  assumes n: "safe_buffer_new E w = Inr (sb0, w0)"
    and b: "append_chunks (safe_buffer_append E) sb0 cs w0 = Inr (sb1, w1)" and cs: "chunks_ok cs"
  shows "sb_inv sb1 \<and> sb_contents sb1 = chunk_bytes cs \<and> same_io w w1 \<and> w_live w1 - sb_blocks sb1 = w_live w"
proof -
  have "\<forall>(v, n) \<in> set cs. unat n < 2 ^ 63"
    using cs by (auto simp: chunks_ok_def)
  with sb.chunks_InrD [OF b] safe_buffer_new_InrD [OF n] show ?thesis
    by (auto intro: same_io_trans)
qed

lemma fresh_chunks_fit:
  assumes "memory_available E" "chunks_ok cs" "length (chunk_bytes cs) \<le> 64 * 1024"
  shows "\<exists>sb0 w0 sb1 w1. safe_buffer_new E w = Inr (sb0, w0) \<and> sb0 \<noteq> None \<and>
    append_chunks (safe_buffer_append E) sb0 cs w0 = Inr (sb1, w1) \<and> sb_inv sb1"
proof -
  obtain sb0 w0 where n: "safe_buffer_new E w = Inr (sb0, w0)"
    using safe_buffer_new_fits [OF assms(1)] by blast
  with safe_buffer_new_InrD [OF n] sb.chunks_fit [of sb0 cs E w0] assms show ?thesis
    by auto
qed

lemma safe_buffer_pad_Inr:
  assumes inv: "block_inv sb" and fit: "unat (used sb) + unat count \<le> 64 * 1024" and mem: "memory_available E"
  shows "\<exists>sb' w'. safe_buffer_pad E sb count w = Inr (sb', w') \<and> block_inv sb' \<and> same_io w w' \<and>
    w_live w' - sb_blocks (Some sb') = w_live w - sb_blocks (Some sb) \<and>
    sb_contents (Some sb') = sb_contents (Some sb) @ replicate (unat count) 0"
proof -
  have u: "unat (used sb + count) = unat (used sb) + unat count"
    using fit by (simp add: unat_word_ariths)
  obtain sb' w' where r: "safe_buffer_resize E sb (used sb + count) w = Inr (sb', w')" "same_io w w'" "used sb' = used sb"
      "unat (used sb) + unat count \<le> unat (allocated sb')" "block_inv sb'" "sb_contents (Some sb') = sb_contents (Some sb)"
      "w_live w' - sb_blocks (Some sb') = w_live w - sb_blocks (Some sb)"
    using resize_Inr [OF inv, of "used sb + count" E w] fit u mem by auto
  then show ?thesis
    using buffer_store_Inr [of sb' count "replicate (unat count) 0"] by (auto simp: safe_buffer_pad_def)
qed

subsection \<open>Properties\<close>

text \<open>
  C29: appending to a buffer. With memory, a request that keeps the buffer within 64 KiB
  succeeds: the buffer then holds what it held before followed by the first \<open>count\<close> bytes
  of the source, its invariant holds (no byte below \<open>used\<close> is unwritten, the block is as
  large as recorded), nothing is sent, and no memory beyond the buffer's own blocks is taken.
\<close>

theorem safe_buffer_append_correct:
  assumes "sb_inv p" "unat count \<le> length v" "length (sb_contents p) + unat count \<le> 64 * 1024" "memory_available E"
  shows "\<exists>p' w'. safe_buffer_append E p v count w = Inr (p', w') \<and> sb_inv p' \<and>
    sb_contents p' = sb_contents p @ take (unat count) v \<and> w_trace w' = w_trace w \<and>
    w_live w' - w_live w = sb_blocks p' - sb_blocks p"
proof -
  have s: "unat count < 2 ^ 63" using assms(3) by simp
  obtain p' w' where r: "safe_buffer_append E p v count w = Inr (p', w')" using sb.append_fits [OF assms] by blast
  from sb.append_InrD [OF r assms(1) s] r show ?thesis by (auto simp: same_io_def)
qed

theorem safe_buffer_append_correct_witness:
  "\<exists>p' w'. safe_buffer_append env0
     (Some SAFE_BUFFER_INIT) [1, 2, 3] 2 world0 = Inr (p', w') \<and>
     sb_contents p' = [1, 2]"
proof -
  have "sb_inv (Some SAFE_BUFFER_INIT)" "sb_contents (Some SAFE_BUFFER_INIT) = []"
    by (simp_all add: sb_inv_def block_inv_def sb_contents_def SAFE_BUFFER_INIT_def)
  then show ?thesis
    using safe_buffer_append_correct [of "Some SAFE_BUFFER_INIT" 2 "[1, 2, 3]" env0
        world0]
    by auto
qed

text \<open>
  The capacity \<open>safe_buffer_resize\<close> asks for is the least multiple of 64 that is at
  least the requested size, for every request that is not within 63 of the end of \<open>size_t\<close>.
\<close>

lemma round_up_least:
  assumes "unat n + 63 < 2 ^ 64"
  shows "64 dvd unat (round_up n) \<and> unat n \<le> unat (round_up n) \<and>
    (\<forall>m. 64 dvd m \<and> unat n \<le> m \<longrightarrow> unat (round_up n) \<le> m)"
proof -
  have r: "unat (round_up n) = 64 * ((unat n + 63) div 64)" by (rule unat_round_up [OF assms])
  have le: "unat n \<le> 64 * ((unat n + 63) div 64)" "64 * ((unat n + 63) div 64) < unat n + 64"
    by (cases "unat n" rule: ceil64_cases; simp)+
  moreover have "64 * ((unat n + 63) div 64) \<le> m" if m: "64 dvd m" "unat n \<le> m" for m
  proof -
    obtain q where "m = 64 * q" using m(1) by (elim dvdE)
    with le(2) m(2) show ?thesis by simp
  qed
  ultimately show ?thesis by (simp add: r)
qed

text \<open>
  A request that would make the buffer longer than 64 KiB ends the process with status 1,
  whatever the environment does.
\<close>

lemma safe_buffer_append_exits:
  assumes "sb_inv p" "64 * 1024 < length (sb_contents p) + unat count" "unat count < 2 ^ 63"
  shows "safe_buffer_append E p v count w = Inl (Exit 1)"
  using assms by (rule sb.append_exit)

end
