(* ===== verification/Rpl_Wire.thy ===== *)
theory Rpl_Wire
  imports Rpld_Prelude
begin

section \<open>rpl.h: the RPL message formats\<close>

text \<open>
  The constants and the packed structures of \<open>rpl.h\<close>, also those that the daemon has no use
  for (the security section, the solicited information), each structure as a record with
  its layout: \<open>s_bytes\<close> is the object's representation in memory, \<open>s_of\<close> reads one back
  from its bytes. The source reuses field names between structures (\<open>rpl_instanceid\<close>), so
  a field here carries its structure's name instead of the prefix \<open>rpl_\<close>. A field wider
  than a byte is kept as its bytes in memory, so that the host's byte order plays no role.
\<close>

subsection \<open>Message codes, option types, flags\<close>

definition ND_RPL_MESSAGE :: u8 where "ND_RPL_MESSAGE = 155"

definition ND_RPL_DAG_IS :: u8 where "ND_RPL_DAG_IS = 0"
definition ND_RPL_DAG_IO :: u8 where "ND_RPL_DAG_IO = 1"
definition ND_RPL_DAO :: u8 where "ND_RPL_DAO = 2"
definition ND_RPL_DAO_ACK :: u8 where "ND_RPL_DAO_ACK = 3"
definition ND_RPL_SEC_DAG_IS :: u8 where "ND_RPL_SEC_DAG_IS = 0x80"
definition ND_RPL_SEC_DAG_IO :: u8 where "ND_RPL_SEC_DAG_IO = 0x81"
definition ND_RPL_SEC_DAG :: u8 where "ND_RPL_SEC_DAG = 0x82"
definition ND_RPL_SEC_DAG_ACK :: u8 where "ND_RPL_SEC_DAG_ACK = 0x83"
definition ND_RPL_SEC_CONSIST :: u8 where "ND_RPL_SEC_CONSIST = 0x84"

definition ND_RPL_DIO_GROUNDED :: u8 where "ND_RPL_DIO_GROUNDED = 0x80"
definition ND_RPL_DIO_DATRIG :: u8 where "ND_RPL_DIO_DATRIG = 0x40"
definition ND_RPL_DIO_DASUPPORT :: u8 where "ND_RPL_DIO_DASUPPORT = 0x20"
definition ND_RPL_DIO_RES4 :: u8 where "ND_RPL_DIO_RES4 = 0x10"
definition ND_RPL_DIO_RES3 :: u8 where "ND_RPL_DIO_RES3 = 0x08"
definition ND_RPL_DIO_PRF_MASK :: u8 where "ND_RPL_DIO_PRF_MASK = 0x07"

definition DAGID_LEN :: nat where "DAGID_LEN = 16"

definition RPL_DIS_SI_V :: u8 where "RPL_DIS_SI_V = push_bit 7 1"
definition RPL_DIS_SI_I :: u8 where "RPL_DIS_SI_I = push_bit 6 1"
definition RPL_DIS_SI_D :: u8 where "RPL_DIS_SI_D = push_bit 5 1"
definition RPL_DIS_SI_FLAGS :: u8 where "RPL_DIS_SI_FLAGS = push_bit 5 1 - 1"

definition RPL_DIO_NO_DOWNWARD_ROUTES_MAINT :: u8 where "RPL_DIO_NO_DOWNWARD_ROUTES_MAINT = 0"
definition RPL_DIO_NONSTORING :: u8 where "RPL_DIO_NONSTORING = 1"
definition RPL_DIO_STORING_NO_MULTICAST :: u8 where "RPL_DIO_STORING_NO_MULTICAST = 2"
definition RPL_DIO_STORING_MULTICAST :: u8 where "RPL_DIO_STORING_MULTICAST = 3"

definition RPL_OPT_PAD0 :: u8 where "RPL_OPT_PAD0 = 0"
definition RPL_OPT_PADN :: u8 where "RPL_OPT_PADN = 1"
definition RPL_DIO_METRICS :: u8 where "RPL_DIO_METRICS = 2"
definition RPL_DIO_ROUTINGINFO :: u8 where "RPL_DIO_ROUTINGINFO = 3"
definition RPL_DIO_CONFIG :: u8 where "RPL_DIO_CONFIG = 4"
definition RPL_DAO_RPLTARGET :: u8 where "RPL_DAO_RPLTARGET = 5"
definition RPL_DAO_TRANSITINFO :: u8 where "RPL_DAO_TRANSITINFO = 6"
definition RPL_DIS_SOLICITEDINFO :: u8 where "RPL_DIS_SOLICITEDINFO = 7"
definition RPL_DIO_DESTPREFIX :: u8 where "RPL_DIO_DESTPREFIX = 8"
definition RPL_DAO_RPLTARGET_DESC :: u8 where "RPL_DAO_RPLTARGET_DESC = 9"

definition RPL_DIO_LIFETIME_INFINITE :: u32 where "RPL_DIO_LIFETIME_INFINITE = 0xffffffff"
definition RPL_DIO_LIFETIME_DISCONNECT :: u32 where "RPL_DIO_LIFETIME_DISCONNECT = 0"

definition RPL_DIO_PREFIX_AUTONOMOUS_ADDR_CONFIG_FLAG :: u8 where
  "RPL_DIO_PREFIX_AUTONOMOUS_ADDR_CONFIG_FLAG = 0x40"
definition RPL_DIO_PREFIX_AUTONOMOUS_ADDR_CONFIG_MASK :: u8 where
  "RPL_DIO_PREFIX_AUTONOMOUS_ADDR_CONFIG_MASK = push_bit 6 1"

definition RPL_DIO_GROUNDED :: "u8 \<Rightarrow> u8" where "RPL_DIO_GROUNDED x = x AND 0x80"
definition RPL_DIO_MOP :: "u8 \<Rightarrow> u8" where "RPL_DIO_MOP x = drop_bit 3 (x AND push_bit 3 7)"
definition RPL_DIO_PRF :: "u8 \<Rightarrow> u8" where "RPL_DIO_PRF x = drop_bit 0 (x AND push_bit 0 7)"

definition RPL_DAO_K_MASK :: u8 where "RPL_DAO_K_MASK = push_bit 7 1"
definition RPL_DAO_K :: "u8 \<Rightarrow> u8" where "RPL_DAO_K x = drop_bit 7 (x AND RPL_DAO_K_MASK)"
definition RPL_DAO_D_MASK :: u8 where "RPL_DAO_D_MASK = push_bit 6 1"
definition RPL_DAO_D :: "u8 \<Rightarrow> u8" where "RPL_DAO_D x = drop_bit 6 (x AND RPL_DAO_D_MASK)"
definition RPL_DAOACK_D_MASK :: u8 where "RPL_DAOACK_D_MASK = push_bit 7 1"
definition RPL_DAOACK_D :: "u8 \<Rightarrow> u8" where
  "RPL_DAOACK_D x = drop_bit 7 (x AND RPL_DAOACK_D_MASK)"

subsection \<open>The structures and their layouts\<close>

record nd_rpl_opt =
  opt_type :: u8
  opt_len :: u8

definition nd_rpl_opt_bytes :: "nd_rpl_opt \<Rightarrow> bytes" where
  "nd_rpl_opt_bytes s = [opt_type s, opt_len s]"

definition nd_rpl_opt_of :: "bytes \<Rightarrow> nd_rpl_opt" where
  "nd_rpl_opt_of m = \<lparr>opt_type = m ! 0, opt_len = m ! 1\<rparr>"

text \<open>
  The security section: the key identifier behind it, whose length depends on the mode, is
  an array without elements in the structure.
\<close>

record nd_rpl_security =
  sec_t_reserved :: u8
  sec_algo :: u8
  sec_kim_lvl_flags :: bytes
  sec_counter :: bytes

definition nd_rpl_security_bytes :: "nd_rpl_security \<Rightarrow> bytes" where
  "nd_rpl_security_bytes s = [sec_t_reserved s, sec_algo s] @ sec_kim_lvl_flags s @ sec_counter s"

definition nd_rpl_security_of :: "bytes \<Rightarrow> nd_rpl_security" where
  "nd_rpl_security_of m =
     \<lparr>sec_t_reserved = m ! 0, sec_algo = m ! 1, sec_kim_lvl_flags = take 2 (drop 2 m), sec_counter = take 4 (drop 4 m)\<rparr>"

definition wf_security :: "nd_rpl_security \<Rightarrow> bool" where
  "wf_security s \<longleftrightarrow> length (sec_kim_lvl_flags s) = 2 \<and> length (sec_counter s) = 4"

record nd_rpl_dis =
  dis_flags :: u8
  dis_reserved :: u8

definition nd_rpl_dis_bytes :: "nd_rpl_dis \<Rightarrow> bytes" where
  "nd_rpl_dis_bytes s = [dis_flags s, dis_reserved s]"

definition nd_rpl_dis_of :: "bytes \<Rightarrow> nd_rpl_dis" where
  "nd_rpl_dis_of m = \<lparr>dis_flags = m ! 0, dis_reserved = m ! 1\<rparr>"

record rpl_dis_solicitedinfo =
  si_type :: u8
  si_len :: u8
  si_instanceid :: u8
  si_flags :: u8
  si_dagid :: bytes
  si_versionnum :: u8

definition rpl_dis_solicitedinfo_bytes :: "rpl_dis_solicitedinfo \<Rightarrow> bytes" where
  "rpl_dis_solicitedinfo_bytes s =
     [si_type s, si_len s, si_instanceid s, si_flags s] @ si_dagid s @ [si_versionnum s]"

definition rpl_dis_solicitedinfo_of :: "bytes \<Rightarrow> rpl_dis_solicitedinfo" where
  "rpl_dis_solicitedinfo_of m =
     \<lparr>si_type = m ! 0, si_len = m ! 1, si_instanceid = m ! 2, si_flags = m ! 3,
      si_dagid = take DAGID_LEN (drop 4 m), si_versionnum = m ! 20\<rparr>"

definition wf_solicitedinfo :: "rpl_dis_solicitedinfo \<Rightarrow> bool" where
  "wf_solicitedinfo s \<longleftrightarrow> length (si_dagid s) = DAGID_LEN"

record nd_rpl_dio =
  dio_instanceid :: u8
  dio_version :: u8
  dio_dagrank :: bytes
  dio_mopprf :: u8
  dio_dtsn :: u8
  dio_flags :: u8
  dio_resv1 :: u8
  dio_dagid :: in6_addr

definition nd_rpl_dio_bytes :: "nd_rpl_dio \<Rightarrow> bytes" where
  "nd_rpl_dio_bytes s =
     [dio_instanceid s, dio_version s] @ dio_dagrank s @
     [dio_mopprf s, dio_dtsn s, dio_flags s, dio_resv1 s] @ dio_dagid s"

definition nd_rpl_dio_of :: "bytes \<Rightarrow> nd_rpl_dio" where
  "nd_rpl_dio_of m =
     \<lparr>dio_instanceid = m ! 0, dio_version = m ! 1, dio_dagrank = take 2 (drop 2 m),
      dio_mopprf = m ! 4, dio_dtsn = m ! 5, dio_flags = m ! 6, dio_resv1 = m ! 7,
      dio_dagid = take 16 (drop 8 m)\<rparr>"

definition wf_dio :: "nd_rpl_dio \<Rightarrow> bool" where
  "wf_dio s \<longleftrightarrow> length (dio_dagrank s) = 2 \<and> wf_addr (dio_dagid s)"

text \<open>An option of any kind; its data is an array without elements behind it.\<close>

record rpl_dio_genoption =
  gen_type :: u8
  gen_len :: u8

definition rpl_dio_genoption_bytes :: "rpl_dio_genoption \<Rightarrow> bytes" where
  "rpl_dio_genoption_bytes s = [gen_type s, gen_len s]"

definition rpl_dio_genoption_of :: "bytes \<Rightarrow> rpl_dio_genoption" where
  "rpl_dio_genoption_of m = \<lparr>gen_type = m ! 0, gen_len = m ! 1\<rparr>"

record rpl_dio_destprefix =
  diodp_type :: u8
  diodp_len :: u8
  diodp_prefixlen :: u8
  diodp_prf :: u8
  diodp_route_lifetime :: bytes
  diodp_prefix :: in6_addr

definition rpl_dio_destprefix_bytes :: "rpl_dio_destprefix \<Rightarrow> bytes" where
  "rpl_dio_destprefix_bytes s =
     [diodp_type s, diodp_len s, diodp_prefixlen s, diodp_prf s] @
     diodp_route_lifetime s @ diodp_prefix s"

definition rpl_dio_destprefix_of :: "bytes \<Rightarrow> rpl_dio_destprefix" where
  "rpl_dio_destprefix_of m =
     \<lparr>diodp_type = m ! 0, diodp_len = m ! 1, diodp_prefixlen = m ! 2, diodp_prf = m ! 3,
      diodp_route_lifetime = take 4 (drop 4 m), diodp_prefix = take 16 (drop 8 m)\<rparr>"

definition wf_diodp :: "rpl_dio_destprefix \<Rightarrow> bool" where
  "wf_diodp s \<longleftrightarrow> length (diodp_route_lifetime s) = 4 \<and> wf_addr (diodp_prefix s)"

record nd_rpl_dao =
  dao_instanceid :: u8
  dao_flags :: u8
  dao_resv :: u8
  dao_daoseq :: u8
  dao_dagid :: in6_addr

definition nd_rpl_dao_bytes :: "nd_rpl_dao \<Rightarrow> bytes" where
  "nd_rpl_dao_bytes s =
     [dao_instanceid s, dao_flags s, dao_resv s, dao_daoseq s] @ dao_dagid s"

definition nd_rpl_dao_of :: "bytes \<Rightarrow> nd_rpl_dao" where
  "nd_rpl_dao_of m =
     \<lparr>dao_instanceid = m ! 0, dao_flags = m ! 1, dao_resv = m ! 2, dao_daoseq = m ! 3,
      dao_dagid = take 16 (drop 4 m)\<rparr>"

definition wf_dao :: "nd_rpl_dao \<Rightarrow> bool" where
  "wf_dao s \<longleftrightarrow> wf_addr (dao_dagid s)"

record rpl_dao_target =
  target_type :: u8
  target_len :: u8
  target_flags :: u8
  target_prefixlen :: u8
  target_prefix :: in6_addr

definition rpl_dao_target_bytes :: "rpl_dao_target \<Rightarrow> bytes" where
  "rpl_dao_target_bytes s =
     [target_type s, target_len s, target_flags s, target_prefixlen s] @ target_prefix s"

definition rpl_dao_target_of :: "bytes \<Rightarrow> rpl_dao_target" where
  "rpl_dao_target_of m =
     \<lparr>target_type = m ! 0, target_len = m ! 1, target_flags = m ! 2, target_prefixlen = m ! 3,
      target_prefix = take 16 (drop 4 m)\<rparr>"

definition wf_target :: "rpl_dao_target \<Rightarrow> bool" where
  "wf_target s \<longleftrightarrow> wf_addr (target_prefix s)"

record nd_rpl_daoack =
  daoack_instanceid :: u8
  daoack_flags :: u8
  daoack_daoseq :: u8
  daoack_status :: u8
  daoack_dagid :: in6_addr

definition nd_rpl_daoack_bytes :: "nd_rpl_daoack \<Rightarrow> bytes" where
  "nd_rpl_daoack_bytes s =
     [daoack_instanceid s, daoack_flags s, daoack_daoseq s, daoack_status s] @ daoack_dagid s"

definition nd_rpl_daoack_of :: "bytes \<Rightarrow> nd_rpl_daoack" where
  "nd_rpl_daoack_of m =
     \<lparr>daoack_instanceid = m ! 0, daoack_flags = m ! 1, daoack_daoseq = m ! 2,
      daoack_status = m ! 3, daoack_dagid = take 16 (drop 4 m)\<rparr>"

definition wf_daoack :: "nd_rpl_daoack \<Rightarrow> bool" where
  "wf_daoack s \<longleftrightarrow> wf_addr (daoack_dagid s)"

subsection \<open>Specification: fields at offsets\<close>

text \<open>
  The bytes of a structure hold its fields, each at the offset that \<open>fs\<close> gives, and nothing
  else. A structure with this layout is read back from its bytes, also from within a message,
  and every byte sequence of its size is the representation of a structure.
\<close>

definition fields_at :: "(nat \<times> bytes) list \<Rightarrow> bytes \<Rightarrow> bool" where
  "fields_at fs m \<longleftrightarrow> list_all (\<lambda>(off, f). take (length f) (drop off m) = f) fs \<and>
     length m = sum_list (map (length \<circ> snd) fs)"

definition wire_format :: "nat \<Rightarrow> ('s \<Rightarrow> (nat \<times> bytes) list) \<Rightarrow> ('s \<Rightarrow> bytes) \<Rightarrow> (bytes \<Rightarrow> 's) \<Rightarrow> ('s \<Rightarrow> bool) \<Rightarrow> bool" where
  "wire_format sz layout enc dec ok \<longleftrightarrow>
     (\<forall>s pre post. ok s \<longrightarrow> length (enc s) = sz \<and> fields_at (layout s) (enc s) \<and> dec (enc s) = s \<and>
        mem_read (pre @ enc s @ post) (length pre) sz = Inr (enc s)) \<and>
     (\<forall>m. length m = sz \<longrightarrow> ok (dec m) \<and> enc (dec m) = m)"

subsection \<open>The interface: a packed structure\<close>

text \<open>
  What the builders and the handlers need of a packed structure: a fixed size, and that
  writing and reading are inverse to each other. \<open>wf\<close> says that the multi-byte fields have
  their widths.
\<close>

locale packed_struct =
  fixes sz :: nat and enc :: "'s \<Rightarrow> bytes" and dec :: "bytes \<Rightarrow> 's" and wf :: "'s \<Rightarrow> bool"
  assumes length_enc: "wf s \<Longrightarrow> length (enc s) = sz"
    and dec_enc: "wf s \<Longrightarrow> dec (enc s) = s"
    and enc_dec: "length m = sz \<Longrightarrow> enc (dec m) = m"
    and wf_dec: "length m = sz \<Longrightarrow> wf (dec m)"
begin

lemma enc_eq_iff: "wf s \<Longrightarrow> wf t \<Longrightarrow> enc s = enc t \<longleftrightarrow> s = t"
  using dec_enc by metis

lemma dec_eq_iff: "length m = sz \<Longrightarrow> wf s \<Longrightarrow> dec m = s \<longleftrightarrow> m = enc s"
  using dec_enc enc_dec by metis

lemma read_back:
  "wf s \<Longrightarrow> bind_res (mem_read (pre @ enc s @ post) (length pre) sz) (\<lambda>m. Inr (dec m)) = Inr s"
  by (simp add: mem_read_def length_enc dec_enc)

lemma wire_formatI: "(\<And>s. wf s \<Longrightarrow> fields_at (layout s) (enc s)) \<Longrightarrow> wire_format sz layout enc dec wf"
  by (simp add: wire_format_def length_enc dec_enc enc_dec wf_dec mem_read_def)

lemma read_total:
  "off + sz \<le> length m \<Longrightarrow> \<exists>s. wf s \<and> mem_read m off sz = Inr (enc s)"
  by (intro exI [of _ "dec (take sz (drop off m))"]) (simp add: mem_read_Inr enc_dec wf_dec)

end

lemma length_4_iff: "length m = 4 \<longleftrightarrow> (\<exists>a b c d. m = [a, b, c, d])"
  by (auto simp: length_Suc_conv numeral_eq_Suc)

lemma length_splitE:
  assumes "length m = i + j"
  obtains p q where "m = p @ q" "length p = i" "length q = j"
  using assms that [of "take i m" "drop i m"] by simp

lemma length_20E:
  assumes "length m = 20"
  obtains a b c d q where "m = [a, b, c, d] @ q" "length q = 16"
  using assms by (auto elim!: length_splitE [of m 4 16, simplified] simp: length_4_iff)

lemma length_24E:
  assumes "length m = 24"
  obtains a b c d e f g h q where "m = [a, b, c, d] @ [e, f, g, h] @ q" "length q = 16"
  using assms by (auto elim!: length_splitE [of m 4 20, simplified] length_20E simp: length_4_iff)

interpretation opt: packed_struct 2 nd_rpl_opt_bytes nd_rpl_opt_of "\<lambda>_. True"
  by unfold_locales
    (auto simp: nd_rpl_opt_bytes_def nd_rpl_opt_of_def length_Suc_conv numeral_2_eq_2)

interpretation dis: packed_struct 2 nd_rpl_dis_bytes nd_rpl_dis_of "\<lambda>_. True"
  by unfold_locales
    (auto simp: nd_rpl_dis_bytes_def nd_rpl_dis_of_def length_Suc_conv numeral_2_eq_2)

interpretation gen: packed_struct 2 rpl_dio_genoption_bytes rpl_dio_genoption_of "\<lambda>_. True"
  by unfold_locales
    (auto simp: rpl_dio_genoption_bytes_def rpl_dio_genoption_of_def length_Suc_conv numeral_2_eq_2)

interpretation sec: packed_struct 8 nd_rpl_security_bytes nd_rpl_security_of wf_security
  by unfold_locales
    (auto simp: nd_rpl_security_bytes_def nd_rpl_security_of_def wf_security_def length_Suc_conv numeral_2_eq_2
      length_4_iff elim!: length_splitE [of _ 4 4, simplified])

interpretation si: packed_struct 21 rpl_dis_solicitedinfo_bytes rpl_dis_solicitedinfo_of wf_solicitedinfo
  by unfold_locales
    (auto simp: rpl_dis_solicitedinfo_bytes_def rpl_dis_solicitedinfo_of_def wf_solicitedinfo_def DAGID_LEN_def
      nth_append length_Suc_conv elim!: length_splitE [of _ 20 1, simplified] length_20E)

interpretation dio: packed_struct 24 nd_rpl_dio_bytes nd_rpl_dio_of wf_dio
  by unfold_locales
    (auto simp: nd_rpl_dio_bytes_def nd_rpl_dio_of_def wf_dio_def wf_addr_def length_Suc_conv
      numeral_2_eq_2 elim!: length_24E)

interpretation diodp: packed_struct 24 rpl_dio_destprefix_bytes rpl_dio_destprefix_of wf_diodp
  by unfold_locales
    (auto simp: rpl_dio_destprefix_bytes_def rpl_dio_destprefix_of_def wf_diodp_def wf_addr_def
      length_4_iff elim!: length_24E)

interpretation dao: packed_struct 20 nd_rpl_dao_bytes nd_rpl_dao_of wf_dao
  by unfold_locales
    (auto simp: nd_rpl_dao_bytes_def nd_rpl_dao_of_def wf_dao_def wf_addr_def elim!: length_20E)

interpretation target: packed_struct 20 rpl_dao_target_bytes rpl_dao_target_of wf_target
  by unfold_locales
    (auto simp: rpl_dao_target_bytes_def rpl_dao_target_of_def wf_target_def wf_addr_def
      elim!: length_20E)

interpretation daoack: packed_struct 20 nd_rpl_daoack_bytes nd_rpl_daoack_of wf_daoack
  by unfold_locales
    (auto simp: nd_rpl_daoack_bytes_def nd_rpl_daoack_of_def wf_daoack_def wf_addr_def
      elim!: length_20E)

subsection \<open>Properties\<close>

text \<open>
  C30: the ten structures of \<open>rpl.h\<close> on the wire. Each field stands at its offset, without
  padding, as RFC 6550 has it (the DIO in 6.3.1, the DAO in 6.4.1, the DAO-ACK in 6.5.1, the DIS
  in 6.2.1, the security section in 6.1, the options in 6.7). A well-formed structure is read
  back from its bytes, wherever they stand in a message, and every byte sequence of a
  structure's size is the representation of exactly one well-formed structure, the one read
  from it.
\<close>

theorem wire_read_write:
  "wire_format 24 (\<lambda>s. [(0, [dio_instanceid s]), (1, [dio_version s]), (2, dio_dagrank s), (4, [dio_mopprf s]), (5, [dio_dtsn s]),
     (6, [dio_flags s]), (7, [dio_resv1 s]), (8, dio_dagid s)]) nd_rpl_dio_bytes nd_rpl_dio_of wf_dio \<and>
   wire_format 20 (\<lambda>s. [(0, [dao_instanceid s]), (1, [dao_flags s]), (2, [dao_resv s]), (3, [dao_daoseq s]), (4, dao_dagid s)])
     nd_rpl_dao_bytes nd_rpl_dao_of wf_dao \<and>
   wire_format 20 (\<lambda>s. [(0, [daoack_instanceid s]), (1, [daoack_flags s]), (2, [daoack_daoseq s]), (3, [daoack_status s]),
     (4, daoack_dagid s)]) nd_rpl_daoack_bytes nd_rpl_daoack_of wf_daoack \<and>
   wire_format 2 (\<lambda>s. [(0, [dis_flags s]), (1, [dis_reserved s])]) nd_rpl_dis_bytes nd_rpl_dis_of (\<lambda>_. True) \<and>
   wire_format 2 (\<lambda>s. [(0, [opt_type s]), (1, [opt_len s])]) nd_rpl_opt_bytes nd_rpl_opt_of (\<lambda>_. True) \<and>
   wire_format 2 (\<lambda>s. [(0, [gen_type s]), (1, [gen_len s])]) rpl_dio_genoption_bytes rpl_dio_genoption_of (\<lambda>_. True) \<and>
   wire_format 20 (\<lambda>s. [(0, [target_type s]), (1, [target_len s]), (2, [target_flags s]), (3, [target_prefixlen s]),
     (4, target_prefix s)]) rpl_dao_target_bytes rpl_dao_target_of wf_target \<and>
   wire_format 24 (\<lambda>s. [(0, [diodp_type s]), (1, [diodp_len s]), (2, [diodp_prefixlen s]), (3, [diodp_prf s]),
     (4, diodp_route_lifetime s), (8, diodp_prefix s)]) rpl_dio_destprefix_bytes rpl_dio_destprefix_of wf_diodp \<and>
   wire_format 21 (\<lambda>s. [(0, [si_type s]), (1, [si_len s]), (2, [si_instanceid s]), (3, [si_flags s]), (4, si_dagid s),
     (20, [si_versionnum s])]) rpl_dis_solicitedinfo_bytes rpl_dis_solicitedinfo_of wf_solicitedinfo \<and>
   wire_format 8 (\<lambda>s. [(0, [sec_t_reserved s]), (1, [sec_algo s]), (2, sec_kim_lvl_flags s), (4, sec_counter s)])
     nd_rpl_security_bytes nd_rpl_security_of wf_security"
proof (intro conjI dio.wire_formatI dao.wire_formatI daoack.wire_formatI dis.wire_formatI opt.wire_formatI gen.wire_formatI
    target.wire_formatI diodp.wire_formatI si.wire_formatI sec.wire_formatI)
qed (simp_all add: fields_at_def nd_rpl_dio_bytes_def nd_rpl_dao_bytes_def nd_rpl_daoack_bytes_def nd_rpl_dis_bytes_def nd_rpl_opt_bytes_def
    rpl_dio_genoption_bytes_def rpl_dao_target_bytes_def rpl_dio_destprefix_bytes_def rpl_dis_solicitedinfo_bytes_def
    nd_rpl_security_bytes_def wf_dio_def wf_dao_def wf_daoack_def wf_target_def wf_diodp_def wf_solicitedinfo_def
    wf_security_def wf_addr_def DAGID_LEN_def)

end
