(* ===== verification/Structs.thy ===== *)
theory Structs
  imports Environment
begin

section \<open>dag.h, config.h, helpers.h: the daemon's state\<close>

text \<open>
  The structures the daemon keeps between two events. An intrusive list (\<open>struct list_head\<close>
  of \<open>struct list\<close> nodes) is the list of its elements in order; theory \<open>Utlist\<close> relates
  the two. A pointer to an element of such a list is its index: the code only ever appends
  to these lists, so an index keeps naming the same element. The back pointers \<open>dag->iface\<close>
  and \<open>dag->rpl\<close> name the interface and the instance whose lists hold the dag, so the model
  passes these along instead. \<open>rpl_freed\<close> records that an instance still on its list has
  been passed to \<open>free\<close>; following a pointer to it is then a fault.
\<close>

record in6_prefix =
  prefix :: in6_addr
  pfx_len :: u8

record peer =
  peer_addr :: in6_addr
  peer_rank :: u16

record child =
  child_addr :: in6_addr
  child_from :: in6_addr

record dag_daoack =
  ack_dsn :: u8

record dag =
  version :: u8
  dtsn :: u8
  dsn :: u8
  dodagid :: in6_addr
  dest :: in6_prefix
  my_rank :: u16
  parent :: "peer option"
  self :: in6_addr
  childs :: "child list"
  trickle_t :: ev_tstamp
  pending_acks :: "dag_daoack list"

record rpl =
  instance_id :: u8
  dags :: "dag list"
  rpl_freed :: bool

record iface_llinfo =
  ll_addr :: "bytes option"
  addr_len :: u8
  ll_ifindex :: u32

record iface =
  ifname :: string
  ifindex :: u32
  llinfo :: iface_llinfo
  ifaddr :: in6_addr
  ifaddrs :: "in6_addr list"
  ifaddrs_count :: int
  ifaddr_src :: "in6_addr option"
  rpls :: "rpl list"
  dodag_root :: bool

definition DEFAULT_TICKLE_T :: ev_tstamp where "DEFAULT_TICKLE_T = 5"
definition DEFAULT_DAG_VERSION :: u8 where "DEFAULT_DAG_VERSION = 1"

text \<open>A \<open>struct dag *\<close>: the instance's index in the interface's list, the dag's in the instance's.\<close>

type_synonym dag_ptr = "nat \<times> nat"

definition get_dag :: "iface \<Rightarrow> dag_ptr \<Rightarrow> dag" where
  "get_dag i p = dags (rpls i ! fst p) ! snd p"

definition upd_dag :: "iface \<Rightarrow> dag_ptr \<Rightarrow> (dag \<Rightarrow> dag) \<Rightarrow> iface" where
  "upd_dag i p f =
     i\<lparr>rpls := (rpls i)[fst p := (rpls i ! fst p)\<lparr>dags :=
        (dags (rpls i ! fst p))[snd p := f (get_dag i p)]\<rparr>]\<rparr>"

definition valid_dag :: "iface \<Rightarrow> dag_ptr \<Rightarrow> bool" where
  "valid_dag i p \<longleftrightarrow> fst p < length (rpls i) \<and> snd p < length (dags (rpls i ! fst p))"

definition all_dags :: "iface \<Rightarrow> dag list" where
  "all_dags i = concat (map dags (rpls i))"

subsection \<open>Lemmas on dag pointers\<close>

lemma get_upd_dag [simp]: "valid_dag i p \<Longrightarrow> get_dag (upd_dag i p f) p = f (get_dag i p)"
  by (simp add: get_dag_def upd_dag_def valid_dag_def)

lemma valid_upd_dag [simp]: "valid_dag (upd_dag i p f) q = valid_dag i q"
  by (auto simp: valid_dag_def upd_dag_def nth_list_update_if)

lemma get_upd_dag_other: "p \<noteq> q \<Longrightarrow> get_dag (upd_dag i p f) q = get_dag i q"
  by (auto simp: get_dag_def upd_dag_def nth_list_update_if prod_eq_iff)

lemma upd_dag_simps [simp]:
  "ifindex (upd_dag i p f) = ifindex i"
  "llinfo (upd_dag i p f) = llinfo i"
  "ifaddr_src (upd_dag i p f) = ifaddr_src i"
  "dodag_root (upd_dag i p f) = dodag_root i"
  "length (rpls (upd_dag i p f)) = length (rpls i)"
  by (simp_all add: upd_dag_def)

lemma instance_id_upd_dag [simp]:
  "instance_id (rpls (upd_dag i p f) ! r) = instance_id (rpls i ! r)"
  by (simp add: upd_dag_def nth_list_update_if)

lemma rpl_freed_upd_dag [simp]:
  "rpl_freed (rpls (upd_dag i p f) ! r) = rpl_freed (rpls i ! r)"
  by (simp add: upd_dag_def nth_list_update_if)

lemma upd_dag_upd_dag [simp]:
  "valid_dag i p \<Longrightarrow> upd_dag (upd_dag i p f) p g = upd_dag i p (g \<circ> f)"
  by (simp add: upd_dag_def get_dag_def valid_dag_def)

lemma upd_dag_const [simp]: "upd_dag i p (\<lambda>_. f (get_dag i p)) = upd_dag i p f"
  by (simp add: upd_dag_def)

lemma get_dag_in_all: "valid_dag i p \<Longrightarrow> get_dag i p \<in> set (all_dags i)"
  by (auto simp: get_dag_def valid_dag_def all_dags_def intro!: bexI [of _ "rpls i ! fst p"])

lemma all_dagsE:
  assumes "d \<in> set (all_dags i)"
  obtains p where "valid_dag i p" "get_dag i p = d"
proof -
  from assms obtain r k where "r < length (rpls i)" "k < length (dags (rpls i ! r))"
      "dags (rpls i ! r) ! k = d"
    by (auto simp: all_dags_def in_set_conv_nth)
  then show ?thesis using that [of "(r, k)"] by (simp add: valid_dag_def get_dag_def)
qed

end
