(* ===== verification/Helpers.thy ===== *)
theory Helpers
  imports Structs
begin

section \<open>helpers.h and helpers.c: prefixes and addresses\<close>

text \<open>
  Prefix lengths, the stateless address of an interface, the random private prefix of a
  root, the multicast group of the protocol, and the writes of kernel variables under
  \<open>/proc/sys\<close>. \<open>addrtostr\<close>, which formats the addresses of log messages, writes into a
  buffer of the caller; \<open>inet_ntop\<close> is a parameter.
\<close>

definition all_rpl_addr :: in6_addr where
  "all_rpl_addr = [0xff, 0x02, 0, 0, 0, 0, 0, 0, 0, 0, 0, 0, 0, 0, 0, 0x1a]"

text \<open>What \<open>strncpy\<close> writes of a string \<open>s\<close> that ends within \<open>n\<close> bytes or not.\<close>

definition strncpy_chars :: "string \<Rightarrow> nat \<Rightarrow> string" where
  "strncpy_chars s n = take n s @ replicate (n - length s) (CHR 0x00)"

definition addrtostr :: "(in6_addr \<Rightarrow> nat \<Rightarrow> string option) \<Rightarrow> in6_addr \<Rightarrow> string \<Rightarrow> nat \<Rightarrow> string res" where
  "addrtostr inet_ntop addr str str_size =
     (case inet_ntop addr str_size of
        Some res \<Rightarrow> mem_write str 0 res
      | None \<Rightarrow> bind_res (mem_write str 0 (strncpy_chars ''[invalid address]'' str_size)) (\<lambda>str.
          if str_size = 0 then Inl Out_of_bounds else mem_write str (str_size - 1) [CHR 0x00]))"

definition bits_to_bytes :: "u8 \<Rightarrow> u8" where
  "bits_to_bytes bits =
     (let o1 = drop_bit 3 bits; b = bits AND 0x7 in if b \<noteq> 0 then o1 + 1 else o1)"

text \<open>
  The loop \<open>for (i = 0; i < n; i++) dst[len + i] = addr[i]\<close>; \<open>addr\<close> is a pointer that is
  null when the link-layer address could not be stored.
\<close>

fun copy_lladdr :: "bytes option \<Rightarrow> nat \<Rightarrow> nat \<Rightarrow> bytes \<Rightarrow> bytes res" where
  "copy_lladdr addr len 0 dst = Inr dst"
| "copy_lladdr addr len (Suc i) dst =
     bind_res (copy_lladdr addr len i dst) (\<lambda>dst.
     bind_res (case addr of None \<Rightarrow> Inl Null_deref | Some a \<Rightarrow> mem_u8 a i) (\<lambda>b.
     mem_write dst (len + i) [b]))"

text \<open>The result is the return code and what \<open>dst\<close> holds.\<close>

definition gen_stateless_addr :: "in6_prefix \<Rightarrow> iface_llinfo \<Rightarrow> (int \<times> in6_addr) res" where
  "gen_stateless_addr pfx ll =
     (let len = bits_to_bytes (pfx_len pfx); dst = replicate 16 0 in
      if pfx_len pfx \<noteq> 64 \<or> addr_len ll \<noteq> 8 then Inr (-1, dst)
      else bind_res (mem_read (prefix pfx) 0 (unat len)) (\<lambda>bs.
           bind_res (mem_write dst 0 bs) (\<lambda>dst.
           bind_res (copy_lladdr (ll_addr ll) (unat len) (unat (addr_len ll)) dst) (\<lambda>dst.
           bind_res (mem_u8 dst 8) (\<lambda>b.
           bind_res (mem_write dst 8 [b XOR 0x02]) (\<lambda>dst. Inr (0, dst)))))))"

text \<open>\<open>rnd i\<close> is the value of the \<open>i\<close>-th call of \<open>random()\<close>, for \<open>i\<close> from 1 to 5.\<close>

definition gen_random_private_ula_pfx :: "(nat \<Rightarrow> u32) \<Rightarrow> int \<times> in6_prefix" where
  "gen_random_private_ula_pfx rnd =
     (0, \<lparr>prefix = foldl (\<lambda>p i. p[i := ucast (rnd i AND 0xff)]) ((replicate 16 0)[0 := 0xfd]) [1..<6],
          pfx_len = 64\<rparr>)"

definition init_random_gen :: "env \<Rightarrow> world \<Rightarrow> world" where
  "init_random_gen E w = emit (Srandom (sys_time E (w_trace w))) w"

subsection \<open>Kernel variables\<close>

definition PROC_SYS_IP6_IFACE_FORWARDING :: string where
  "PROC_SYS_IP6_IFACE_FORWARDING = ''/proc/sys/net/ipv6/conf/%s/forwarding''"

definition PROC_SYS_IP6_MAX_HBH_OPTS_NUM :: string where
  "PROC_SYS_IP6_MAX_HBH_OPTS_NUM = ''/proc/sys/net/ipv6/max_hbh_opts_number''"

text \<open>\<open>vasprintf\<close> of a format with string directives only, and with that one argument.\<close>

fun format_s :: "string \<Rightarrow> string \<Rightarrow> string" where
  "format_s (CHR ''%'' # CHR ''s'' # f) a = a @ format_s f a"
| "format_s (c # f) a = c # format_s f a"
| "format_s [] a = []"

definition strdupf :: "env \<Rightarrow> string \<Rightarrow> string \<Rightarrow> world \<Rightarrow> (string \<times> world) res" where
  "strdupf E format a w =
     (let (ok, w) = alloc E w in if ok then Inr (format_s format a, w) else Inl (Exit (-1)))"

text \<open>The part both functions share: the access test, the open, the write.\<close>

definition write_value :: "env \<Rightarrow> string \<Rightarrow> u32 \<Rightarrow> world \<Rightarrow> int \<times> world" where
  "write_value E path val w =
     (if \<not> file_exists E (w_trace w) path then (-1, w)
      else if \<not> file_opens E (w_trace w) path then (-1, w)
      else if \<not> file_prints E (w_trace w) path then (-1, w)
      else (0, emit (Write_file path val) w))"

definition set_var :: "env \<Rightarrow> string \<Rightarrow> u32 \<Rightarrow> world \<Rightarrow> int \<times> world" where
  "set_var E var val w = write_value E var val w"

definition set_interface_var :: "env \<Rightarrow> string \<Rightarrow> string \<Rightarrow> u32 \<Rightarrow> world \<Rightarrow> (int \<times> world) res" where
  "set_interface_var E iface var val w =
     bind_res (strdupf E var iface w) (\<lambda>(spath, w).
     let (rc, w) = (if iface = [] \<or> iface = ''.'' \<or> iface = ''..'' \<or> CHR ''/'' \<in> set iface then (-1, w)
                    else write_value E spath val w)
     in Inr (rc, release w))"

definition wf_prefix :: "in6_prefix \<Rightarrow> bool" where
  "wf_prefix p \<longleftrightarrow> wf_addr (prefix p)"

subsection \<open>Lemmas\<close>

lemma ceil8: "r < 8 \<Longrightarrow> (8 * q + r + 7) div 8 = (if r = 0 then q else q + 1)" for q r :: nat
  by (auto intro!: div_nat_eqI)

lemma unat_bits_to_bytes: "unat (bits_to_bytes b) = (unat b + 7) div 8"
proof -
  have d: "unat (drop_bit 3 b) = unat b div 8"
    by (simp add: drop_bit_eq_div unat_div_distrib)
  have "b AND 7 = take_bit 3 b"
    by (simp add: take_bit_eq_mask mask_eq_exp_minus_1)
  then have m: "unat (b AND 7) = unat b mod 8"
    by (simp add: take_bit_eq_mod unat_mod)
  have nz: "b AND 7 \<noteq> 0 \<longleftrightarrow> unat b mod 8 \<noteq> 0"
    by (metis m unat_eq_zero)
  have "unat b div 8 \<le> 31" using unat_u8_less [of b] by simp
  then have s: "unat (drop_bit 3 b + 1) = unat b div 8 + 1"
    by (simp add: unat_word_ariths d)
  have "(unat b + 7) div 8 = (if unat b mod 8 = 0 then unat b div 8 else unat b div 8 + 1)"
    using ceil8 [of "unat b mod 8" "unat b div 8"] by simp
  then show ?thesis using nz s d by (simp add: bits_to_bytes_def Let_def)
qed

lemma bits_to_bytes_le_32: "unat (bits_to_bytes b) \<le> 32"
  using unat_u8_less [of b] by (simp add: unat_bits_to_bytes)

lemma wf_all_rpl_addr [simp]: "wf_addr all_rpl_addr"
  by (simp add: wf_addr_def all_rpl_addr_def)

lemma copy_lladdr_Inr:
  "i \<le> length a \<Longrightarrow> len + i \<le> length dst \<Longrightarrow>
   copy_lladdr (Some a) len i dst = Inr (take len dst @ take i a @ drop (len + i) dst)"
proof (induction i)
  case (Suc i)
  then have "copy_lladdr (Some a) len i dst = Inr (take len dst @ take i a @ drop (len + i) dst)"
    by simp
  with Suc.prems show ?case
    by (simp add: mem_u8_Inr mem_write_Inr take_Suc_conv_app_nth drop_drop)
qed simp

lemma bits_to_bytes_64 [simp]: "unat (bits_to_bytes 64) = 8"
  by (simp add: unat_bits_to_bytes)

lemma bits_to_bytes_128 [simp]: "bits_to_bytes 128 = 16"
  by (simp add: bits_to_bytes_def Let_def)

lemma ceil8_le_16: "unat (b::u8) \<le> 128 \<Longrightarrow> unat (bits_to_bytes b) \<le> 16"
  by (simp add: unat_bits_to_bytes)

lemma gen_stateless_addr_Inr:
  assumes "wf_prefix p" "pfx_len p = 64" "addr_len ll = 8" "ll_addr ll = Some a" "length a = 8"
  shows "gen_stateless_addr p ll = Inr (0, take 8 (prefix p) @ ((hd a XOR 2) # tl a))"
proof -
  obtain b bs where a: "a = b # bs" "length bs = 7"
    using assms(5) by (cases a) auto
  have "copy_lladdr (Some a) 8 8 (take 8 (prefix p) @ replicate 8 0) = Inr (take 8 (prefix p) @ a)"
    using assms(1,5) by (subst copy_lladdr_Inr) (simp_all add: wf_prefix_def wf_addr_def)
  then show ?thesis
    using assms a
    by (simp add: gen_stateless_addr_def Let_def mem_read_Inr mem_write_Inr mem_u8_Inr
        wf_prefix_def wf_addr_def nth_append)
qed

lemma gen_stateless_addr_unsupported:
  "pfx_len p \<noteq> 64 \<or> addr_len ll \<noteq> 8 \<Longrightarrow> gen_stateless_addr p ll = Inr (-1, replicate 16 0)"
  by (auto simp: gen_stateless_addr_def Let_def)

subsection \<open>Properties\<close>

text \<open>
  \<open>bits_to_bytes\<close> is the least number of bytes that hold the bits, for all 256 lengths.
\<close>

lemma bits_to_bytes_least:
  "unat b \<le> 8 * unat (bits_to_bytes b) \<and> 8 * unat (bits_to_bytes b) < unat b + 8"
  using ceil8 [of "unat b mod 8" "unat b div 8"] by (auto simp: unat_bits_to_bytes)

text \<open>
  \<open>addrtostr\<close> leaves a terminated string in the buffer and nothing behind it changed, under
  the two conditions of its comment and what \<open>inet_ntop\<close> promises.
\<close>

lemma addrtostr_terminated:
  assumes "0 < str_size" "str_size \<le> length str"
    "\<And>res. inet_ntop addr str_size = Some res \<Longrightarrow> CHR 0x00 \<in> set res \<and> length res \<le> str_size"
  shows "\<exists>str'. addrtostr inet_ntop addr str str_size = Inr str' \<and> length str' = length str \<and>
    CHR 0x00 \<in> set (take str_size str') \<and> drop str_size str' = drop str_size str"
proof (cases "inet_ntop addr str_size")
  case None
  let ?s = "strncpy_chars ''[invalid address]'' str_size"
  have s: "length ?s = str_size" by (simp add: strncpy_chars_def)
  then have "addrtostr inet_ntop addr str str_size = Inr (take (str_size - 1) ?s @ CHR 0x00 # drop str_size str)"
    using assms(1,2) None by (simp add: addrtostr_def mem_write_def)
  then show ?thesis using assms(1,2) s by auto
next
  case (Some res)
  have "addrtostr inet_ntop addr str str_size = Inr (res @ drop (length res) str)"
    using Some assms by (simp add: addrtostr_def mem_write_def)
  then show ?thesis using assms(2) assms(3) [OF Some] by auto
qed

text \<open>
  C31: the stateless address of an interface with an EUI-64 in a 64-bit prefix is the prefix
  followed by the EUI-64 with its universal/local bit flipped; two interfaces with different
  link-layer addresses get different addresses.
\<close>

theorem stateless_addr_eui64:
  assumes "wf_prefix p" "pfx_len p = 64" "addr_len l = 8" "ll_addr l = Some a" "length a = 8"
    "addr_len l' = 8" "ll_addr l' = Some a'" "length a' = 8" "a \<noteq> a'"
  shows "\<exists>x y. gen_stateless_addr p l = Inr (0, x) \<and> gen_stateless_addr p l' = Inr (0, y) \<and>
    take 8 x = take 8 (prefix p) \<and> drop 9 x = drop 1 a \<and> x ! 8 = a ! 0 XOR 2 \<and> x \<noteq> y"
proof -
  have inj: "u = v" if "u XOR 2 = v XOR 2" for u v :: u8
  proof -
    have "(u XOR 2) XOR 2 = (v XOR 2) XOR 2" using that by simp
    then show ?thesis by (simp add: xor.assoc)
  qed
  obtain b bs c cs where "a = b # bs" "a' = c # cs" using assms(5,8) by (cases a; cases a') auto
  then show ?thesis
    using assms gen_stateless_addr_Inr [OF assms(1-5)] gen_stateless_addr_Inr [OF assms(1,2,6-8)] inj
    by (auto simp: wf_prefix_def wf_addr_def nth_append)
qed

theorem stateless_addr_eui64_witness:
  "\<exists>x y. gen_stateless_addr \<lparr>prefix = replicate 16 1, pfx_len = 64\<rparr> \<lparr>ll_addr = Some (replicate 8 2), addr_len = 8, ll_ifindex = 0\<rparr> = Inr (0, x) \<and>
     gen_stateless_addr \<lparr>prefix = replicate 16 1, pfx_len = 64\<rparr> \<lparr>ll_addr = Some (replicate 8 3), addr_len = 8, ll_ifindex = 0\<rparr> = Inr (0, y) \<and>
     x \<noteq> y \<and> x ! 8 = 0"
  using stateless_addr_eui64 [of "\<lparr>prefix = replicate 16 1, pfx_len = 64\<rparr>" "\<lparr>ll_addr = Some (replicate 8 2), addr_len = 8, ll_ifindex = 0\<rparr>"
      "replicate 8 2" "\<lparr>ll_addr = Some (replicate 8 3), addr_len = 8, ll_ifindex = 0\<rparr>" "replicate 8 3"]
  by (auto simp: wf_prefix_def wf_addr_def)

end
