(* ===== verification/Netlink.thy ===== *)
theory Netlink
  imports Structs
begin

section \<open>netlink.c: addresses and routes\<close>

text \<open>
  The requests the daemon makes of the kernel's routing tables. A request is recorded as the
  values the code hands to libmnl, then goes out through \<open>nl_talk\<close>: send, receive the
  answer, let libmnl interpret it. The answers of the three libmnl calls and \<open>errno\<close> are
  the environment's. The constants are those of the kernel's \<open>rtnetlink.h\<close> and
  \<open>if_addr.h\<close>.
\<close>

definition NLM_F_REQUEST :: u16 where "NLM_F_REQUEST = 0x01"
definition NLM_F_ACK :: u16 where "NLM_F_ACK = 0x04"
definition NLM_F_CREATE :: u16 where "NLM_F_CREATE = 0x400"
definition RTM_GETLINK :: u16 where "RTM_GETLINK = 18"
definition RTM_NEWADDR :: u16 where "RTM_NEWADDR = 20"
definition RTM_NEWROUTE :: u16 where "RTM_NEWROUTE = 24"
definition RTM_DELROUTE :: u16 where "RTM_DELROUTE = 25"
definition AF_INET6 :: u8 where "AF_INET6 = 10"
definition IFA_F_PERMANENT :: u8 where "IFA_F_PERMANENT = 0x80"
definition RT_SCOPE_UNIVERSE :: u8 where "RT_SCOPE_UNIVERSE = 0"
definition RTPROT_STATIC :: u8 where "RTPROT_STATIC = 4"
definition RT_TABLE_MAIN :: u8 where "RT_TABLE_MAIN = 254"
definition RTN_UNICAST :: u8 where "RTN_UNICAST = 1"
definition AF_UNSPEC :: u8 where "AF_UNSPEC = 0"
definition IFLA_ADDRESS :: nat where "IFLA_ADDRESS = 1"
definition IFLA_LINK :: nat where "IFLA_LINK = 5"
definition IFA_ADDRESS :: u16 where "IFA_ADDRESS = 1"
definition RTA_DST :: u16 where "RTA_DST = 1"
definition RTA_OIF :: u16 where "RTA_OIF = 4"
definition RTA_GATEWAY :: u16 where "RTA_GATEWAY = 5"
definition EEXIST :: int where "EEXIST = 17"

subsection \<open>The exchange with the kernel\<close>

text \<open>The code that ends each of the four functions below.\<close>

definition nl_talk :: "env \<Rightarrow> nlmsg \<Rightarrow> world \<Rightarrow> int \<times> world" where
  "nl_talk E nlh w =
     (let w = emit (Netlink nlh) w; t = w_trace w; failed = w\<lparr>w_errno := sys_errno E t\<rparr> in
      if mnl_sendto_rc E t < 0 then (-1, failed)
      else if mnl_recvfrom_rc E t = -1 then (-1, failed)
      else let rc = mnl_cb_run_rc E t in (rc, if rc = -1 then failed else w))"

subsection \<open>The requests\<close>

definition addr_request :: "u32 \<Rightarrow> u32 \<Rightarrow> in6_addr \<Rightarrow> nlmsg" where
  "addr_request seq ifi addr =
     \<lparr>nlmsg_type = RTM_NEWADDR,
      nlmsg_flags = NLM_F_REQUEST OR NLM_F_CREATE OR NLM_F_ACK,
      nlmsg_seq = seq,
      nlmsg_extra = Ifaddr \<lparr>ifa_family = AF_INET6, ifa_prefixlen = 64, ifa_flags = IFA_F_PERMANENT,
        ifa_scope = RT_SCOPE_UNIVERSE, ifa_index = ifi\<rparr>,
      nlmsg_attrs = [Nla_bytes IFA_ADDRESS addr]\<rparr>"

definition nl_add_addr :: "env \<Rightarrow> u32 \<Rightarrow> in6_addr \<Rightarrow> world \<Rightarrow> int \<times> world" where
  "nl_add_addr E ifi addr w = nl_talk E (addr_request (sys_time E (w_trace w)) ifi addr) w"

definition route_via_request :: "u32 \<Rightarrow> u32 \<Rightarrow> in6_addr \<Rightarrow> in6_addr \<Rightarrow> nlmsg" where
  "route_via_request seq ifi dst via =
     \<lparr>nlmsg_type = RTM_NEWROUTE,
      nlmsg_flags = NLM_F_REQUEST OR NLM_F_CREATE OR NLM_F_ACK,
      nlmsg_seq = seq,
      nlmsg_extra = Rt \<lparr>rtm_family = AF_INET6, rtm_dst_len = 128, rtm_src_len = 0, rtm_tos = 0,
        rtm_table = RT_TABLE_MAIN, rtm_protocol = RTPROT_STATIC, rtm_scope = RT_SCOPE_UNIVERSE,
        rtm_type = RTN_UNICAST, rtm_flags = 0\<rparr>,
      nlmsg_attrs = [Nla_bytes RTA_DST dst, Nla_bytes RTA_GATEWAY via, Nla_u32 RTA_OIF ifi]\<rparr>"

definition nl_add_route_via :: "env \<Rightarrow> u32 \<Rightarrow> in6_addr \<Rightarrow> in6_addr \<Rightarrow> world \<Rightarrow> int \<times> world" where
  "nl_add_route_via E ifi dst via w =
     nl_talk E (route_via_request (sys_time E (w_trace w)) ifi dst via) w"

definition route_default_request :: "u32 \<Rightarrow> u32 \<Rightarrow> in6_addr \<Rightarrow> nlmsg" where
  "route_default_request seq ifi dst =
     \<lparr>nlmsg_type = RTM_NEWROUTE,
      nlmsg_flags = NLM_F_REQUEST OR NLM_F_CREATE OR NLM_F_ACK,
      nlmsg_seq = seq,
      nlmsg_extra = Rt \<lparr>rtm_family = AF_INET6, rtm_dst_len = 0, rtm_src_len = 0, rtm_tos = 0,
        rtm_table = RT_TABLE_MAIN, rtm_protocol = RTPROT_STATIC, rtm_scope = RT_SCOPE_UNIVERSE,
        rtm_type = RTN_UNICAST, rtm_flags = 0\<rparr>,
      nlmsg_attrs = [Nla_bytes RTA_GATEWAY dst, Nla_u32 RTA_OIF ifi]\<rparr>"

definition nl_add_route_default :: "env \<Rightarrow> u32 \<Rightarrow> in6_addr \<Rightarrow> world \<Rightarrow> int \<times> world" where
  "nl_add_route_default E ifi dst w =
     nl_talk E (route_default_request (sys_time E (w_trace w)) ifi dst) w"

definition del_route_request :: "u32 \<Rightarrow> u32 \<Rightarrow> in6_prefix \<Rightarrow> in6_addr option \<Rightarrow> nlmsg" where
  "del_route_request seq ifi dst via =
     \<lparr>nlmsg_type = RTM_DELROUTE,
      nlmsg_flags = NLM_F_REQUEST OR NLM_F_ACK,
      nlmsg_seq = seq,
      nlmsg_extra = Rt \<lparr>rtm_family = AF_INET6, rtm_dst_len = pfx_len dst, rtm_src_len = 0,
        rtm_tos = 0, rtm_table = RT_TABLE_MAIN, rtm_protocol = 0, rtm_scope = 0,
        rtm_type = 0, rtm_flags = 0\<rparr>,
      nlmsg_attrs = [Nla_bytes RTA_DST (prefix dst)] @
        (case via of None \<Rightarrow> [] | Some v \<Rightarrow> [Nla_bytes RTA_GATEWAY v]) @ [Nla_u32 RTA_OIF ifi]\<rparr>"

definition nl_del_route_via :: "env \<Rightarrow> u32 \<Rightarrow> in6_prefix \<Rightarrow> in6_addr option \<Rightarrow> world \<Rightarrow> int \<times> world" where
  "nl_del_route_via E ifi dst via w =
     nl_talk E (del_route_request (sys_time E (w_trace w)) ifi dst via) w"

subsection \<open>Opening and closing the routing socket\<close>

text \<open>A socket that cannot be bound is closed again.\<close>

definition netlink_open :: "env \<Rightarrow> world \<Rightarrow> int \<times> world" where
  "netlink_open E w =
     (let w = emit Nl_socket_open w in
      if \<not> mnl_open_ok E (w_trace w) then (-1, w)
      else let w = emit Nl_socket_bind w in
        if mnl_bind_rc E (w_trace w) < 0 then (-1, emit Nl_socket_close w) else (0, w))"

definition netlink_close :: "world \<Rightarrow> world" where
  "netlink_close w = emit Nl_socket_close w"

subsection \<open>The link-layer address of an interface\<close>

text \<open>
  What libmnl says of one attribute of a link message: its type, whether the type is one the
  code knows (\<open>mnl_attr_type_valid\<close>), whether it validates as the type the code asks for
  (\<open>mnl_attr_validate\<close>), and its payload.
\<close>

record nlattr =
  at_type :: nat
  at_type_valid :: bool
  at_validates :: bool
  at_u32 :: u32
  at_payload :: bytes

type_synonym attr_table = "nat \<Rightarrow> nlattr option"

text \<open>\<open>data_attr_cb\<close>: the result is whether parsing goes on, and the table.\<close>

definition data_attr_cb :: "nlattr \<Rightarrow> attr_table \<Rightarrow> bool \<times> attr_table" where
  "data_attr_cb a tb =
     (if \<not> at_type_valid a then (True, tb)
      else if (at_type a = IFLA_LINK \<or> at_type a = IFLA_ADDRESS) \<and> \<not> at_validates a then (False, tb)
      else (True, tb(at_type a := Some a)))"

text \<open>\<open>mnl_attr_parse\<close> calls the callback on each attribute until it returns an error.\<close>

fun attr_parse :: "nlattr list \<Rightarrow> attr_table \<Rightarrow> attr_table" where
  "attr_parse [] tb = tb"
| "attr_parse (a # as) tb =
     (let (go, tb) = data_attr_cb a tb in if go then attr_parse as tb else tb)"

text \<open>\<open>data_cb\<close>: \<open>addr_len\<close> is a \<open>uint8_t\<close>, and is assigned before the allocation that can fail.\<close>

definition data_cb :: "env \<Rightarrow> nlattr list \<Rightarrow> iface_llinfo \<Rightarrow> world \<Rightarrow> bool \<times> iface_llinfo \<times> world" where
  "data_cb E as ll w =
     (let tb = attr_parse as (\<lambda>_. None);
          ll = (case tb IFLA_LINK of None \<Rightarrow> ll | Some a \<Rightarrow> ll\<lparr>ll_ifindex := at_u32 a\<rparr>) in
      case tb IFLA_ADDRESS of
        None \<Rightarrow> (True, ll, w)
      | Some a \<Rightarrow>
          (let n = (word_of_nat (length (at_payload a)) :: u8); (ok, w) = alloc E w in
           if ok then (True, ll\<lparr>addr_len := n, ll_addr := Some (take (unat n) (at_payload a))\<rparr>, w)
           else (False, ll\<lparr>addr_len := n, ll_addr := None\<rparr>, w)))"

definition link_request :: "u32 \<Rightarrow> u32 \<Rightarrow> nlmsg" where
  "link_request seq ifi =
     \<lparr>nlmsg_type = RTM_GETLINK, nlmsg_flags = NLM_F_REQUEST, nlmsg_seq = seq,
      nlmsg_extra = Ifinfo \<lparr>ifi_family = AF_UNSPEC, ifi_index = ifi\<rparr>, nlmsg_attrs = []\<rparr>"

text \<open>
  \<open>nl_get_llinfo\<close>; \<open>reply\<close> is the link message of the kernel's answer, if \<open>mnl_cb_run\<close> finds
  one and calls \<open>data_cb\<close> on it. An error of the callback is the result of \<open>mnl_cb_run\<close>.
\<close>

definition nl_get_llinfo :: "env \<Rightarrow> nlattr list option \<Rightarrow> u32 \<Rightarrow> iface_llinfo \<Rightarrow> world
    \<Rightarrow> int \<times> iface_llinfo \<times> world" where
  "nl_get_llinfo E reply ifi ll w =
     (let w = emit (Netlink (link_request (sys_time E (w_trace w)) ifi)) w; t = w_trace w;
          failed = w\<lparr>w_errno := sys_errno E t\<rparr> in
      if mnl_sendto_rc E t < 0 then (-1, ll, failed)
      else if mnl_recvfrom_rc E t = -1 then (-1, ll, failed)
      else case reply of
             None \<Rightarrow> (let rc = mnl_cb_run_rc E t in (rc, ll, if rc = -1 then failed else w))
           | Some as \<Rightarrow> (let (ok, ll, w) = data_cb E as ll w in
               if ok then (mnl_cb_run_rc E t, ll, w) else (-1, ll, w)))"

subsection \<open>Lemmas\<close>

lemma data_cb_addr:
  assumes "data_cb E as ll w = (ok, ll', w')" "memory_available E" "addr_len ll = 0"
  shows "ok \<and> (addr_len ll' = 8 \<longrightarrow> (\<exists>a. ll_addr ll' = Some a \<and> length a = 8)) \<and> same_io w w'"
proof -
  have len: "unat (word_of_nat n :: u8) \<le> n" for n by (simp add: unsigned_of_nat take_bit_eq_mod)
  have *: "length (take (unat (word_of_nat (length p) :: u8)) p) = 8" if "(word_of_nat (length p) :: u8) = 8" for p :: bytes
    using len [of "length p"] that by simp
  show ?thesis
    using assms * by (auto simp: data_cb_def alloc_def memory_available_def same_io_def Let_def split: option.splits)
qed

lemma nl_get_llinfo_addr:
  assumes "nl_get_llinfo E reply ifi ll w = (rc, ll', w')" "memory_available E" "addr_len ll = 0"
  shows "addr_len ll' = 8 \<longrightarrow> (\<exists>a. ll_addr ll' = Some a \<and> length a = 8)"
  using assms data_cb_addr [OF _ assms(2,3)]
  by (auto simp: nl_get_llinfo_def Let_def split: if_splits option.splits prod.splits)

lemma nl_talk_world [world_simps]:
  "w_trace (snd (nl_talk E nlh w)) = w_trace w @ [Netlink nlh]"
  "w_live (snd (nl_talk E nlh w)) = w_live w"
  "w_allocs (snd (nl_talk E nlh w)) = w_allocs w"
  by (simp_all add: nl_talk_def Let_def)

lemmas nl_request_defs = nl_add_addr_def nl_add_route_via_def nl_add_route_default_def nl_del_route_via_def

lemma attr_parse_last:
  "\<forall>a \<in> set as. at_type_valid a \<and> at_validates a \<Longrightarrow>
   attr_parse as tb t = (case find (\<lambda>a. at_type a = t) (rev as) of Some a \<Rightarrow> Some a | None \<Rightarrow> tb t)"
proof (induction as arbitrary: tb)
  case (Cons a as)
  then have "attr_parse (a # as) tb t = attr_parse as (tb(at_type a := Some a)) t" by (simp add: data_attr_cb_def)
  also have "\<dots> = (case find (\<lambda>a. at_type a = t) (rev as) of Some a \<Rightarrow> Some a | None \<Rightarrow> (tb(at_type a := Some a)) t)"
    using Cons by simp
  finally show ?case by (simp add: find_append split: option.splits)
qed simp

subsection \<open>Properties\<close>

text \<open>
  C32: the link-layer address that \<open>nl_get_llinfo\<close> stores. When the exchange with the kernel
  works and every attribute of the answer is valid, the interface gets the payload of the
  last address attribute and its length, for every length that fits into a byte; the answer
  without one leaves it without an address.
\<close>

theorem llinfo_from_kernel:
  assumes "memory_available E" "\<forall>t. mnl_sendto_rc E t \<ge> 0 \<and> mnl_recvfrom_rc E t \<noteq> -1"
    "\<forall>a \<in> set as. at_type_valid a \<and> at_validates a \<and> length (at_payload a) < 256"
  shows "\<exists>rc ll' w'. nl_get_llinfo E (Some as) ifi ll w = (rc, ll', w') \<and>
    (case find (\<lambda>a. at_type a = IFLA_ADDRESS) (rev as) of
       None \<Rightarrow> ll_addr ll' = ll_addr ll \<and> addr_len ll' = addr_len ll
     | Some a \<Rightarrow> ll_addr ll' = Some (at_payload a) \<and> unat (addr_len ll') = length (at_payload a)) \<and>
    w_trace w' = w_trace w @ [Netlink (link_request (sys_time E (w_trace w)) ifi)]"
proof -
  let ?w = "emit (Netlink (link_request (sys_time E (w_trace w)) ifi)) w"
  have t: "attr_parse as (\<lambda>_. None) t = find (\<lambda>a. at_type a = t) (rev as)" for t
    using attr_parse_last [of as "\<lambda>_. None" t] assms(3) by (simp split: option.splits)
  have len: "unat (word_of_nat (length (at_payload a)) :: u8) = length (at_payload a)" if "find P (rev as) = Some a" for a P
    using find_in [OF that] assms(3) by (simp add: unsigned_of_nat take_bit_nat_eq_self)
  have sent: "\<not> mnl_sendto_rc E t < 0" "mnl_recvfrom_rc E t \<noteq> -1" for t using assms(2) by (auto simp: not_less)
  have "alloc_ok E n" for n using assms(1) by (simp add: memory_available_def)
  then show ?thesis using len
    by (auto simp: nl_get_llinfo_def data_cb_def t sent alloc_def Let_def split: option.splits)
qed

theorem llinfo_from_kernel_witness:
  "\<exists>rc ll' w'. nl_get_llinfo env0 (Some [\<lparr>at_type = IFLA_ADDRESS, at_type_valid = True, at_validates = True, at_u32 = 0,
      at_payload = [1, 2, 3, 4, 5, 6, 7, 8]\<rparr>]) 3 \<lparr>ll_addr = None, addr_len = 0, ll_ifindex = 0\<rparr> world0 = (rc, ll', w') \<and>
    ll_addr ll' = Some [1, 2, 3, 4, 5, 6, 7, 8] \<and> unat (addr_len ll') = 8"
  using llinfo_from_kernel [of env0 "[\<lparr>at_type = IFLA_ADDRESS, at_type_valid = True, at_validates = True, at_u32 = 0,
      at_payload = [1, 2, 3, 4, 5, 6, 7, 8]\<rparr>]" 3 "\<lparr>ll_addr = None, addr_len = 0, ll_ifindex = 0\<rparr>" world0]
  by (auto simp: env0_def memory_available_def)

end
