(* ===== verification/Keyed_List.thy ===== *)
theory Keyed_List
  imports Rpld_Prelude
begin

section \<open>Lists searched by a key\<close>

text \<open>
  The daemon keeps every collection in a list and finds an element by walking it and
  comparing a key: interfaces by index, instances by id, dags by DODAG id, children by
  address, pending acknowledgements by sequence number. The locale \<open>keyed_list\<close> is the
  contract of such a search (the index of the first element with the key; a walk over
  elements that are still allocated does not fault), and its lemmas are what the clients
  use: what a search finds, that it finds an element appended under a fresh key, and that
  keys stay unique when every append is guarded by a search.
\<close>

fun index_of :: "('x \<Rightarrow> 'k) \<Rightarrow> 'x list \<Rightarrow> 'k \<Rightarrow> nat option" where
  "index_of key [] k = None"
| "index_of key (x # xs) k = (if key x = k then Some 0 else map_option Suc (index_of key xs k))"

lemma index_of_None_iff: "index_of key xs k = None \<longleftrightarrow> k \<notin> key ` set xs"
  by (induction xs) auto

lemma index_of_SomeD:
  "index_of key xs k = Some i \<Longrightarrow>
   i < length xs \<and> key (xs ! i) = k \<and> (\<forall>j < i. key (xs ! j) \<noteq> k)"
proof (induction xs arbitrary: i)
  case (Cons x xs)
  then show ?case by (cases i) (auto split: if_splits simp: less_Suc_eq_0_disj)
qed simp

lemma index_of_append:
  "index_of key (xs @ ys) k =
   (case index_of key xs k of Some i \<Rightarrow> Some i
    | None \<Rightarrow> map_option (\<lambda>i. length xs + i) (index_of key ys k))"
  by (induction xs; cases "index_of key ys k") (auto split: option.splits)

lemma index_of_map_cong: "map key xs = map key ys \<Longrightarrow> index_of key xs k = index_of key ys k"
proof (induction xs arbitrary: ys)
  case (Cons x xs)
  then show ?case by (cases ys) auto
qed simp

lemma index_of_unique:
  "distinct (map key xs) \<Longrightarrow> i < length xs \<Longrightarrow> index_of key xs (key (xs ! i)) = Some i"
proof (induction xs arbitrary: i)
  case (Cons x xs)
  then show ?case by (cases i) auto
qed simp

lemma map_key_update: "key y = key (xs ! i) \<Longrightarrow> map key (xs[i := y]) = map key xs"
  by (cases "i < length xs") (auto intro!: nth_equalityI simp: nth_list_update_if list_update_beyond)

locale keyed_list =
  fixes lookup :: "'x list \<Rightarrow> 'k \<Rightarrow> nat option res"
    and key :: "'x \<Rightarrow> 'k" and live :: "'x \<Rightarrow> bool"
  assumes lookup_Nil: "lookup [] k = Inr None"
    and lookup_Cons: "live x \<Longrightarrow> lookup (x # xs) k =
      (if key x = k then Inr (Some 0) else bind_res (lookup xs k) (\<lambda>r. Inr (map_option Suc r)))"
    and lookup_Cons_dead: "\<not> live x \<Longrightarrow> lookup (x # xs) k = Inl Use_after_free"
begin

lemma lookup_live: "\<forall>x \<in> set xs. live x \<Longrightarrow> lookup xs k = Inr (index_of key xs k)"
  by (induction xs) (auto simp: lookup_Nil lookup_Cons)

lemma lookup_found:
  "\<forall>x \<in> set xs. live x \<Longrightarrow> lookup xs k = Inr (Some i) \<Longrightarrow> i < length xs \<and> key (xs ! i) = k"
  using index_of_SomeD [of key xs k i] by (simp add: lookup_live)

lemma lookup_absent:
  "\<forall>x \<in> set xs. live x \<Longrightarrow> lookup xs k = Inr None \<longleftrightarrow> k \<notin> key ` set xs"
  by (simp add: lookup_live index_of_None_iff)

lemma lookup_no_fault:
  "\<forall>x \<in> set xs. live x \<Longrightarrow> \<exists>r. lookup xs k = Inr r"
  by (simp add: lookup_live)

lemma lookup_snoc_fresh:
  "\<forall>x \<in> set (xs @ [y]). live x \<Longrightarrow> key y \<notin> key ` set xs \<Longrightarrow>
   lookup (xs @ [y]) (key y) = Inr (Some (length xs))"
  using index_of_None_iff [of key xs "key y"] by (simp add: lookup_live index_of_append)

lemma lookup_snoc_other:
  "\<forall>x \<in> set (xs @ [y]). live x \<Longrightarrow> k \<noteq> key y \<Longrightarrow> lookup (xs @ [y]) k = lookup xs k"
  by (auto simp: lookup_live index_of_append split: option.splits)

lemma distinct_snoc_guarded:
  "\<forall>x \<in> set xs. live x \<Longrightarrow> distinct (map key xs) \<Longrightarrow> lookup xs (key y) = Inr None \<Longrightarrow>
   distinct (map key (xs @ [y]))"
  by (simp add: lookup_live index_of_None_iff)

lemma lookup_dead:
  "lookup xs k = Inl e \<Longrightarrow> e = Use_after_free \<and> (\<exists>x \<in> set xs. \<not> live x)"
proof (induction xs)
  case (Cons x xs)
  then show ?case
    by (cases "live x") (auto simp: lookup_Cons lookup_Cons_dead bind_res_Inl_iff split: if_splits)
qed (simp add: lookup_Nil)

end

end
