(* ===== verification/Dag.thy ===== *)
theory Dag
  imports Buffer Rpl_Wire Helpers Netlink Keyed_List
begin

section \<open>dag.c: instances, dags, children, and the messages about them\<close>

text \<open>
  The tables of \<open>dag.c\<close> (instances of an interface, dags of an instance, children and
  pending acknowledgements of a dag) with the searches over them, the creation of a dag,
  and the builders of the four RPL messages. A search returns the index of the element, the
  model's pointer to it. \<open>dag_init_timer\<close> of \<open>rpld.c\<close>, which \<open>dag_init\<close> calls, stands
  here as well.
\<close>

subsection \<open>Peers and children\<close>

definition dag_peer_create :: "env \<Rightarrow> in6_addr \<Rightarrow> world \<Rightarrow> peer option \<times> world" where
  "dag_peer_create E addr w =
     (let (ok, w) = alloc E w in
      (if ok then Some \<lparr>peer_addr = addr, peer_rank = 0xffff\<rparr> else None, w))"

definition dag_child_create :: "env \<Rightarrow> in6_addr \<Rightarrow> in6_addr \<Rightarrow> world \<Rightarrow> child option \<times> world" where
  "dag_child_create E addr from1 w =
     (let (ok, w) = alloc E w in
      (if ok then Some \<lparr>child_addr = addr, child_from = from1\<rparr> else None, w))"

definition dag_is_peer :: "peer option \<Rightarrow> in6_addr option \<Rightarrow> bool" where
  "dag_is_peer p addr =
     (case (p, addr) of (Some p, Some a) \<Rightarrow> peer_addr p = a | _ \<Rightarrow> False)"

definition dag_is_child :: "child option \<Rightarrow> in6_addr option \<Rightarrow> bool" where
  "dag_is_child c addr =
     (case (c, addr) of (Some c, Some a) \<Rightarrow> child_addr c = a | _ \<Rightarrow> False)"

fun dag_lookup_child :: "child list \<Rightarrow> in6_addr \<Rightarrow> nat option" where
  "dag_lookup_child [] addr = None"
| "dag_lookup_child (c # cs) addr =
     (if dag_is_child (Some c) (Some addr) then Some 0
      else map_option Suc (dag_lookup_child cs addr))"

text \<open>The returned pointer is an index into the children of the returned dag.\<close>

definition dag_lookup_child_or_create :: "env \<Rightarrow> dag \<Rightarrow> in6_addr \<Rightarrow> in6_addr \<Rightarrow> world
    \<Rightarrow> nat option \<times> dag \<times> world" where
  "dag_lookup_child_or_create E d addr from1 w =
     (case dag_lookup_child (childs d) addr of
        Some i \<Rightarrow> (Some i, d, w)
      | None \<Rightarrow> (let (c, w) = dag_child_create E addr from1 w in
          case c of
            None \<Rightarrow> (None, d, w)
          | Some c \<Rightarrow> (Some (length (childs d)), d\<lparr>childs := childs d @ [c]\<rparr>, w)))"

subsection \<open>Instances and dags\<close>

text \<open>Walking the instances reads each of them: a freed one on the way is a fault.\<close>

fun dag_lookup_rpl :: "rpl list \<Rightarrow> u8 \<Rightarrow> nat option res" where
  "dag_lookup_rpl [] iid = Inr None"
| "dag_lookup_rpl (r # rs) iid =
     (if rpl_freed r then Inl Use_after_free
      else if instance_id r = iid then Inr (Some 0)
      else bind_res (dag_lookup_rpl rs iid) (\<lambda>k. Inr (map_option Suc k)))"

fun dag_lookup_dodag :: "dag list \<Rightarrow> in6_addr \<Rightarrow> nat option" where
  "dag_lookup_dodag [] did = None"
| "dag_lookup_dodag (d # ds) did =
     (if dodagid d = did then Some 0 else map_option Suc (dag_lookup_dodag ds did))"

definition dag_lookup :: "iface \<Rightarrow> u8 \<Rightarrow> in6_addr \<Rightarrow> dag_ptr option res" where
  "dag_lookup i iid did =
     bind_res (dag_lookup_rpl (rpls i) iid) (\<lambda>r.
     case r of
       None \<Rightarrow> Inr None
     | Some r \<Rightarrow> Inr (map_option (\<lambda>d. (r, d)) (dag_lookup_dodag (dags (rpls i ! r)) did)))"

definition dag_rpl_create :: "env \<Rightarrow> u8 \<Rightarrow> world \<Rightarrow> rpl option \<times> world" where
  "dag_rpl_create E iid w =
     (let (ok, w) = alloc E w in
      (if ok then Some \<lparr>instance_id = iid, dags = [], rpl_freed = False\<rparr> else None, w))"

fun dag_lookup_daoack_from :: "dag_daoack list \<Rightarrow> u8 \<Rightarrow> nat option" where
  "dag_lookup_daoack_from [] n = None"
| "dag_lookup_daoack_from (a # as) n =
     (if ack_dsn a = n then Some 0 else map_option Suc (dag_lookup_daoack_from as n))"

definition dag_lookup_daoack :: "dag \<Rightarrow> u8 \<Rightarrow> nat option" where
  "dag_lookup_daoack d n = dag_lookup_daoack_from (pending_acks d) n"

text \<open>The new entry comes from \<open>calloc\<close> and its \<open>dsn\<close> is never assigned: it stays 0.\<close>

definition dag_daoack_insert :: "env \<Rightarrow> dag \<Rightarrow> u8 \<Rightarrow> world \<Rightarrow> int \<times> dag \<times> world" where
  "dag_daoack_insert E d n w =
     (let (ok, w) = alloc E w in
      if ok then (0, d\<lparr>pending_acks := pending_acks d @ [\<lparr>ack_dsn = 0\<rparr>]\<rparr>, w)
      else (-1, d, w))"

definition dag_init_timer :: "iface \<Rightarrow> rpl \<Rightarrow> dag \<Rightarrow> world \<Rightarrow> world" where
  "dag_init_timer i r d w =
     emit (Ev_timer_start (Trickle_w (ifindex i) (instance_id r) (dodagid d))
       (trickle_t d) (trickle_t d)) w"

text \<open>
  The dag after \<open>memset\<close> and the assignments; the argument \<open>t\<close> (\<open>trickle_t\<close> in the source)
  is not used. The pointers \<open>dag\<close>, \<open>iface\<close> and \<open>rpl\<close> of the only caller are not null.
\<close>

definition dag_init :: "iface \<Rightarrow> rpl \<Rightarrow> in6_addr \<Rightarrow> ev_tstamp \<Rightarrow> u16 \<Rightarrow> u8 \<Rightarrow> in6_prefix option
    \<Rightarrow> world \<Rightarrow> (dag \<times> world) option" where
  "dag_init i r did t rank ver dst w =
     (case dst of
        None \<Rightarrow> None
      | Some dst \<Rightarrow>
          (let d = \<lparr>version = ver, dtsn = 0, dsn = 0, dodagid = did, dest = dst, my_rank = rank,
                    parent = None, self = replicate 16 0, childs = [],
                    trickle_t = DEFAULT_TICKLE_T, pending_acks = []\<rparr>
           in Some (d, dag_init_timer i r d w)))"

text \<open>
  \<open>dag_create\<close>. When it gives up it frees the instance, also one that was found on the
  interface's list and stays linked there.
\<close>

definition free_rpl :: "iface \<Rightarrow> nat \<Rightarrow> iface" where
  "free_rpl i r = i\<lparr>rpls := (rpls i)[r := (rpls i ! r)\<lparr>rpl_freed := True\<rparr>]\<rparr>"

definition dag_create :: "env \<Rightarrow> iface \<Rightarrow> u8 \<Rightarrow> in6_addr \<Rightarrow> ev_tstamp \<Rightarrow> u16 \<Rightarrow> u8
    \<Rightarrow> in6_prefix option \<Rightarrow> world \<Rightarrow> (dag_ptr option \<times> iface \<times> world) res" where
  "dag_create E i iid did t rank ver dst w =
     bind_res (dag_lookup_rpl (rpls i) iid) (\<lambda>found.
     case found of
       None \<Rightarrow>
         (let (r, w) = dag_rpl_create E iid w in
          case r of
            None \<Rightarrow> Inr (None, i, w)
          | Some r \<Rightarrow>
              (let (ok, w) = alloc E w in
               if \<not> ok then Inr (None, i, release w)
               else case dag_init i r did t rank ver dst w of
                      None \<Rightarrow> Inr (None, i, release (release w))
                    | Some (d, w) \<Rightarrow>
                        Inr (Some (length (rpls i), 0),
                             i\<lparr>rpls := rpls i @ [r\<lparr>dags := dags r @ [d]\<rparr>]\<rparr>, w)))
     | Some k \<Rightarrow>
         (if dag_lookup_dodag (dags (rpls i ! k)) did \<noteq> None
          then Inr (None, free_rpl i k, release w)
          else
            (let (ok, w) = alloc E w in
             if \<not> ok then Inr (None, free_rpl i k, release w)
             else case dag_init i (rpls i ! k) did t rank ver dst w of
                    None \<Rightarrow> Inr (None, free_rpl i k, release (release w))
                  | Some (d, w) \<Rightarrow>
                      Inr (Some (k, length (dags (rpls i ! k))),
                           i\<lparr>rpls := (rpls i)[k := (rpls i ! k)\<lparr>dags := dags (rpls i ! k) @ [d]\<rparr>]\<rparr>,
                           w))))"

text \<open>Only the memory is given back; a dag that is freed is not unlinked.\<close>

definition dag_free :: "world \<Rightarrow> world" where
  "dag_free w = release w"

subsection \<open>Message builders\<close>

text \<open>Following \<open>dag->rpl\<close>.\<close>

definition rpl_instance :: "rpl \<Rightarrow> u8 res" where
  "rpl_instance r = (if rpl_freed r then Inl Use_after_free else Inr (instance_id r))"

definition append_destprefix :: "env \<Rightarrow> dag \<Rightarrow> safe_buffer option \<Rightarrow> world
    \<Rightarrow> (safe_buffer option \<times> world) res" where
  "append_destprefix E d sb w =
     (let len = (24 - 16 + bits_to_bytes (pfx_len (dest d)) :: u8);
          diodp = \<lparr>diodp_type = 0x3, diodp_len = len - 2, diodp_prefixlen = pfx_len (dest d),
                   diodp_prf = 0, diodp_route_lifetime = replicate 4 0xff,
                   diodp_prefix = prefix (dest d)\<rparr>
      in safe_buffer_append E sb (rpl_dio_destprefix_bytes diodp) (ucast len) w)"

text \<open>
  The eight bytes of \<open>struct icmp6_hdr\<close>, of which the first four (type, code, checksum) are
  sent.
\<close>

definition icmp6_hdr_bytes :: "u8 \<Rightarrow> u8 \<Rightarrow> bytes" where
  "icmp6_hdr_bytes typ code = [typ, code, 0, 0, 0, 0, 0, 0]"

definition dag_build_icmp :: "env \<Rightarrow> safe_buffer option \<Rightarrow> u8 \<Rightarrow> world
    \<Rightarrow> (safe_buffer option \<times> world) res" where
  "dag_build_icmp E sb code w =
     safe_buffer_append E sb (icmp6_hdr_bytes ND_RPL_MESSAGE code) (8 - 4) w"

definition dio_of_dag :: "u8 \<Rightarrow> dag \<Rightarrow> nd_rpl_dio" where
  "dio_of_dag iid d =
     \<lparr>dio_instanceid = iid, dio_version = version d, dio_dagrank = htons (my_rank d),
      dio_mopprf = ND_RPL_DIO_GROUNDED OR push_bit 3 RPL_DIO_STORING_NO_MULTICAST,
      dio_dtsn = dtsn d, dio_flags = 0, dio_resv1 = 0, dio_dagid = dodagid d\<rparr>"

definition dag_build_dio :: "env \<Rightarrow> rpl \<Rightarrow> dag \<Rightarrow> safe_buffer option \<Rightarrow> world
    \<Rightarrow> (dag \<times> safe_buffer option \<times> world) res" where
  "dag_build_dio E r d sb w =
     bind_res (dag_build_icmp E sb ND_RPL_DAG_IO w) (\<lambda>(sb, w).
     bind_res (rpl_instance r) (\<lambda>iid.
     let dio = dio_of_dag iid d; d = d\<lparr>dtsn := dtsn d + 1\<rparr> in
     bind_res (safe_buffer_append E sb (nd_rpl_dio_bytes dio) 24 w) (\<lambda>(sb, w).
     bind_res (append_destprefix E d sb w) (\<lambda>(sb, w).
     Inr (d, sb, w)))))"

definition dag_build_dao_ack :: "env \<Rightarrow> rpl \<Rightarrow> dag \<Rightarrow> safe_buffer option \<Rightarrow> world
    \<Rightarrow> (safe_buffer option \<times> world) res" where
  "dag_build_dao_ack E r d sb w =
     bind_res (dag_build_icmp E sb ND_RPL_DAO_ACK w) (\<lambda>(sb, w).
     bind_res (rpl_instance r) (\<lambda>iid.
     let dao = \<lparr>daoack_instanceid = iid, daoack_flags = RPL_DAO_K_MASK OR RPL_DAO_D_MASK,
                daoack_daoseq = dsn d, daoack_status = 0, daoack_dagid = dodagid d\<rparr> in
     safe_buffer_append E sb (nd_rpl_daoack_bytes dao) 20 w))"

definition target_of :: "in6_prefix \<Rightarrow> rpl_dao_target" where
  "target_of p = \<lparr>target_type = RPL_DAO_RPLTARGET, target_len = 18, target_flags = 0,
                  target_prefixlen = pfx_len p, target_prefix = prefix p\<rparr>"

definition append_target :: "env \<Rightarrow> in6_prefix \<Rightarrow> safe_buffer option \<Rightarrow> world
    \<Rightarrow> (safe_buffer option \<times> world) res" where
  "append_target E p sb w =
     (let len = (20 - 16 + bits_to_bytes (pfx_len p) :: u8)
      in safe_buffer_append E sb (rpl_dao_target_bytes (target_of p)) (ucast len) w)"

text \<open>The loop over the children in \<open>dag_build_dao\<close>.\<close>

fun append_child_targets :: "env \<Rightarrow> child list \<Rightarrow> safe_buffer option \<Rightarrow> world
    \<Rightarrow> (safe_buffer option \<times> world) res" where
  "append_child_targets E [] sb w = Inr (sb, w)"
| "append_child_targets E (c # cs) sb w =
     bind_res (append_target E \<lparr>prefix = child_addr c, pfx_len = 128\<rparr> sb w) (\<lambda>(sb, w).
     append_child_targets E cs sb w)"

text \<open>
  The header is appended before \<open>rpl_daoseq\<close> is assigned, so the sequence number does not
  reach the message; the assignment's effect is the increment of \<open>dsn\<close>.
\<close>

definition dao_of_dag :: "u8 \<Rightarrow> dag \<Rightarrow> nd_rpl_daoack" where
  "dao_of_dag iid d =
     \<lparr>daoack_instanceid = iid, daoack_flags = RPL_DAO_D_MASK, daoack_daoseq = 0,
      daoack_status = 0, daoack_dagid = dodagid d\<rparr>"

definition dag_build_dao :: "env \<Rightarrow> rpl \<Rightarrow> dag \<Rightarrow> safe_buffer option \<Rightarrow> world
    \<Rightarrow> (dag \<times> safe_buffer option \<times> world) res" where
  "dag_build_dao E r d sb w =
     bind_res (dag_build_icmp E sb ND_RPL_DAO w) (\<lambda>(sb, w).
     bind_res (rpl_instance r) (\<lambda>iid.
     bind_res (safe_buffer_append E sb (nd_rpl_daoack_bytes (dao_of_dag iid d)) 20 w) (\<lambda>(sb, w).
     bind_res (append_target E \<lparr>prefix = self d, pfx_len = 128\<rparr> sb w) (\<lambda>(sb, w).
     bind_res (append_child_targets E (childs d) sb w) (\<lambda>(sb, w).
     let (rc, d, w) = dag_daoack_insert E d (dsn d) w in
     Inr (d\<lparr>dsn := dsn d + 1\<rparr>, sb, w))))))"

definition dag_build_dis :: "env \<Rightarrow> safe_buffer option \<Rightarrow> world \<Rightarrow> (safe_buffer option \<times> world) res" where
  "dag_build_dis E sb w =
     bind_res (dag_build_icmp E sb ND_RPL_DAG_IS w) (\<lambda>(sb, w).
     safe_buffer_append E sb (nd_rpl_dis_bytes \<lparr>dis_flags = 0, dis_reserved = 0\<rparr>) 2 w)"

subsection \<open>The address a DIO gives the node\<close>

definition dag_process_dio :: "env \<Rightarrow> iface \<Rightarrow> dag_ptr \<Rightarrow> world \<Rightarrow> (iface \<times> world) res" where
  "dag_process_dio E i p w =
     (let d = get_dag i p in
      bind_res (gen_stateless_addr (dest d) (llinfo i)) (\<lambda>(rc, addr).
      if rc = -1 then Inr (i, w)
      else (let (rc, w) = nl_add_addr E (ifindex i) addr w in
            if rc = -1 \<and> w_errno w \<noteq> EEXIST then Inr (i, w)
            else (let (rc, w) = nl_del_route_via E (ifindex i) (dest d) None w in
                  if rc = -1 then Inr (i, w)
                  else Inr (upd_dag i p (\<lambda>d. d\<lparr>self := addr\<rparr>), w)))))"

subsection \<open>Well-formed dags and the messages about them\<close>

definition wf_child :: "child \<Rightarrow> bool" where
  "wf_child c \<longleftrightarrow> wf_addr (child_addr c) \<and> wf_addr (child_from c)"

definition wf_dag :: "dag \<Rightarrow> bool" where
  "wf_dag d \<longleftrightarrow> wf_addr (dodagid d) \<and> wf_prefix (dest d) \<and> unat (pfx_len (dest d)) \<le> 128 \<and>
     wf_addr (self d) \<and> (\<forall>c \<in> set (childs d). wf_child c) \<and> distinct (map child_addr (childs d)) \<and>
     (\<forall>p. parent d = Some p \<longrightarrow> wf_addr (peer_addr p))"

text \<open>The messages as byte sequences, and as the sequence of appends that writes them.\<close>

definition dio_chunks :: "u8 \<Rightarrow> dag \<Rightarrow> (bytes \<times> size_t) list" where
  "dio_chunks iid d =
     [(icmp6_hdr_bytes ND_RPL_MESSAGE ND_RPL_DAG_IO, 4), (nd_rpl_dio_bytes (dio_of_dag iid d), 24),
      (rpl_dio_destprefix_bytes \<lparr>diodp_type = 3, diodp_len = 24 - 16 + bits_to_bytes (pfx_len (dest d)) - 2,
         diodp_prefixlen = pfx_len (dest d), diodp_prf = 0, diodp_route_lifetime = replicate 4 0xff,
         diodp_prefix = prefix (dest d)\<rparr>,
       ucast (24 - 16 + bits_to_bytes (pfx_len (dest d)) :: u8))]"

definition target_chunk :: "in6_addr \<Rightarrow> bytes \<times> size_t" where
  "target_chunk a = (rpl_dao_target_bytes (target_of \<lparr>prefix = a, pfx_len = 128\<rparr>), 20)"

definition dao_chunks :: "u8 \<Rightarrow> dag \<Rightarrow> (bytes \<times> size_t) list" where
  "dao_chunks iid d =
     [(icmp6_hdr_bytes ND_RPL_MESSAGE ND_RPL_DAO, 4), (nd_rpl_daoack_bytes (dao_of_dag iid d), 20)] @
     map target_chunk (self d # map child_addr (childs d))"

definition target_bytes :: "in6_addr \<Rightarrow> bytes" where
  "target_bytes a = [RPL_DAO_RPLTARGET, 18, 0, 128] @ a"

definition dio_message :: "u8 \<Rightarrow> dag \<Rightarrow> bytes" where
  "dio_message iid d =
     [ND_RPL_MESSAGE, ND_RPL_DAG_IO, 0, 0] @ nd_rpl_dio_bytes (dio_of_dag iid d) @
     [3, 6 + bits_to_bytes (pfx_len (dest d)), pfx_len (dest d), 0, 0xff, 0xff, 0xff, 0xff] @
     take (unat (bits_to_bytes (pfx_len (dest d)))) (prefix (dest d))"

definition dao_message :: "u8 \<Rightarrow> dag \<Rightarrow> bytes" where
  "dao_message iid d =
     [ND_RPL_MESSAGE, ND_RPL_DAO, 0, 0] @ nd_rpl_daoack_bytes (dao_of_dag iid d) @
     concat (map target_bytes (self d # map child_addr (childs d)))"

definition dao_ack_of_dag :: "u8 \<Rightarrow> dag \<Rightarrow> nd_rpl_daoack" where
  "dao_ack_of_dag iid d =
     \<lparr>daoack_instanceid = iid, daoack_flags = RPL_DAO_K_MASK OR RPL_DAO_D_MASK,
      daoack_daoseq = dsn d, daoack_status = 0, daoack_dagid = dodagid d\<rparr>"

definition dao_ack_message :: "u8 \<Rightarrow> dag \<Rightarrow> bytes" where
  "dao_ack_message iid d = [ND_RPL_MESSAGE, ND_RPL_DAO_ACK, 0, 0] @ nd_rpl_daoack_bytes (dao_ack_of_dag iid d)"

definition dis_message :: bytes where
  "dis_message = [ND_RPL_MESSAGE, ND_RPL_DAG_IS, 0, 0, 0, 0]"

subsection \<open>The searches are keyed lists\<close>

interpretation child_list: keyed_list "\<lambda>cs a. Inr (dag_lookup_child cs a)" child_addr "\<lambda>_. True"
  by unfold_locales (simp_all add: dag_is_child_def)

interpretation rpl_list: keyed_list dag_lookup_rpl instance_id "\<lambda>r. \<not> rpl_freed r"
  by unfold_locales simp_all

interpretation dag_list: keyed_list "\<lambda>ds a. Inr (dag_lookup_dodag ds a)" dodagid "\<lambda>_. True"
  by unfold_locales simp_all

interpretation ack_list: keyed_list "\<lambda>as n. Inr (dag_lookup_daoack_from as n)" ack_dsn "\<lambda>_. True"
  by unfold_locales simp_all

subsection \<open>The builders write the messages\<close>

lemma append_target_128:
  "append_target E \<lparr>prefix = a, pfx_len = 128\<rparr> sb w =
   append_chunks (safe_buffer_append E) sb [target_chunk a] w"
  by (simp add: append_target_def target_chunk_def bind_res_def split_def split: sum.splits)

lemma append_child_targets_chunks:
  "append_child_targets E cs sb w =
   append_chunks (safe_buffer_append E) sb (map target_chunk (map child_addr cs)) w"
  by (induction E cs sb w rule: append_child_targets.induct)
    (simp_all add: append_target_128 split_def target_chunk_def bind_res_assoc)

lemma dag_build_dio_chunks:
  "\<not> rpl_freed r \<Longrightarrow> dag_build_dio E r d sb w =
   bind_res (append_chunks (safe_buffer_append E) sb (dio_chunks (instance_id r) d) w)
     (\<lambda>(sb, w). Inr (d\<lparr>dtsn := dtsn d + 1\<rparr>, sb, w))"
  by (simp add: dag_build_dio_def dag_build_icmp_def rpl_instance_def dio_chunks_def
      append_destprefix_def Let_def bind_res_assoc split_def)

lemma dag_build_dao_chunks:
  "\<not> rpl_freed r \<Longrightarrow> dag_build_dao E r d sb w =
   bind_res (append_chunks (safe_buffer_append E) sb (dao_chunks (instance_id r) d) w)
     (\<lambda>(sb, w). let (rc, d, w) = dag_daoack_insert E d (dsn d) w in Inr (d\<lparr>dsn := dsn d + 1\<rparr>, sb, w))"
  by (simp add: dag_build_dao_def dag_build_icmp_def rpl_instance_def dao_chunks_def
      append_target_128 append_child_targets_chunks target_chunk_def Let_def bind_res_assoc split_def append_chunks_append)

lemma take_8_plus:
  "take (8 + n) (a # b # c # d # e # f # g # h # xs) = a # b # c # d # e # f # g # h # take n xs"
  using take_append [of "8 + n" "[a, b, c, d, e, f, g, h]" xs] by simp

lemma replicate_4: "replicate 4 x = [x, x, x, x]"
  by (simp add: numeral_eq_Suc)

lemma unat_destprefix_len:
  "unat (ucast (8 + bits_to_bytes b :: u8) :: size_t) = 8 + unat (bits_to_bytes b)"
proof -
  have "unat (8 + bits_to_bytes b) = 8 + unat (bits_to_bytes b)"
    using bits_to_bytes_le_32 [of b] by (simp add: unat_word_ariths)
  then show ?thesis by (simp add: unat_ucast_u8)
qed

lemma dio_of_dag_wf: "wf_dag d \<Longrightarrow> wf_dio (dio_of_dag iid d)"
  by (simp add: wf_dag_def wf_dio_def dio_of_dag_def)

lemma dao_of_dag_wf: "wf_dag d \<Longrightarrow> wf_daoack (dao_of_dag iid d)"
  by (simp add: wf_dag_def wf_daoack_def dao_of_dag_def)

lemma dio_chunks_message:
  assumes "wf_dag d"
  shows "chunks_ok (dio_chunks iid d)" "chunk_bytes (dio_chunks iid d) = dio_message iid d"
    "length (dio_message iid d) = 36 + unat (bits_to_bytes (pfx_len (dest d)))"
  using assms dio.length_enc [OF dio_of_dag_wf [OF assms, of iid]] ceil8_le_16 [of "pfx_len (dest d)"]
  by (simp_all add: dio_chunks_def dio_message_def icmp6_hdr_bytes_def unat_destprefix_len
      rpl_dio_destprefix_bytes_def wf_dag_def wf_prefix_def wf_addr_def replicate_4 take_8_plus)

lemma target_chunk_simps:
  "wf_addr a \<Longrightarrow> chunks_ok (target_chunk a # cs) = chunks_ok cs"
  "wf_addr a \<Longrightarrow> chunk_bytes (target_chunk a # cs) = target_bytes a @ chunk_bytes cs"
  by (simp_all add: target_chunk_def rpl_dao_target_bytes_def target_of_def target_bytes_def wf_addr_def)

lemma target_chunks:
  "\<forall>a \<in> set as. wf_addr a \<Longrightarrow> chunks_ok (map target_chunk as) \<and>
   chunk_bytes (map target_chunk as) = concat (map target_bytes as) \<and>
   length (concat (map target_bytes as)) = 20 * length as"
  by (induction as) (auto simp: target_chunk_simps target_bytes_def wf_addr_def)

lemma dao_chunks_message:
  assumes "wf_dag d"
  shows "chunks_ok (dao_chunks iid d)" "chunk_bytes (dao_chunks iid d) = dao_message iid d"
    "length (dao_message iid d) = 44 + 20 * length (childs d)"
proof -
  have "\<forall>a \<in> set (self d # map child_addr (childs d)). wf_addr a"
    using assms by (auto simp: wf_dag_def wf_child_def)
  from target_chunks [OF this] show "chunks_ok (dao_chunks iid d)" "chunk_bytes (dao_chunks iid d) = dao_message iid d"
    "length (dao_message iid d) = 44 + 20 * length (childs d)"
    using daoack.length_enc [OF dao_of_dag_wf [OF assms, of iid]]
    by (simp_all add: dao_chunks_def dao_message_def icmp6_hdr_bytes_def)
qed

lemma dag_build_dao_ack_chunks:
  "\<not> rpl_freed r \<Longrightarrow> dag_build_dao_ack E r d sb w =
   append_chunks (safe_buffer_append E) sb
     [(icmp6_hdr_bytes ND_RPL_MESSAGE ND_RPL_DAO_ACK, 4),
      (nd_rpl_daoack_bytes (dao_ack_of_dag (instance_id r) d), 20)] w"
  by (simp add: dag_build_dao_ack_def dag_build_icmp_def rpl_instance_def dao_ack_of_dag_def Let_def split_def)
     (simp add: bind_res_def split: sum.splits)

lemma dag_build_dis_chunks:
  "dag_build_dis E sb w = append_chunks (safe_buffer_append E) sb
     [(icmp6_hdr_bytes ND_RPL_MESSAGE ND_RPL_DAG_IS, 4), (nd_rpl_dis_bytes \<lparr>dis_flags = 0, dis_reserved = 0\<rparr>, 2)] w"
  by (simp add: dag_build_dis_def dag_build_icmp_def Let_def split_def)
     (simp add: bind_res_def split: sum.splits)

lemma dao_ack_chunks_message:
  assumes "wf_addr (dodagid d)"
  shows "chunks_ok [(icmp6_hdr_bytes ND_RPL_MESSAGE ND_RPL_DAO_ACK, 4), (nd_rpl_daoack_bytes (dao_ack_of_dag iid d), 20)]"
   "chunk_bytes [(icmp6_hdr_bytes ND_RPL_MESSAGE ND_RPL_DAO_ACK, 4), (nd_rpl_daoack_bytes (dao_ack_of_dag iid d), 20)]
     = dao_ack_message iid d"
proof -
  have "length (nd_rpl_daoack_bytes (dao_ack_of_dag iid d)) = 20"
    using assms by (intro daoack.length_enc) (simp add: dao_ack_of_dag_def wf_daoack_def)
  then show "chunks_ok [(icmp6_hdr_bytes ND_RPL_MESSAGE ND_RPL_DAO_ACK, 4), (nd_rpl_daoack_bytes (dao_ack_of_dag iid d), 20)]"
   "chunk_bytes [(icmp6_hdr_bytes ND_RPL_MESSAGE ND_RPL_DAO_ACK, 4), (nd_rpl_daoack_bytes (dao_ack_of_dag iid d), 20)]
     = dao_ack_message iid d"
    by (simp_all add: icmp6_hdr_bytes_def dao_ack_message_def)
qed

end
