(* ===== verification/Send.thy ===== *)
theory Send
  imports Dag
begin

section \<open>send.c: sending the RPL messages\<close>

text \<open>
  Each \<open>send_*\<close> function makes a fresh buffer, lets \<open>dag.c\<close> build the message into it and
  hands it to \<open>really_send\<close>. One \<open>sendmsg\<close> is one event of the trace, with the destination,
  the interface and source address of the control message and the payload. The scope id is
  only set when \<open>HAVE_SIN6_SCOPE_ID\<close> is defined, which the build does not do. The result
  of \<open>sendmsg\<close> is only logged.
\<close>

definition IPPROTO_ICMPV6 :: u16 where "IPPROTO_ICMPV6 = 58"

definition icmp_call :: "iface \<Rightarrow> in6_addr \<Rightarrow> in6_addr \<Rightarrow> bytes \<Rightarrow> sendmsg_call" where
  "icmp_call i src dst payload =
     \<lparr>sm_family = ucast AF_INET6, sm_port = htons IPPROTO_ICMPV6, sm_dest = dst,
      sm_ifindex = ifindex i, sm_src = src, sm_payload = payload\<rparr>"

definition really_send :: "env \<Rightarrow> iface \<Rightarrow> in6_addr \<Rightarrow> safe_buffer option \<Rightarrow> world \<Rightarrow> (int \<times> world) res" where
  "really_send E i dst sb w =
     (case sb of
        None \<Rightarrow> Inl Null_deref
      | Some b \<Rightarrow>
          (case ifaddr_src i of
             None \<Rightarrow> Inl Null_deref
           | Some src \<Rightarrow>
               (let w = emit (Sendmsg (icmp_call i src dst (sb_contents sb))) w;
                    rc = sendmsg_rc E (w_trace w);
                    w = (if rc < 0 then w\<lparr>w_errno := sys_errno E (w_trace w)\<rparr> else w);
                    w = safe_buffer_free b w
                in Inr (rc, w))))"

text \<open>
  \<open>send_dio\<close> and \<open>send_dao\<close> change the dag they are given a pointer to; the model takes the
  interface and that pointer. The tests of the result of \<open>safe_buffer_new\<close> for \<open>NULL\<close> are
  kept, although \<open>safe_buffer_new\<close> never returns it.
\<close>

definition send_dio :: "env \<Rightarrow> iface \<Rightarrow> dag_ptr \<Rightarrow> world \<Rightarrow> (iface \<times> world) res" where
  "send_dio E i p w =
     bind_res (safe_buffer_new E w) (\<lambda>(sb, w).
     if sb = None then Inr (i, w) else
     bind_res (dag_build_dio E (rpls i ! fst p) (get_dag i p) sb w) (\<lambda>(d, sb, w).
     let i = upd_dag i p (\<lambda>_. d) in
     bind_res (really_send E i all_rpl_addr sb w) (\<lambda>(rc, w). Inr (i, w))))"

definition send_dao :: "env \<Rightarrow> iface \<Rightarrow> in6_addr \<Rightarrow> dag_ptr \<Rightarrow> world \<Rightarrow> (iface \<times> world) res" where
  "send_dao E i to p w =
     bind_res (safe_buffer_new E w) (\<lambda>(sb, w).
     if sb = None then Inr (i, w) else
     bind_res (dag_build_dao E (rpls i ! fst p) (get_dag i p) sb w) (\<lambda>(d, sb, w).
     let i = upd_dag i p (\<lambda>_. d) in
     bind_res (really_send E i to sb w) (\<lambda>(rc, w). Inr (i, w))))"

definition send_dao_ack :: "env \<Rightarrow> iface \<Rightarrow> in6_addr \<Rightarrow> dag_ptr \<Rightarrow> world \<Rightarrow> (iface \<times> world) res" where
  "send_dao_ack E i to p w =
     bind_res (safe_buffer_new E w) (\<lambda>(sb, w).
     if sb = None then Inr (i, w) else
     bind_res (dag_build_dao_ack E (rpls i ! fst p) (get_dag i p) sb w) (\<lambda>(sb, w).
     bind_res (really_send E i to sb w) (\<lambda>(rc, w). Inr (i, w))))"

definition send_dis :: "env \<Rightarrow> iface \<Rightarrow> world \<Rightarrow> (iface \<times> world) res" where
  "send_dis E i w =
     bind_res (safe_buffer_new E w) (\<lambda>(sb, w).
     if sb = None then Inr (i, w) else
     bind_res (dag_build_dis E sb w) (\<lambda>(sb, w).
     bind_res (really_send E i all_rpl_addr sb w) (\<lambda>(rc, w). Inr (i, w))))"

text \<open>What sending a DAO does to the dag: one more pending acknowledgement, if there is memory for it.\<close>

definition dao_sent :: "env \<Rightarrow> dag \<Rightarrow> dag \<Rightarrow> bool" where
  "dao_sent E d d' \<longleftrightarrow>
     d' = d\<lparr>dsn := dsn d + 1\<rparr> \<and> \<not> memory_available E \<or>
     d' = d\<lparr>pending_acks := pending_acks d @ [\<lparr>ack_dsn = 0\<rparr>], dsn := dsn d + 1\<rparr>"

subsection \<open>What is sent\<close>

lemma really_send_Inr:
  assumes "sb_inv sb" "ifaddr_src i = Some src"
  shows "\<exists>rc w'. really_send E i dst sb w = Inr (rc, w') \<and>
    w_trace w' = w_trace w @ [Sendmsg (icmp_call i src dst (sb_contents sb))] \<and>
    w_live w' = w_live w - sb_blocks sb"
  using assms
  by (auto simp: really_send_def icmp_call_def sb_inv_def sb_blocks_def safe_buffer_free_def Let_def
      split: option.splits)

lemma send_dio_InrD:
  assumes ok: "send_dio E i p w = Inr (i', w')" and wf: "wf_dag (get_dag i p)"
    and live: "\<not> rpl_freed (rpls i ! fst p)" and src: "ifaddr_src i = Some src"
  shows "i' = upd_dag i p (\<lambda>d. d\<lparr>dtsn := dtsn d + 1\<rparr>) \<and> w_live w' = w_live w \<and>
    w_trace w' = w_trace w @ [Sendmsg (icmp_call i src all_rpl_addr
       (dio_message (instance_id (rpls i ! fst p)) (get_dag i p)))]"
proof -
  let ?iid = "instance_id (rpls i ! fst p)" and ?d = "get_dag i p"
  let ?i = "upd_dag i p (\<lambda>d. d\<lparr>dtsn := dtsn d + 1\<rparr>)"
  obtain sb0 w0 sb1 w1 rc where n: "safe_buffer_new E w = Inr (sb0, w0)"
    and b: "append_chunks (safe_buffer_append E) sb0 (dio_chunks ?iid ?d) w0 = Inr (sb1, w1)"
    and s: "really_send E ?i all_rpl_addr sb1 w1 = Inr (rc, w')" and i': "i' = ?i"
    using ok upd_dag_const [of i p "\<lambda>d. d\<lparr>dtsn := dtsn d + 1\<rparr>"] safe_buffer_new_InrD [of E w]
    by (auto simp: send_dio_def dag_build_dio_chunks [OF live] bind_res_Inr_iff Let_def)
  show ?thesis
    using fresh_chunks_InrD [OF n b dio_chunks_message(1) [OF wf]] i' s src
      really_send_Inr [of sb1 ?i src E all_rpl_addr w1] dio_chunks_message(2) [OF wf]
    by (auto simp: same_io_def icmp_call_def)
qed

lemma send_dio_fits:
  assumes "memory_available E" "wf_dag (get_dag i p)" "\<not> rpl_freed (rpls i ! fst p)"
    "ifaddr_src i = Some src"
  shows "\<exists>i' w'. send_dio E i p w = Inr (i', w')"
proof -
  let ?cs = "dio_chunks (instance_id (rpls i ! fst p)) (get_dag i p)"
  have "length (chunk_bytes ?cs) \<le> 64 * 1024"
    using dio_chunks_message(2,3) [OF assms(2)] bits_to_bytes_le_32 [of "pfx_len (dest (get_dag i p))"] by simp
  then obtain sb0 w0 sb1 w1 where "safe_buffer_new E w = Inr (sb0, w0)" "sb0 \<noteq> None"
      "append_chunks (safe_buffer_append E) sb0 ?cs w0 = Inr (sb1, w1)" "sb_inv sb1"
    using fresh_chunks_fit [OF assms(1) dio_chunks_message(1) [OF assms(2)]] by blast
  then show ?thesis
    using really_send_Inr [of sb1 "upd_dag i p (\<lambda>_. (get_dag i p)\<lparr>dtsn := dtsn (get_dag i p) + 1\<rparr>)" src E
        all_rpl_addr w1] assms(4)
    by (auto simp: send_dio_def dag_build_dio_chunks [OF assms(3)] Let_def)
qed

lemma dag_daoack_insert_cases:
  "dag_daoack_insert E d n w = (rc, d', w') \<Longrightarrow>
   dao_sent E d (d'\<lparr>dsn := dsn d' + 1\<rparr>) \<and> same_io w w' \<and>
   w_live w' = w_live w + (int (length (pending_acks d')) - int (length (pending_acks d)))"
  by (auto simp: dag_daoack_insert_def alloc_def dao_sent_def memory_available_def same_io_def Let_def
      split: if_splits)

lemma send_dao_InrD:
  assumes ok: "send_dao E i to p w = Inr (i', w')" and wf: "wf_dag (get_dag i p)"
    and live: "\<not> rpl_freed (rpls i ! fst p)" and src: "ifaddr_src i = Some src"
  shows "\<exists>d'. dao_sent E (get_dag i p) d' \<and> i' = upd_dag i p (\<lambda>_. d') \<and>
    w_live w' = w_live w + (int (length (pending_acks d')) - int (length (pending_acks (get_dag i p)))) \<and>
    w_trace w' = w_trace w @ [Sendmsg (icmp_call i src to
       (dao_message (instance_id (rpls i ! fst p)) (get_dag i p)))]"
proof -
  let ?iid = "instance_id (rpls i ! fst p)" and ?d = "get_dag i p"
  obtain sb0 w0 sb1 w1 where n: "safe_buffer_new E w = Inr (sb0, w0)"
    and b: "append_chunks (safe_buffer_append E) sb0 (dao_chunks ?iid ?d) w0 = Inr (sb1, w1)"
    and r: "bind_res (let (rc, d, w) = dag_daoack_insert E ?d (dsn ?d) w1
        in Inr (d\<lparr>dsn := dsn d + 1\<rparr>, sb1, w)) (\<lambda>(d, sb, w).
          bind_res (really_send E (upd_dag i p (\<lambda>_. d)) to sb w)
            (\<lambda>(rc, w). Inr (upd_dag i p (\<lambda>_. d), w))) = Inr (i', w')"
    using ok safe_buffer_new_InrD [of E w]
    by (auto simp: send_dao_def dag_build_dao_chunks [OF live] Let_def bind_res_assoc
        elim!: bind_resE)
  obtain c d' w2 where a: "dag_daoack_insert E ?d (dsn ?d) w1 = (c, d', w2)"
    by (metis prod_cases3)
  with r obtain rc where s: "really_send E (upd_dag i p (\<lambda>_. d'\<lparr>dsn := dsn d' + 1\<rparr>)) to sb1 w2 = Inr (rc, w')"
    and i': "i' = upd_dag i p (\<lambda>_. d'\<lparr>dsn := dsn d' + 1\<rparr>)"
    by (auto elim!: bind_resE)
  show ?thesis
    using fresh_chunks_InrD [OF n b dao_chunks_message(1) [OF wf]] i' s src dag_daoack_insert_cases [OF a]
      really_send_Inr [of sb1 "upd_dag i p (\<lambda>_. d'\<lparr>dsn := dsn d' + 1\<rparr>)" src E to w2]
      dao_chunks_message(2) [OF wf]
    by (intro exI [of _ "d'\<lparr>dsn := dsn d' + 1\<rparr>"]) (auto simp: same_io_def icmp_call_def dao_sent_def)
qed

lemma send_dao_fits:
  assumes "memory_available E" "wf_dag (get_dag i p)" "\<not> rpl_freed (rpls i ! fst p)"
    "ifaddr_src i = Some src" "44 + 20 * length (childs (get_dag i p)) \<le> 64 * 1024"
  shows "\<exists>i' w'. send_dao E i to p w = Inr (i', w')"
proof -
  let ?cs = "dao_chunks (instance_id (rpls i ! fst p)) (get_dag i p)"
  have "length (chunk_bytes ?cs) \<le> 64 * 1024"
    using dao_chunks_message(2,3) [OF assms(2)] assms(5) by simp
  then obtain sb0 w0 sb1 w1 where b: "safe_buffer_new E w = Inr (sb0, w0)" "sb0 \<noteq> None"
      "append_chunks (safe_buffer_append E) sb0 ?cs w0 = Inr (sb1, w1)" "sb_inv sb1"
    using fresh_chunks_fit [OF assms(1) dao_chunks_message(1) [OF assms(2)]] by blast
  obtain c d' w2 where "dag_daoack_insert E (get_dag i p) (dsn (get_dag i p)) w1 = (c, d', w2)"
    by (metis prod_cases3)
  with b show ?thesis
    using really_send_Inr [of sb1 "upd_dag i p (\<lambda>_. d'\<lparr>dsn := dsn d' + 1\<rparr>)" src E to w2] assms(4)
    by (auto simp: send_dao_def dag_build_dao_chunks [OF assms(3)] Let_def)
qed

text \<open>What does not fit ends the program while the message is built.\<close>

lemma send_dao_overflow:
  assumes "memory_available E" "wf_dag (get_dag i p)" "\<not> rpl_freed (rpls i ! fst p)"
    "64 * 1024 < 44 + 20 * length (childs (get_dag i p))"
  shows "send_dao E i to p w = Inl (Exit 1)"
proof -
  let ?cs = "dao_chunks (instance_id (rpls i ! fst p)) (get_dag i p)"
  have big: "64 * 1024 < length (chunk_bytes ?cs)"
    using dao_chunks_message(2,3) [OF assms(2)] assms(4) by simp
  obtain sb0 w0 where n: "safe_buffer_new E w = Inr (sb0, w0)" using safe_buffer_new_fits [OF assms(1)] by blast
  have b: "append_chunks (safe_buffer_append E) sb0 ?cs w0 = Inl (Exit 1)"
    using safe_buffer_new_InrD [OF n] big
    by (intro sb.chunks_exit [OF _ dao_chunks_message(1) [OF assms(2)] _ _ assms(1)]) auto
  show ?thesis using n b safe_buffer_new_InrD [OF n]
    by (simp add: send_dao_def dag_build_dao_chunks [OF assms(3)])
qed

lemma send_dao_ack_InrD:
  assumes ok: "send_dao_ack E i to p w = Inr (i', w')" and wf: "wf_addr (dodagid (get_dag i p))"
    and live: "\<not> rpl_freed (rpls i ! fst p)" and src: "ifaddr_src i = Some src"
  shows "i' = i \<and> w_live w' = w_live w \<and>
    w_trace w' = w_trace w @ [Sendmsg (icmp_call i src to
       (dao_ack_message (instance_id (rpls i ! fst p)) (get_dag i p)))]"
proof -
  let ?m = "nd_rpl_daoack_bytes (dao_ack_of_dag (instance_id (rpls i ! fst p)) (get_dag i p))"
  obtain sb0 w0 sb1 w1 rc where n: "safe_buffer_new E w = Inr (sb0, w0)"
    and b: "append_chunks (safe_buffer_append E) sb0
        [(icmp6_hdr_bytes ND_RPL_MESSAGE ND_RPL_DAO_ACK, 4), (?m, 20)] w0 = Inr (sb1, w1)"
    and s: "really_send E i to sb1 w1 = Inr (rc, w')" and i': "i' = i"
    using ok safe_buffer_new_InrD [of E w]
    unfolding send_dao_ack_def dag_build_dao_ack_chunks [OF live] by (auto elim!: bind_resE)
  show ?thesis
    using fresh_chunks_InrD [OF n b dao_ack_chunks_message(1) [OF wf]] i' s
      really_send_Inr [OF _ src, of sb1 E to w1] dao_ack_chunks_message(2) [OF wf]
    by (auto simp: same_io_def)
qed

lemma send_dao_ack_fits:
  assumes "memory_available E" "wf_addr (dodagid (get_dag i p))" "\<not> rpl_freed (rpls i ! fst p)"
    "ifaddr_src i = Some src"
  shows "\<exists>i' w'. send_dao_ack E i to p w = Inr (i', w')"
proof -
  let ?m = "nd_rpl_daoack_bytes (dao_ack_of_dag (instance_id (rpls i ! fst p)) (get_dag i p))"
  let ?cs = "[(icmp6_hdr_bytes ND_RPL_MESSAGE ND_RPL_DAO_ACK, 4 :: size_t), (?m, 20)]"
  have "length (chunk_bytes ?cs) \<le> 64 * 1024" by (simp add: icmp6_hdr_bytes_def)
  then obtain sb0 w0 sb1 w1 where b: "safe_buffer_new E w = Inr (sb0, w0)" "sb0 \<noteq> None"
      "append_chunks (safe_buffer_append E) sb0 ?cs w0 = Inr (sb1, w1)" "sb_inv sb1"
    using fresh_chunks_fit [OF assms(1) dao_ack_chunks_message(1) [OF assms(2)]] by blast
  then show ?thesis
    using really_send_Inr [OF _ assms(4), of sb1 E to w1]
    unfolding send_dao_ack_def dag_build_dao_ack_chunks [OF assms(3)] by (auto simp del: append_chunks.simps)
qed

lemma send_dis_Inr:
  assumes src: "ifaddr_src i = Some src"
  shows "send_dis E i w = Inr (i', w') \<Longrightarrow> i' = i \<and> w_live w' = w_live w \<and>
      w_trace w' = w_trace w @ [Sendmsg (icmp_call i src all_rpl_addr dis_message)]"
    and "memory_available E \<Longrightarrow> \<exists>w'. send_dis E i w = Inr (i, w')"
proof -
  let ?cs = "[(icmp6_hdr_bytes ND_RPL_MESSAGE ND_RPL_DAG_IS, 4 :: size_t),
      (nd_rpl_dis_bytes \<lparr>dis_flags = 0, dis_reserved = 0\<rparr>, 2)]"
  have cs: "chunks_ok ?cs" "chunk_bytes ?cs = dis_message"
    by (simp_all add: icmp6_hdr_bytes_def nd_rpl_dis_bytes_def dis_message_def)
  show "i' = i \<and> w_live w' = w_live w \<and>
      w_trace w' = w_trace w @ [Sendmsg (icmp_call i src all_rpl_addr dis_message)]"
    if ok: "send_dis E i w = Inr (i', w')"
  proof -
    obtain sb0 w0 sb1 w1 rc where n: "safe_buffer_new E w = Inr (sb0, w0)"
      and b: "append_chunks (safe_buffer_append E) sb0 ?cs w0 = Inr (sb1, w1)"
      and s: "really_send E i all_rpl_addr sb1 w1 = Inr (rc, w')" and i': "i' = i"
      using ok safe_buffer_new_InrD [of E w]
      unfolding send_dis_def dag_build_dis_chunks by (auto elim!: bind_resE)
    show ?thesis
      using fresh_chunks_InrD [OF n b cs(1)] i' s really_send_Inr [OF _ src, of sb1 E all_rpl_addr w1] cs(2)
      by (auto simp: same_io_def)
  qed
  show "\<exists>w'. send_dis E i w = Inr (i, w')" if mem: "memory_available E"
  proof -
    have "length (chunk_bytes ?cs) \<le> 64 * 1024" by (simp only: cs(2)) (simp add: dis_message_def)
    then obtain sb0 w0 sb1 w1 where "safe_buffer_new E w = Inr (sb0, w0)" "sb0 \<noteq> None"
        "append_chunks (safe_buffer_append E) sb0 ?cs w0 = Inr (sb1, w1)" "sb_inv sb1"
      using fresh_chunks_fit [OF mem cs(1)] by blast
    then show ?thesis
      using really_send_Inr [OF _ src, of sb1 E all_rpl_addr w1]
      unfolding send_dis_def dag_build_dis_chunks by (auto simp del: append_chunks.simps)
  qed
qed

end
