(* ===== verification/Dag_Table.thy ===== *)
theory Dag_Table
  imports Dag
begin

section \<open>The dags of an interface as a table\<close>

text \<open>
  The two-level list of an interface (instances, dags of an instance) is a table of dags
  keyed by instance and DODAG id, as long as the keys are unique and no freed instance is on
  the list (\<open>keys_inv\<close>). The locale \<open>dag_store\<close> is the contract the message handlers rely
  on: what a lookup finds and what an update through a dag pointer does to the table. It is
  interpreted on \<open>dag_lookup\<close> and \<open>upd_dag\<close>, and \<open>dag_create_Inr\<close> says that \<open>dag_create\<close>
  adds one fresh entry.
\<close>

subsection \<open>Invariant and abstraction\<close>

definition keys_inv :: "iface \<Rightarrow> bool" where
  "keys_inv i \<longleftrightarrow> distinct (map instance_id (rpls i)) \<and>
     (\<forall>r \<in> set (rpls i). \<not> rpl_freed r \<and> distinct (map dodagid (dags r)))"

definition dag_key :: "iface \<Rightarrow> dag_ptr \<Rightarrow> u8 \<times> in6_addr" where
  "dag_key i p = (instance_id (rpls i ! fst p), dodagid (get_dag i p))"

definition lookup_key :: "iface \<Rightarrow> u8 \<times> in6_addr \<Rightarrow> dag_ptr option res" where
  "lookup_key i k = dag_lookup i (fst k) (snd k)"

definition dag_table :: "iface \<Rightarrow> u8 \<times> in6_addr \<Rightarrow> dag option" where
  "dag_table i k = (case lookup_key i k of Inr (Some p) \<Rightarrow> Some (get_dag i p) | _ \<Rightarrow> None)"

text \<open>A dag as \<open>dag_init\<close> leaves it.\<close>

definition fresh_dag :: "in6_addr \<Rightarrow> u16 \<Rightarrow> u8 \<Rightarrow> in6_prefix \<Rightarrow> dag" where
  "fresh_dag did rank ver dst =
     \<lparr>version = ver, dtsn = 0, dsn = 0, dodagid = did, dest = dst, my_rank = rank,
      parent = None, self = replicate 16 0, childs = [],
      trickle_t = DEFAULT_TICKLE_T, pending_acks = []\<rparr>"

subsection \<open>Searching for a dag\<close>

lemma dag_lookup_index:
  assumes "keys_inv i"
  shows "dag_lookup i iid did = Inr (case index_of instance_id (rpls i) iid of None \<Rightarrow> None
    | Some r \<Rightarrow> map_option (Pair r) (index_of dodagid (dags (rpls i ! r)) did))"
proof -
  have "dag_lookup_rpl (rpls i) iid = Inr (index_of instance_id (rpls i) iid)"
    using assms by (intro rpl_list.lookup_live) (simp add: keys_inv_def)
  moreover have "dag_lookup_dodag ds did = index_of dodagid ds did" for ds
    using dag_list.lookup_live [of ds did] by simp
  ultimately show ?thesis by (simp add: dag_lookup_def split: option.splits)
qed

lemma dag_lookup_SomeD:
  assumes "keys_inv i" "dag_lookup i iid did = Inr (Some p)"
  shows "valid_dag i p \<and> dag_key i p = (iid, did)"
proof -
  from assms obtain r d where "p = (r, d)" "index_of instance_id (rpls i) iid = Some r"
      "index_of dodagid (dags (rpls i ! r)) did = Some d"
    by (auto simp: dag_lookup_index split: option.splits)
  then show ?thesis
    using index_of_SomeD [of instance_id "rpls i" iid r] index_of_SomeD [of dodagid "dags (rpls i ! r)" did d]
    by (simp add: valid_dag_def dag_key_def get_dag_def)
qed

lemma dag_lookup_key:
  assumes "keys_inv i" "valid_dag i p"
  shows "lookup_key i (dag_key i p) = Inr (Some p)"
proof -
  have "index_of instance_id (rpls i) (instance_id (rpls i ! fst p)) = Some (fst p)"
    using assms by (intro index_of_unique) (auto simp: keys_inv_def valid_dag_def)
  moreover have "index_of dodagid (dags (rpls i ! fst p)) (dodagid (get_dag i p)) = Some (snd p)"
    unfolding get_dag_def using assms by (intro index_of_unique) (auto simp: keys_inv_def valid_dag_def)
  ultimately show ?thesis using assms(1)
    by (simp add: lookup_key_def dag_key_def dag_lookup_index)
qed

lemma lookup_key_iff:
  "keys_inv i \<Longrightarrow> lookup_key i k = Inr (Some p) \<longleftrightarrow> valid_dag i p \<and> dag_key i p = k"
  using dag_lookup_SomeD [of i "fst k" "snd k" p] dag_lookup_key [of i p]
  by (auto simp: lookup_key_def)

lemma lookup_key_no_fault: "keys_inv i \<Longrightarrow> \<exists>r. lookup_key i k = Inr r"
  by (simp add: lookup_key_def dag_lookup_index)

subsection \<open>Updates through a dag pointer\<close>

lemma keys_inv_upd:
  assumes "keys_inv i" "dodagid (f (get_dag i p)) = dodagid (get_dag i p)"
  shows "keys_inv (upd_dag i p f)"
proof -
  let ?r = "rpls i ! fst p"
  have 1: "map instance_id ((rpls i)[fst p := ?r\<lparr>dags := ds\<rparr>]) = map instance_id (rpls i)" for ds
    by (rule map_key_update) simp
  have 2: "map dodagid ((dags ?r)[snd p := f (get_dag i p)]) = map dodagid (dags ?r)"
    using assms(2) by (intro map_key_update) (simp add: get_dag_def)
  show ?thesis
  proof (cases "fst p < length (rpls i)")
    case True
    then have "?r \<in> set (rpls i)" by simp
    with assms(1) show ?thesis
      unfolding keys_inv_def upd_dag_def
      by (auto simp: 1 2 dest!: subsetD [OF set_update_subset_insert])
  next
    case False
    then show ?thesis using assms(1) by (simp add: upd_dag_def keys_inv_def list_update_beyond)
  qed
qed

lemma dag_key_upd [simp]:
  "valid_dag i p \<Longrightarrow> dodagid (f (get_dag i p)) = dodagid (get_dag i p) \<Longrightarrow> dag_key (upd_dag i p f) q = dag_key i q"
  by (cases "p = q") (auto simp: dag_key_def get_upd_dag_other)


lemma lookup_key_upd:
  assumes "keys_inv i" "valid_dag i p" "dodagid (f (get_dag i p)) = dodagid (get_dag i p)"
  shows "lookup_key (upd_dag i p f) k = lookup_key i k"
proof -
  have inv: "keys_inv (upd_dag i p f)" using assms by (simp add: keys_inv_upd)
  have "lookup_key (upd_dag i p f) k = Inr (Some q) \<longleftrightarrow> lookup_key i k = Inr (Some q)" for q
    using assms by (simp add: lookup_key_iff [OF inv] lookup_key_iff [OF assms(1)])
  moreover obtain r r' where "lookup_key (upd_dag i p f) k = Inr r" "lookup_key i k = Inr r'"
    using lookup_key_no_fault [OF inv] lookup_key_no_fault [OF assms(1)] by metis
  ultimately show ?thesis by (cases r; cases r') auto
qed

subsection \<open>The interface of the message handlers\<close>

locale dag_store =
  fixes inv :: "'i \<Rightarrow> bool" and lookup :: "'i \<Rightarrow> 'k \<Rightarrow> 'p option res"
    and get :: "'i \<Rightarrow> 'p \<Rightarrow> 'd" and upd :: "'i \<Rightarrow> 'p \<Rightarrow> ('d \<Rightarrow> 'd) \<Rightarrow> 'i"
    and same_key :: "'d \<Rightarrow> 'd \<Rightarrow> bool" and table :: "'i \<Rightarrow> 'k \<Rightarrow> 'd option"
  assumes lookup_total: "inv i \<Longrightarrow> \<exists>r. lookup i k = Inr r"
    and lookup_table: "inv i \<Longrightarrow> lookup i k = Inr r \<Longrightarrow> table i k = map_option (get i) r"
    and upd_store: "inv i \<Longrightarrow> lookup i k = Inr (Some p) \<Longrightarrow> same_key (get i p) (f (get i p)) \<Longrightarrow>
      inv (upd i p f) \<and> table (upd i p f) = (table i)(k \<mapsto> f (get i p)) \<and>
      (\<forall>k'. lookup (upd i p f) k' = lookup i k')"
begin

lemma absent_iff: "inv i \<Longrightarrow> lookup i k = Inr None \<longleftrightarrow> table i k = None"
  using lookup_total [of i k] lookup_table [of i k] by auto

lemma present: "inv i \<Longrightarrow> lookup i k = Inr (Some p) \<Longrightarrow> table i k = Some (get i p)"
  using lookup_table by simp

lemma presentE:
  assumes "inv i" "table i k = Some d"
  obtains p where "lookup i k = Inr (Some p)" "get i p = d"
proof -
  obtain r where r: "lookup i k = Inr r" using lookup_total [OF assms(1)] by blast
  with lookup_table [OF assms(1) r] assms(2) that show ?thesis by (cases r) auto
qed

lemma upd_ran:
  assumes "inv i" "lookup i k = Inr (Some p)" "same_key (get i p) (f (get i p))"
    "\<forall>d \<in> ran (table i). Q d" "Q (f (get i p))"
  shows "\<forall>d \<in> ran (table (upd i p f)). Q d"
  using assms upd_store [of i k p f] by (auto simp: ran_def)

end

lemma dag_table_upd:
  assumes "keys_inv i" "lookup_key i k = Inr (Some p)"
    "dodagid (f (get_dag i p)) = dodagid (get_dag i p)"
  shows "dag_table (upd_dag i p f) = (dag_table i)(k \<mapsto> f (get_dag i p))"
proof
  have p: "valid_dag i p" "dag_key i p = k" using lookup_key_iff assms by auto
  fix k'
  show "dag_table (upd_dag i p f) k' = ((dag_table i)(k \<mapsto> f (get_dag i p))) k'"
  proof (cases "k' = k")
    case True
    with assms p show ?thesis by (simp add: dag_table_def lookup_key_upd)
  next
    case False
    obtain r where r: "lookup_key i k' = Inr r" using lookup_key_no_fault [OF assms(1)] by blast
    have "r = Some q \<Longrightarrow> q \<noteq> p" for q
      using r False p assms(1) by (auto simp: lookup_key_iff)
    with False r assms p show ?thesis
      by (cases r) (auto simp: dag_table_def lookup_key_upd get_upd_dag_other)
  qed
qed

interpretation ds: dag_store keys_inv lookup_key get_dag upd_dag "\<lambda>d d'. dodagid d' = dodagid d" dag_table
proof unfold_locales
  fix i k r assume "keys_inv i" "lookup_key i k = Inr r"
  then show "dag_table i k = map_option (get_dag i) r"
    by (simp add: dag_table_def split: option.splits)
next
  fix i k p and f :: "dag \<Rightarrow> dag"
  assume "keys_inv i" "lookup_key i k = Inr (Some p)" "dodagid (f (get_dag i p)) = dodagid (get_dag i p)"
  then show "keys_inv (upd_dag i p f) \<and> dag_table (upd_dag i p f) = (dag_table i)(k \<mapsto> f (get_dag i p)) \<and>
      (\<forall>k'. lookup_key (upd_dag i p f) k' = lookup_key i k')"
    using lookup_key_iff by (simp add: keys_inv_upd dag_table_upd lookup_key_upd)
qed (rule lookup_key_no_fault)


subsection \<open>Creating a dag\<close>

lemma table_extend:
  assumes inv: "keys_inv i" "keys_inv i'"
    and valid: "\<And>q. valid_dag i' q \<longleftrightarrow> valid_dag i q \<or> q = p"
    and same: "\<And>q. valid_dag i q \<Longrightarrow> get_dag i' q = get_dag i q \<and> dag_key i' q = dag_key i q"
    and new: "dag_key i' p = k" "lookup_key i k = Inr None"
  shows "lookup_key i' k = Inr (Some p) \<and> dag_table i' = (dag_table i)(k \<mapsto> get_dag i' p)"
proof -
  have l: "lookup_key i' k = Inr (Some p)"
    using new(1) valid by (simp add: lookup_key_iff [OF inv(2)])
  have "dag_table i' k' = dag_table i k'" if k': "k' \<noteq> k" for k'
  proof -
    have "lookup_key i' k' = Inr (Some q) \<longleftrightarrow> lookup_key i k' = Inr (Some q)" for q
      using new(1) valid [of q] same [of q] k' by (auto simp: lookup_key_iff [OF inv(1)] lookup_key_iff [OF inv(2)])
    moreover obtain r r' where r: "lookup_key i' k' = Inr r" "lookup_key i k' = Inr r'"
      using lookup_key_no_fault [OF inv(1)] lookup_key_no_fault [OF inv(2)] by metis
    ultimately have "r = r'" by (cases r; cases r') auto
    moreover have "r' = Some q \<Longrightarrow> get_dag i' q = get_dag i q" for q
      using r(2) same by (simp add: lookup_key_iff [OF inv(1)])
    ultimately show ?thesis using r by (simp add: dag_table_def split: option.splits)
  qed
  with l show ?thesis by (auto simp: dag_table_def)
qed

lemma dag_create_new_rpl:
  assumes inv: "keys_inv i" and none: "index_of instance_id (rpls i) iid = None"
    and i': "i' = i\<lparr>rpls := rpls i @ [\<lparr>instance_id = iid, dags = [d], rpl_freed = False\<rparr>]\<rparr>"
    and did: "dodagid d = did"
  shows "keys_inv i' \<and> lookup_key i' (iid, did) = Inr (Some (length (rpls i), 0)) \<and>
    dag_table i' = (dag_table i)((iid, did) \<mapsto> d)"
proof -
  have "iid \<notin> instance_id ` set (rpls i)" using none by (simp add: index_of_None_iff)
  then have inv': "keys_inv i'" using inv by (auto simp: keys_inv_def i')
  have d: "get_dag i' (length (rpls i), 0) = d" by (simp add: get_dag_def i')
  have "lookup_key i' (iid, did) = Inr (Some (length (rpls i), 0)) \<and>
    dag_table i' = (dag_table i)((iid, did) \<mapsto> get_dag i' (length (rpls i), 0))"
    by (rule table_extend [OF inv inv'])
      (auto simp: valid_dag_def i' nth_append get_dag_def dag_key_def did less_Suc_eq none
        lookup_key_def dag_lookup_index [OF inv] split: if_splits)
  with inv' d show ?thesis by simp
qed

lemma dag_create_old_rpl:
  assumes inv: "keys_inv i" and some: "index_of instance_id (rpls i) iid = Some r"
    and fresh: "index_of dodagid (dags (rpls i ! r)) did = None"
    and i': "i' = i\<lparr>rpls := (rpls i)[r := (rpls i ! r)\<lparr>dags := dags (rpls i ! r) @ [d]\<rparr>]\<rparr>"
    and did: "dodagid d = did"
  shows "keys_inv i' \<and> lookup_key i' (iid, did) = Inr (Some (r, length (dags (rpls i ! r)))) \<and>
    dag_table i' = (dag_table i)((iid, did) \<mapsto> d)"
proof -
  let ?r = "rpls i ! r" and ?p = "(r, length (dags (rpls i ! r)))"
  have r: "r < length (rpls i)" "instance_id ?r = iid" using index_of_SomeD [OF some] by auto
  have 1: "map instance_id ((rpls i)[r := ?r\<lparr>dags := ds\<rparr>]) = map instance_id (rpls i)" for ds
    by (rule map_key_update) simp
  have "did \<notin> dodagid ` set (dags ?r)" using fresh by (simp add: index_of_None_iff)
  moreover have "?r \<in> set (rpls i)" using r by simp
  ultimately have inv': "keys_inv i'"
    using inv unfolding keys_inv_def i'
    by (auto simp: 1 did dest!: subsetD [OF set_update_subset_insert])
  have d: "get_dag i' ?p = d" using r by (simp add: get_dag_def i')
  have "lookup_key i' (iid, did) = Inr (Some ?p) \<and> dag_table i' = (dag_table i)((iid, did) \<mapsto> get_dag i' ?p)"
    by (rule table_extend [OF inv inv'])
      (use r in \<open>auto simp: valid_dag_def i' nth_append nth_list_update_if get_dag_def dag_key_def did
        less_Suc_eq some fresh lookup_key_def dag_lookup_index [OF inv] prod_eq_iff split: if_splits\<close>)
  with inv' d show ?thesis by simp
qed

lemma dag_create_Inr:
  assumes inv: "keys_inv i" and none: "lookup_key i (iid, did) = Inr None" and mem: "memory_available E"
  shows "\<exists>p rs w'. dag_create E i iid did t rank ver (Some dst) w = Inr (Some p, i\<lparr>rpls := rs\<rparr>, w') \<and>
    keys_inv (i\<lparr>rpls := rs\<rparr>) \<and> lookup_key (i\<lparr>rpls := rs\<rparr>) (iid, did) = Inr (Some p) \<and>
    dag_table (i\<lparr>rpls := rs\<rparr>) = (dag_table i)((iid, did) \<mapsto> fresh_dag did rank ver dst) \<and>
    w_errno w' = w_errno w \<and>
    w_trace w' = w_trace w @ [Ev_timer_start (Trickle_w (ifindex i) iid did) DEFAULT_TICKLE_T DEFAULT_TICKLE_T]"
proof -
  have rl: "dag_lookup_rpl (rpls i) iid = Inr (index_of instance_id (rpls i) iid)"
    using inv by (intro rpl_list.lookup_live) (simp add: keys_inv_def)
  have dl: "dag_lookup_dodag ds did = index_of dodagid ds did" for ds
    using dag_list.lookup_live [of ds did] by simp
  have ok: "alloc_ok E n" for n using mem by (simp add: memory_available_def)
  note defs = dag_create_def rl dl dag_rpl_create_def dag_init_def dag_init_timer_def alloc_def ok
    fresh_dag_def Let_def
  show ?thesis
  proof (cases "index_of instance_id (rpls i) iid")
    case None
    from dag_create_new_rpl [OF inv None refl, of "fresh_dag did rank ver dst" did] show ?thesis
      by (auto simp: defs None)
  next
    case (Some r)
    with none have "index_of dodagid (dags (rpls i ! r)) did = None"
      by (simp add: lookup_key_def dag_lookup_index [OF inv])
    moreover have "instance_id (rpls i ! r) = iid" using index_of_SomeD [OF Some] by simp
    ultimately show ?thesis
      using dag_create_old_rpl [OF inv Some _ refl, of did "fresh_dag did rank ver dst"]
      by (auto simp: defs Some)
  qed
qed

lemma lookup_freed_rpl:
  "index_of instance_id rs iid = Some r \<Longrightarrow> \<forall>x \<in> set rs. \<not> rpl_freed x \<Longrightarrow>
   dag_lookup_rpl (rs[r := (rs ! r)\<lparr>rpl_freed := True\<rparr>]) iid = Inl Use_after_free"
proof (induction rs arbitrary: r)
  case (Cons x rs)
  then show ?case by (cases r) (auto split: if_splits)
qed simp

end
