(* ===== verification/Process.thy ===== *)
theory Process
  imports Send Dag_Table
begin

section \<open>process.c: receiving RPL messages\<close>

text \<open>
  The handlers of the four RPL messages and the dispatch on a received ICMPv6 packet. A
  pointer into the receive buffer is the list of bytes from there to the end of the buffer;
  \<open>len\<close> is what the kernel reported, and bytes beyond it are whatever the buffer held. A
  read beyond the buffer is a fault. Every \<open>return\<close> of a handler is a constructor of its
  \<open>exit\<close> type, so that the theorems can say which way a message took. Log output is left out.
\<close>

subsection \<open>DIO\<close>

datatype dio_exit =
    Dio_length_mismatch
  | Dio_at_root
  | Diodp_length_mismatch
  | Diodp_not_supported
  | Diodp_prefix_length_mismatch
  | Dio_no_dag
  | Dio_no_peer
  | Dio_rank_too_high
  | Dio_done

text \<open>
  The destination prefix of a dag the node does not know yet: the part of \<open>process_dio\<close>
  that reads the option behind the DIO header. \<open>memcpy\<close> writes \<open>bits_to_bytes(pfx.len)\<close>
  bytes into the sixteen of \<open>pfx.prefix\<close>, which is not initialised before.
\<close>

definition read_destprefix :: "env \<Rightarrow> bytes \<Rightarrow> nat \<Rightarrow> (dio_exit + in6_prefix) res" where
  "read_destprefix E msg len =
     (if len < 24 - 16 then Inr (Inl Diodp_length_mismatch) else
      let len = len - (24 - 16) in
      bind_res (mem_u8 msg 24) (\<lambda>typ.
      if typ \<noteq> 0x3 then Inr (Inl Diodp_not_supported) else
      bind_res (mem_u8 msg 26) (\<lambda>plen.
      if len < unat (bits_to_bytes plen) then Inr (Inl Diodp_prefix_length_mismatch) else
      bind_res (mem_read msg 32 (unat (bits_to_bytes plen))) (\<lambda>bs.
      bind_res (mem_write (stack_junk E) 0 bs) (\<lambda>pfx.
      Inr (Inr \<lparr>prefix = pfx, pfx_len = plen\<rparr>))))))"

text \<open>From the lookup of the dag to the point where it is known, existing or created.\<close>

definition dio_find_dag :: "env \<Rightarrow> iface \<Rightarrow> nd_rpl_dio \<Rightarrow> bytes \<Rightarrow> nat \<Rightarrow> world
    \<Rightarrow> ((dio_exit + dag_ptr) \<times> iface \<times> world) res" where
  "dio_find_dag E i dio msg len w =
     bind_res (dag_lookup i (dio_instanceid dio) (dio_dagid dio)) (\<lambda>found.
     case found of
       Some p \<Rightarrow> (if my_rank (get_dag i p) = 1 then Inr (Inl Dio_at_root, i, w)
                  else Inr (Inr p, i, w))
     | None \<Rightarrow>
         bind_res (read_destprefix E msg len) (\<lambda>pfx.
         case pfx of
           Inl ex \<Rightarrow> Inr (Inl ex, i, w)
         | Inr pfx \<Rightarrow>
             bind_res (dag_create E i (dio_instanceid dio) (dio_dagid dio) DEFAULT_TICKLE_T
                         0xffff (dio_version dio) (Some pfx) w) (\<lambda>(p, i, w).
             case p of None \<Rightarrow> Inr (Inl Dio_no_dag, i, w) | Some p \<Rightarrow> Inr (Inr p, i, w))))"

text \<open>The rest of the handler: the parent, the rank, the address, the DAO.\<close>

definition dio_update_dag :: "env \<Rightarrow> iface \<Rightarrow> dag_ptr \<Rightarrow> u16 \<Rightarrow> in6_addr \<Rightarrow> world
    \<Rightarrow> (dio_exit \<times> iface \<times> world) res" where
  "dio_update_dag E i p rank from1 w =
     (let (i, w) = (if parent (get_dag i p) = None
                    then (let (pe, w) = dag_peer_create E from1 w
                          in (upd_dag i p (\<lambda>d. d\<lparr>parent := pe\<rparr>), w))
                    else (i, w)) in
      case parent (get_dag i p) of
        None \<Rightarrow> Inr (Dio_no_peer, i, w)
      | Some pe \<Rightarrow>
          (if rank > peer_rank pe then Inr (Dio_rank_too_high, i, w) else
           let i = upd_dag i p (\<lambda>d. d\<lparr>parent := Some (pe\<lparr>peer_rank := rank\<rparr>), my_rank := rank + 1\<rparr>) in
           bind_res (dag_process_dio E i p w) (\<lambda>(i, w).
           case parent (get_dag i p) of
             None \<Rightarrow> Inr (Dio_done, i, w)
           | Some pe \<Rightarrow> bind_res (send_dao E i (peer_addr pe) p w) (\<lambda>(i, w). Inr (Dio_done, i, w)))))"

definition process_dio :: "env \<Rightarrow> iface \<Rightarrow> bytes \<Rightarrow> nat \<Rightarrow> in6_addr \<Rightarrow> world
    \<Rightarrow> (dio_exit \<times> iface \<times> world) res" where
  "process_dio E i msg len from1 w =
     (if len < 24 then Inr (Dio_length_mismatch, i, w) else
      bind_res (mem_read msg 0 24) (\<lambda>m. let dio = nd_rpl_dio_of m in
      bind_res (dio_find_dag E i dio msg (len - 24) w) (\<lambda>(found, i, w).
      case found of
        Inl ex \<Rightarrow> Inr (ex, i, w)
      | Inr p \<Rightarrow> dio_update_dag E i p (ntohs (dio_dagrank dio)) from1 w)))"

subsection \<open>DAO\<close>

datatype dao_exit =
    Dao_length_mismatch
  | Dao_no_dag
  | Dao_opt_length_mismatch
  | Dao_done

text \<open>
  The option loop: \<open>off\<close> is the offset of \<open>p\<close> in the message, \<open>optlen\<close> the C variable. The
  test before the target is read repeats the test of the option header, so sixteen bytes of
  prefix are read however short the option is. The result says whether the loop ran to its
  end or returned.
\<close>

function dao_options :: "env \<Rightarrow> bytes \<Rightarrow> in6_addr \<Rightarrow> nat \<Rightarrow> int \<Rightarrow> dag \<Rightarrow> world
    \<Rightarrow> (bool \<times> dag \<times> world) res" where
  "dao_options E msg from1 off optlen d w =
     (if optlen > 0 then
        (if optlen < 2 then Inr (False, d, w) else
         bind_res (mem_read msg off 2) (\<lambda>o2. let opt = nd_rpl_opt_of o2 in
         bind_res (if opt_type opt = RPL_DAO_RPLTARGET then
                     (if optlen < 2 then Inr (None, d, w) else
                      bind_res (mem_read msg (off + 4) 16) (\<lambda>addr.
                      let (c, d, w) = dag_lookup_child_or_create E d addr from1 w
                      in Inr (Some (), d, w)))
                   else Inr (Some (), d, w)) (\<lambda>(go, d, w).
         if go = None then Inr (False, d, w)
         else dao_options E msg from1 (off + (2 + unat (opt_len opt)))
                (optlen - (2 + int (unat (opt_len opt)))) d w)))
      else Inr (True, d, w))"
  by pat_completeness auto
termination
  by (relation "measure (\<lambda>(E, msg, from1, off, optlen, d, w). nat optlen)")
    (auto intro: less_le_trans [OF _ unsigned_greater_eq])

text \<open>The loop that installs a route for every child of the dag.\<close>

fun add_child_routes :: "env \<Rightarrow> u32 \<Rightarrow> child list \<Rightarrow> world \<Rightarrow> world" where
  "add_child_routes E ifi [] w = w"
| "add_child_routes E ifi (c # cs) w =
     (let (rc, w) = nl_add_route_via E ifi (child_addr c) (child_from c) w
      in add_child_routes E ifi cs w)"

definition process_dao :: "env \<Rightarrow> iface \<Rightarrow> bytes \<Rightarrow> nat \<Rightarrow> in6_addr \<Rightarrow> world
    \<Rightarrow> (dao_exit \<times> iface \<times> world) res" where
  "process_dao E i msg len from1 w =
     (if len < 20 then Inr (Dao_length_mismatch, i, w) else
      let len = len - 20 in
      bind_res (mem_read msg 0 20) (\<lambda>m. let dao = nd_rpl_dao_of m in
      bind_res (dag_lookup i (dao_instanceid dao) (dao_dagid dao)) (\<lambda>found.
      case found of
        None \<Rightarrow> Inr (Dao_no_dag, i, w)
      | Some p \<Rightarrow>
          bind_res (dao_options E msg from1 20 (int len) (get_dag i p) w) (\<lambda>(complete, d, w).
          let i = upd_dag i p (\<lambda>_. d) in
          if \<not> complete then Inr (Dao_opt_length_mismatch, i, w) else
          let w = add_child_routes E (ifindex i) (childs d) w in
          bind_res (send_dao_ack E i from1 p w) (\<lambda>(i, w). Inr (Dao_done, i, w))))))"

subsection \<open>DAO-ACK and DIS\<close>

datatype daoack_exit = Daoack_length_mismatch | Daoack_no_dag | Daoack_done

definition process_daoack :: "env \<Rightarrow> iface \<Rightarrow> bytes \<Rightarrow> nat \<Rightarrow> in6_addr \<Rightarrow> world
    \<Rightarrow> (daoack_exit \<times> iface \<times> world) res" where
  "process_daoack E i msg len from1 w =
     (if len < 20 then Inr (Daoack_length_mismatch, i, w) else
      bind_res (mem_read msg 0 20) (\<lambda>m. let daoack = nd_rpl_daoack_of m in
      bind_res (dag_lookup i (daoack_instanceid daoack) (daoack_dagid daoack)) (\<lambda>found.
      case found of
        None \<Rightarrow> Inr (Daoack_no_dag, i, w)
      | Some p \<Rightarrow>
          (case parent (get_dag i p) of
             None \<Rightarrow> Inr (Daoack_done, i, w)
           | Some pe \<Rightarrow> (let (rc, w) = nl_add_route_default E (ifindex i) (peer_addr pe) w
                         in Inr (Daoack_done, i, w))))))"

text \<open>
  The nested loops of \<open>process_dis\<close>: one DIO per dag, in list order. Reaching an instance
  reads it.
\<close>

fun send_dios :: "env \<Rightarrow> iface \<Rightarrow> dag_ptr list \<Rightarrow> world \<Rightarrow> (iface \<times> world) res" where
  "send_dios E i [] w = Inr (i, w)"
| "send_dios E i (p # ps) w = bind_res (send_dio E i p w) (\<lambda>(i, w). send_dios E i ps w)"

fun dis_rpls :: "env \<Rightarrow> iface \<Rightarrow> nat list \<Rightarrow> world \<Rightarrow> (iface \<times> world) res" where
  "dis_rpls E i [] w = Inr (i, w)"
| "dis_rpls E i (r # rs) w =
     (if rpl_freed (rpls i ! r) then Inl Use_after_free else
      bind_res (send_dios E i (map (Pair r) [0..<length (dags (rpls i ! r))]) w) (\<lambda>(i, w).
      dis_rpls E i rs w))"

definition process_dis :: "env \<Rightarrow> iface \<Rightarrow> bytes \<Rightarrow> nat \<Rightarrow> in6_addr \<Rightarrow> world \<Rightarrow> (iface \<times> world) res" where
  "process_dis E i msg len from1 w = dis_rpls E i [0..<length (rpls i)] w"

subsection \<open>Interfaces and the dispatch\<close>

text \<open>\<open>iface_find_by_ifindex\<close> of \<open>config.c\<close>.\<close>

fun iface_find_by_ifindex :: "iface list \<Rightarrow> u32 \<Rightarrow> nat option" where
  "iface_find_by_ifindex [] ifi = None"
| "iface_find_by_ifindex (i # is) ifi =
     (if ifindex i = ifi then Some 0 else map_option Suc (iface_find_by_ifindex is ifi))"

interpretation iface_list: keyed_list "\<lambda>is n. Inr (iface_find_by_ifindex is n)" ifindex "\<lambda>_. True"
  by unfold_locales simp_all

datatype process_exit =
    Pkt_invalid_length
  | Pkt_unknown_iface
  | Pkt_filter_failed
  | Pkt_dis
  | Pkt_dio dio_exit
  | Pkt_dao dao_exit
  | Pkt_daoack daoack_exit
  | Pkt_unsupported_code u8

text \<open>
  \<open>pkt_info\<close> is a pointer; the function reads \<open>ipi6_ifindex\<close> through it before it tests
  it. The message starts with the four bytes of the ICMPv6 header that precede
  \<open>icmp6_dataun\<close>.
\<close>

definition process :: "env \<Rightarrow> iface list \<Rightarrow> bytes \<Rightarrow> int \<Rightarrow> in6_addr \<Rightarrow> u32 option \<Rightarrow> world
    \<Rightarrow> (process_exit \<times> iface list \<times> world) res" where
  "process E is msg len from1 pkt_info w =
     (case pkt_info of None \<Rightarrow> Inl Null_deref | Some ifi \<Rightarrow>
      if len < 4 then Inr (Pkt_invalid_length, is, w) else
      let len = nat (len - 4) in
      case iface_find_by_ifindex is ifi of
        None \<Rightarrow> Inr (Pkt_unknown_iface, is, w)
      | Some k \<Rightarrow>
          bind_res (mem_u8 msg 0) (\<lambda>typ.
          if typ \<noteq> ND_RPL_MESSAGE then Inr (Pkt_filter_failed, is, w) else
          bind_res (mem_u8 msg 1) (\<lambda>code.
          let data = drop 4 msg in
          if code = ND_RPL_DAG_IS then
            bind_res (process_dis E (is ! k) data len from1 w) (\<lambda>(i, w). Inr (Pkt_dis, is[k := i], w))
          else if code = ND_RPL_DAG_IO then
            bind_res (process_dio E (is ! k) data len from1 w) (\<lambda>(ex, i, w). Inr (Pkt_dio ex, is[k := i], w))
          else if code = ND_RPL_DAO then
            bind_res (process_dao E (is ! k) data len from1 w) (\<lambda>(ex, i, w). Inr (Pkt_dao ex, is[k := i], w))
          else if code = ND_RPL_DAO_ACK then
            bind_res (process_daoack E (is ! k) data len from1 w) (\<lambda>(ex, i, w). Inr (Pkt_daoack ex, is[k := i], w))
          else Inr (Pkt_unsupported_code code, is, w))))"

end
