(* ===== verification/Iface_Invariant.thy ===== *)
theory Iface_Invariant
  imports Process
begin

section \<open>The invariant of an interface\<close>

text \<open>
  What holds of every interface between two events: the table of dags is keyed (\<open>keys_inv\<close>),
  the link-layer address and the source address are there, every dag is well-formed, and the
  rank of a dag with a parent is one above the parent's.
\<close>

subsection \<open>Definitions\<close>

definition rank_ok :: "dag \<Rightarrow> bool" where
  "rank_ok d \<longleftrightarrow> (case parent d of None \<Rightarrow> my_rank d = 1 \<or> my_rank d = 0xffff
     | Some pe \<Rightarrow> my_rank d = peer_rank pe + 1)"

definition ll_ok :: "iface \<Rightarrow> bool" where
  "ll_ok i \<longleftrightarrow> (addr_len (llinfo i) = 8 \<longrightarrow> (\<exists>a. ll_addr (llinfo i) = Some a \<and> length a = 8))"

definition iface_ok :: "iface \<Rightarrow> bool" where
  "iface_ok i \<longleftrightarrow> keys_inv i \<and> ll_ok i \<and> (\<exists>src. ifaddr_src i = Some src) \<and>
     (\<forall>d \<in> ran (dag_table i). wf_dag d \<and> rank_ok d)"

subsection \<open>Lemmas\<close>

lemma iface_ok_upd:
  assumes "iface_ok i" "lookup_key i k = Inr (Some p)" "wf_dag d'" "rank_ok d'" "dodagid d' = dodagid (get_dag i p)"
  shows "iface_ok (upd_dag i p (\<lambda>_. d'))" "dag_table (upd_dag i p (\<lambda>_. d')) = (dag_table i)(k \<mapsto> d')"
proof -
  have inv: "keys_inv i" using assms(1) by (simp add: iface_ok_def)
  note u = ds.upd_store [OF inv assms(2), of "\<lambda>_. d'", OF assms(5)]
  then show "dag_table (upd_dag i p (\<lambda>_. d')) = (dag_table i)(k \<mapsto> d')" by simp
  have "\<forall>d \<in> ran (dag_table (upd_dag i p (\<lambda>_. d'))). wf_dag d \<and> rank_ok d"
    using assms by (intro ds.upd_ran [OF inv assms(2)]) (auto simp: iface_ok_def)
  with u show "iface_ok (upd_dag i p (\<lambda>_. d'))" using assms(1) by (simp add: iface_ok_def ll_ok_def)
qed

lemma iface_ok_lookupD:
  assumes "iface_ok i" "lookup_key i k = Inr (Some p)"
  shows "dag_table i k = Some (get_dag i p)" "wf_dag (get_dag i p)" "rank_ok (get_dag i p)" "valid_dag i p"
    "dag_key i p = k" "\<not> rpl_freed (rpls i ! fst p)" "instance_id (rpls i ! fst p) = fst k"
    "dodagid (get_dag i p) = snd k"
proof -
  have inv: "keys_inv i" using assms(1) by (simp add: iface_ok_def)
  then show p: "valid_dag i p" "dag_key i p = k" using assms(2) by (auto simp: lookup_key_iff)
  show t: "dag_table i k = Some (get_dag i p)" by (rule ds.present [OF inv assms(2)])
  then have "get_dag i p \<in> ran (dag_table i)" by (rule ranI)
  then show "wf_dag (get_dag i p)" "rank_ok (get_dag i p)" using assms(1) by (auto simp: iface_ok_def)
  show "\<not> rpl_freed (rpls i ! fst p)" using inv p by (simp add: keys_inv_def valid_dag_def)
  show "instance_id (rpls i ! fst p) = fst k" "dodagid (get_dag i p) = snd k"
    using p(2) by (auto simp: dag_key_def)
qed

lemma iface_okI:
  assumes "keys_inv i" "ll_ok i" "ifaddr_src i = Some src" "\<forall>d \<in> set (all_dags i). wf_dag d \<and> rank_ok d"
  shows "iface_ok i"
proof -
  have "d \<in> set (all_dags i)" if d: "d \<in> ran (dag_table i)" for d
  proof -
    from d obtain k where k: "dag_table i k = Some d" by (auto simp: ran_def simp del: split_paired_Ex)
    obtain p where "lookup_key i k = Inr (Some p)" "get_dag i p = d"
      using ds.presentE [OF assms(1) k] by blast
    then show ?thesis using get_dag_in_all [of i p] by (auto simp: lookup_key_iff [OF assms(1)])
  qed
  then show ?thesis using assms by (auto simp: iface_ok_def)
qed

end
