(* ===== verification/Config.thy ===== *)
theory Config
  imports Iface_Invariant "HOL-Library.List_Lexorder" "HOL-Library.Multiset"
begin

section \<open>config.c: from the configuration file to the interfaces\<close>

text \<open>
  The configuration is a Lua program; what the daemon sees of it goes through Lua's C API,
  which is a parameter here (\<open>lua_api\<close>, over an arbitrary type of Lua values): what a value
  is, its fields, the values of a table in the order in which \<open>lua_next\<close> delivers them. The
  other outside functions are the fields of \<open>sys_api\<close>: the addresses of the host, the
  interface index of a name, the parser of addresses, the kernel's link messages, \<open>random\<close>.
  Every \<open>return\<close> of the C functions is a branch; a string is what C sees of it, up to the
  terminating zero.
\<close>

record 'v lua_api =
  lua_newstate_ok :: bool
  lua_run :: "string \<Rightarrow> 'v option"
  lua_istable :: "'v \<Rightarrow> bool"
  lua_values :: "'v \<Rightarrow> 'v list"
  lua_getfield :: "'v \<Rightarrow> string \<Rightarrow> 'v res"
  lua_tostring :: "'v \<Rightarrow> string option"
  lua_tonumber :: "'v \<Rightarrow> real option"
  lua_toboolean :: "'v \<Rightarrow> bool option"

record ifaddrs_entry =
  ifa_name :: string
  ifa_addr :: "(u16 \<times> in6_addr) option"

record sys_api =
  getifaddrs :: "event list \<Rightarrow> ifaddrs_entry list option"
  if_nametoindex :: "string \<Rightarrow> u32"
  inet_pton :: "string \<Rightarrow> in6_addr option"
  link_reply :: "u32 \<Rightarrow> nlattr list option"
  sys_random :: "event list \<Rightarrow> nat \<Rightarrow> u32"

subsection \<open>The addresses of an interface\<close>

text \<open>\<open>memcmp\<close> of two objects of the same size, which is all \<open>cmp_iface_addrs\<close> is.\<close>

fun memcmp :: "bytes \<Rightarrow> bytes \<Rightarrow> int" where
  "memcmp (x # xs) (y # ys) = (if x < y then -1 else if y < x then 1 else memcmp xs ys)"
| "memcmp _ _ = 0"

definition cmp_iface_addrs :: "in6_addr \<Rightarrow> in6_addr \<Rightarrow> int" where
  "cmp_iface_addrs a b = memcmp a b"

text \<open>
  \<open>qsort\<close> with that comparison. Two addresses that compare equal are equal, so the sorted
  arrangement is unique and any algorithm gives it; here it is insertion.
\<close>

fun insert_addr :: "in6_addr \<Rightarrow> in6_addr list \<Rightarrow> in6_addr list" where
  "insert_addr a [] = [a]"
| "insert_addr a (b # bs) = (if cmp_iface_addrs a b \<le> 0 then a # b # bs else b # insert_addr a bs)"

definition qsort_addrs :: "in6_addr list \<Rightarrow> in6_addr list" where
  "qsort_addrs as = foldr insert_addr as []"

definition ll_prefix :: bytes where
  "ll_prefix = [0xfe, 0x80, 0, 0, 0, 0, 0, 0]"

text \<open>One \<open>realloc\<close> of the array; the result is written through without a test.\<close>

definition grow_array :: "env \<Rightarrow> bool \<Rightarrow> world \<Rightarrow> world res" where
  "grow_array E isnull w =
     (let ok = alloc_ok E (w_allocs w) in
      if ok then Inr (w\<lparr>w_allocs := Suc (w_allocs w), w_live := w_live w + (if isnull then 1 else 0)\<rparr>)
      else Inl Null_deref)"

fun addrs_loop :: "env \<Rightarrow> ifaddrs_entry list \<Rightarrow> string \<Rightarrow> in6_addr list \<Rightarrow> in6_addr option \<Rightarrow> world
    \<Rightarrow> (in6_addr list \<times> in6_addr option \<times> world) res" where
  "addrs_loop E [] name acc ll w = Inr (acc, ll, w)"
| "addrs_loop E (e # es) name acc ll w =
     (case ifa_addr e of
        None \<Rightarrow> addrs_loop E es name acc ll w
      | Some (family, a) \<Rightarrow>
          if family \<noteq> ucast AF_INET6 then addrs_loop E es name acc ll w
          else if ifa_name e \<noteq> name then addrs_loop E es name acc ll w
          else bind_res (grow_array E (acc = []) w) (\<lambda>w.
            addrs_loop E es name (acc @ [a])
              (if ll \<noteq> None \<or> take 8 a \<noteq> ll_prefix then ll else Some a) w))"

text \<open>
  The result: the return value, what was stored in \<open>*if_addr\<close> (if anything), and the array,
  which ends in the unspecified address.
\<close>

definition get_iface_addrs :: "env \<Rightarrow> sys_api \<Rightarrow> string \<Rightarrow> world
    \<Rightarrow> (int \<times> in6_addr option \<times> in6_addr list \<times> world) res" where
  "get_iface_addrs E S name w =
     bind_res (case getifaddrs S (w_trace w) of
                 None \<Rightarrow> Inr ([], None, w)
               | Some es \<Rightarrow> addrs_loop E es name [] None w) (\<lambda>(as, ll, w).
     bind_res (grow_array E (as = []) w) (\<lambda>w.
     Inr (if ll = None then -1 else int (length as), ll, qsort_addrs as @ [replicate 16 0], w)))"

subsection \<open>Prefixes\<close>

text \<open>\<open>strtoul\<close> in base 10, with the 64 bits of \<open>unsigned long\<close>.\<close>

definition is_space :: "char \<Rightarrow> bool" where
  "is_space c = (c = CHR '' '' \<or> 9 \<le> (of_char c :: nat) \<and> (of_char c :: nat) \<le> 13)"

definition is_digit :: "char \<Rightarrow> bool" where
  "is_digit c = (48 \<le> (of_char c :: nat) \<and> (of_char c :: nat) \<le> 57)"

definition digits_value :: "string \<Rightarrow> nat" where
  "digits_value ds = foldl (\<lambda>n c. 10 * n + (of_char c - 48)) 0 ds"

definition strtoul :: "string \<Rightarrow> nat" where
  "strtoul s =
     (let s = dropWhile is_space s;
          neg = (s \<noteq> [] \<and> hd s = CHR ''-'');
          s = (if s \<noteq> [] \<and> (hd s = CHR ''-'' \<or> hd s = CHR ''+'') then tl s else s);
          n = digits_value (takeWhile is_digit s)
      in if n > 2 ^ 64 - 1 then 2 ^ 64 - 1
         else if neg \<and> n > 0 then 2 ^ 64 - n else n)"

text \<open>
  The address part is copied with \<open>strncpy\<close> into 46 bytes (\<open>INET6_ADDRSTRLEN\<close>): beyond 46
  characters the copy overruns the array, with exactly 46 the terminator is missing and
  \<open>inet_pton\<close> reads on.
\<close>

definition parse_ipv6_prefix :: "sys_api \<Rightarrow> string \<Rightarrow> in6_prefix option res" where
  "parse_ipv6_prefix S str =
     (let ip = takeWhile (\<lambda>c. c \<noteq> CHR ''/'') str; del = dropWhile (\<lambda>c. c \<noteq> CHR ''/'') str in
      if del = [] then Inr None
      else if CHR ''/'' \<in> set (tl del) then Inr None
      else if length ip \<ge> 46 then Inl Out_of_bounds
      else case inet_pton S ip of
             None \<Rightarrow> Inr None
           | Some a \<Rightarrow>
               (let p = strtoul (tl del) in
                if p = 2 ^ 64 - 1 \<or> p > 255 then Inr None
                else Inr (Some \<lparr>prefix = a, pfx_len = word_of_nat p\<rparr>)))"

subsection \<open>Dags and instances\<close>

text \<open>The conversion of a Lua number to \<open>uint8_t\<close>; C leaves it undefined out of range.\<close>

definition number_to_u8 :: "real \<Rightarrow> u8 res" where
  "number_to_u8 x =
     (if -1 < x \<and> x < 256 then Inr (word_of_int (if x < 0 then 0 else \<lfloor>x\<rfloor>)) else Inl Undefined_conversion)"

text \<open>The prefix and the DODAG id of one entry; \<open>None\<close> is the return of -1.\<close>

definition dag_prefix :: "sys_api \<Rightarrow> 'v lua_api \<Rightarrow> 'v \<Rightarrow> world \<Rightarrow> in6_prefix option res" where
  "dag_prefix S L v w =
     bind_res (lua_getfield L v ''dest_prefix'') (\<lambda>f.
     case lua_tostring L f of
       Some s \<Rightarrow> parse_ipv6_prefix S s
     | None \<Rightarrow> (let (rc, p) = gen_random_private_ula_pfx (sys_random S (w_trace w))
                in if rc = -1 then Inr None else Inr (Some p)))"

definition dag_dodagid :: "sys_api \<Rightarrow> 'v lua_api \<Rightarrow> iface_llinfo \<Rightarrow> in6_prefix \<Rightarrow> 'v \<Rightarrow> in6_addr option res" where
  "dag_dodagid S L ll dst v =
     bind_res (lua_getfield L v ''dodagid'') (\<lambda>f.
     case lua_tostring L f of
       Some s \<Rightarrow> Inr (inet_pton S s)
     | None \<Rightarrow> bind_res (gen_stateless_addr dst ll) (\<lambda>(rc, a). Inr (if rc = -1 then None else Some a)))"

definition dag_trickle :: "'v lua_api \<Rightarrow> 'v \<Rightarrow> ev_tstamp res" where
  "dag_trickle L v =
     bind_res (lua_getfield L v ''trickle_t'') (\<lambda>f.
     Inr (case lua_tonumber L f of Some x \<Rightarrow> x | None \<Rightarrow> DEFAULT_TICKLE_T))"

definition dag_version :: "'v lua_api \<Rightarrow> 'v \<Rightarrow> u8 res" where
  "dag_version L v =
     bind_res (lua_getfield L v ''version'') (\<lambda>f.
     case lua_tonumber L f of Some x \<Rightarrow> number_to_u8 x | None \<Rightarrow> Inr DEFAULT_DAG_VERSION)"

fun load_dags :: "env \<Rightarrow> sys_api \<Rightarrow> 'v lua_api \<Rightarrow> u8 \<Rightarrow> 'v list \<Rightarrow> iface \<Rightarrow> world \<Rightarrow> (int \<times> iface \<times> world) res" where
  "load_dags E S L iid [] i w = Inr (0, i, w)"
| "load_dags E S L iid (v # vs) i w =
     bind_res (dag_prefix S L v w) (\<lambda>p.
     case p of None \<Rightarrow> Inr (-1, i, w) | Some dst \<Rightarrow>
     bind_res (dag_trickle L v) (\<lambda>t.
     bind_res (dag_dodagid S L (llinfo i) dst v) (\<lambda>a.
     case a of None \<Rightarrow> Inr (-1, i, w) | Some did \<Rightarrow>
     bind_res (dag_version L v) (\<lambda>ver.
     bind_res (dag_create E i iid did t 1 ver (Some dst) w) (\<lambda>(p, i, w).
     case p of
       None \<Rightarrow> Inr (-1, i, w)
     | Some p \<Rightarrow> load_dags E S L iid vs (upd_dag i p (\<lambda>d. d\<lparr>self := did\<rparr>)) w)))))"

definition config_load_dags :: "env \<Rightarrow> sys_api \<Rightarrow> 'v lua_api \<Rightarrow> 'v \<Rightarrow> u8 \<Rightarrow> iface \<Rightarrow> world
    \<Rightarrow> (int \<times> iface \<times> world) res" where
  "config_load_dags E S L v iid i w =
     bind_res (lua_getfield L v ''dags'') (\<lambda>f.
     if \<not> lua_istable L f then Inr (-1, i, w) else load_dags E S L iid (lua_values L f) i w)"

fun load_instances :: "env \<Rightarrow> sys_api \<Rightarrow> 'v lua_api \<Rightarrow> 'v list \<Rightarrow> iface \<Rightarrow> world \<Rightarrow> (int \<times> iface \<times> world) res" where
  "load_instances E S L [] i w = Inr (0, i, w)"
| "load_instances E S L (v # vs) i w =
     bind_res (lua_getfield L v ''instance'') (\<lambda>f.
     case lua_tonumber L f of
       None \<Rightarrow> Inr (-1, i, w)
     | Some x \<Rightarrow>
         bind_res (number_to_u8 x) (\<lambda>iid.
         bind_res (config_load_dags E S L v iid i w) (\<lambda>(rc, i, w).
         if rc = -1 then Inr (rc, i, w) else load_instances E S L vs i w)))"

definition config_load_instances :: "env \<Rightarrow> sys_api \<Rightarrow> 'v lua_api \<Rightarrow> 'v \<Rightarrow> iface \<Rightarrow> world
    \<Rightarrow> (int \<times> iface \<times> world) res" where
  "config_load_instances E S L v i w =
     bind_res (lua_getfield L v ''rpls'') (\<lambda>f.
     if \<not> lua_istable L f then Inr (-1, i, w) else load_instances E S L (lua_values L f) i w)"

subsection \<open>Interfaces\<close>

definition zero_iface :: iface where
  "zero_iface = \<lparr>ifname = [], ifindex = 0, llinfo = \<lparr>ll_addr = None, addr_len = 0, ll_ifindex = 0\<rparr>,
     ifaddr = replicate 16 0, ifaddrs = [], ifaddrs_count = 0, ifaddr_src = None, rpls = [], dodag_root = False\<rparr>"

definition iface_create :: "env \<Rightarrow> world \<Rightarrow> iface option \<times> world" where
  "iface_create E w = (let (ok, w) = alloc E w in (if ok then Some zero_iface else None, w))"

text \<open>The three blocks of an interface; \<open>free(NULL)\<close> does nothing.\<close>

definition iface_free :: "iface \<Rightarrow> world \<Rightarrow> world" where
  "iface_free i w =
     (let w = (if ifaddrs i \<noteq> [] then release w else w);
          w = (if ll_addr (llinfo i) \<noteq> None then release w else w)
      in release w)"

definition IFNAMSIZ :: nat where "IFNAMSIZ = 16"

text \<open>
  One turn of the loop of \<open>config_load\<close> in two parts, up to the addresses of the interface
  and from its role on; \<open>Inl rc\<close> is a return. A name of sixteen characters or more leaves
  \<open>ifname\<close> without a terminator, and \<open>if_nametoindex\<close> reads on.
\<close>

definition iface_setup :: "env \<Rightarrow> sys_api \<Rightarrow> 'v lua_api \<Rightarrow> 'v \<Rightarrow> world \<Rightarrow> ((int + iface) \<times> world) res" where
  "iface_setup E S L v w =
     (let (ip, w) = iface_create E w in
      case ip of None \<Rightarrow> Inr (Inl (-1), w) | Some i \<Rightarrow>
      bind_res (lua_getfield L v ''ifname'') (\<lambda>f.
      case lua_tostring L f of None \<Rightarrow> Inr (Inl (-1), iface_free i w) | Some name \<Rightarrow>
      let i = i\<lparr>ifname := take IFNAMSIZ name\<rparr> in
      bind_res (set_interface_var E ''all'' PROC_SYS_IP6_IFACE_FORWARDING 1 w) (\<lambda>(rc, w).
      if rc = -1 then Inr (Inl (-1), iface_free i w) else
      if length name \<ge> IFNAMSIZ then Inl Out_of_bounds else
      let i = i\<lparr>ifindex := if_nametoindex S (ifname i)\<rparr> in
      if ifindex i = 0 then Inr (Inl (-1), iface_free i w) else
      let (rc, ll, w) = nl_get_llinfo E (link_reply S (ifindex i)) (ifindex i) (llinfo i) w;
          i = i\<lparr>llinfo := ll\<rparr> in
      bind_res (get_iface_addrs E S (ifname i) w) (\<lambda>(rc, a, as, w).
      let i = i\<lparr>ifaddrs := as, ifaddr := (case a of None \<Rightarrow> ifaddr i | Some a \<Rightarrow> a)\<rparr> in
      if rc = -1 then Inr (Inl rc, iface_free i w) else
      Inr (Inr (i\<lparr>ifaddr_src := Some (ifaddr i), ifaddrs_count := rc\<rparr>), w)))))"

definition iface_role :: "env \<Rightarrow> sys_api \<Rightarrow> 'v lua_api \<Rightarrow> 'v \<Rightarrow> iface \<Rightarrow> world \<Rightarrow> ((int + iface) \<times> world) res" where
  "iface_role E S L v i w =
     bind_res (lua_getfield L v ''dodag_root'') (\<lambda>f.
     case lua_toboolean L f of None \<Rightarrow> Inr (Inl (-1), iface_free i w) | Some isroot \<Rightarrow>
     let i = i\<lparr>dodag_root := isroot\<rparr> in
     if dodag_root i then
       bind_res (config_load_instances E S L v i w) (\<lambda>(rc, i, w).
       if rc = -1 then Inr (Inl rc, w) else Inr (Inr i, w))
     else Inr (Inr i, w))"

definition load_iface :: "env \<Rightarrow> sys_api \<Rightarrow> 'v lua_api \<Rightarrow> 'v \<Rightarrow> world \<Rightarrow> ((int + iface) \<times> world) res" where
  "load_iface E S L v w =
     bind_res (iface_setup E S L v w) (\<lambda>(r, w).
     case r of Inl rc \<Rightarrow> Inr (Inl rc, w) | Inr i \<Rightarrow> iface_role E S L v i w)"

fun load_ifaces :: "env \<Rightarrow> sys_api \<Rightarrow> 'v lua_api \<Rightarrow> 'v list \<Rightarrow> iface list \<Rightarrow> world \<Rightarrow> (int \<times> iface list \<times> world) res" where
  "load_ifaces E S L [] is w = Inr (0, is, w)"
| "load_ifaces E S L (v # vs) is w =
     bind_res (load_iface E S L v w) (\<lambda>(r, w).
     case r of Inl rc \<Rightarrow> Inr (rc, is, w) | Inr i \<Rightarrow> load_ifaces E S L vs (is @ [i]) w)"

definition config_load :: "env \<Rightarrow> sys_api \<Rightarrow> 'v lua_api \<Rightarrow> string \<Rightarrow> iface list \<Rightarrow> world
    \<Rightarrow> (int \<times> iface list \<times> world) res" where
  "config_load E S L filename is w =
     (if \<not> lua_newstate_ok L then Inr (-1, is, w)
      else case lua_run L filename of
             None \<Rightarrow> Inr (-1, is, w)
           | Some v \<Rightarrow> (if \<not> lua_istable L v then Inr (-1, is, w)
                        else load_ifaces E S L (lua_values L v) is w))"

subsection \<open>What the theorems refer to\<close>

text \<open>The addresses of one interface in the list of the host, in order.\<close>

definition addrs_of :: "string \<Rightarrow> ifaddrs_entry list \<Rightarrow> in6_addr list" where
  "addrs_of name es = [a. e \<leftarrow> es, ifa_name e = name, (f, a) \<leftarrow> (case ifa_addr e of None \<Rightarrow> [] | Some x \<Rightarrow> [x]), f = ucast AF_INET6]"

text \<open>The decimal digits of a number, as \<open>printf\<close> writes them.\<close>

fun decimal :: "nat \<Rightarrow> string" where
  "decimal n = (if n < 10 then [char_of (48 + n)] else decimal (n div 10) @ [char_of (48 + n mod 10)])"

subsection \<open>Lemmas on the addresses of an interface\<close>

lemma memcmp_le: "length a = length b \<Longrightarrow> memcmp a b \<le> 0 \<longleftrightarrow> a \<le> b"
  by (induction a b rule: list_induct2) auto

lemma set_insert_addr [simp]: "set (insert_addr a bs) = insert a (set bs)"
  by (induction bs) auto

lemma insert_addr_insort:
  "wf_addr a \<Longrightarrow> \<forall>b \<in> set bs. wf_addr b \<Longrightarrow> insert_addr a bs = insort a bs"
  by (induction bs) (auto simp: cmp_iface_addrs_def memcmp_le wf_addr_def)

lemma qsort_addrs_sort: "\<forall>a \<in> set as. wf_addr a \<Longrightarrow> qsort_addrs as = sort as"
proof (induction as)
  case (Cons a as)
  then have "qsort_addrs as = sort as" by simp
  then show ?case using Cons.prems insert_addr_insort [of a "sort as"] by (simp add: qsort_addrs_def)
qed (simp add: qsort_addrs_def)

lemma grow_array_Inr:
  "memory_available E \<Longrightarrow> \<exists>w'. grow_array E b w = Inr w' \<and> same_io w w'"
  by (auto simp: grow_array_def memory_available_def same_io_def Let_def)

lemma addrs_loop_Inr:
  assumes "memory_available E"
  shows "\<exists>w'. addrs_loop E es name acc ll w =
    Inr (acc @ addrs_of name es,
         (if ll = None then find (\<lambda>a. take 8 a = ll_prefix) (addrs_of name es) else ll), w') \<and> same_io w w'"
proof (induction es arbitrary: acc ll w)
  case Nil
  then show ?case by (simp add: addrs_of_def)
next
  case (Cons e es)
  let ?skip = "\<lambda>w. addrs_loop E es name acc ll w"
  show ?case
  proof (cases "\<exists>a. ifa_addr e = Some (ucast AF_INET6, a) \<and> ifa_name e = name")
    case True
    then obtain a where a: "ifa_addr e = Some (ucast AF_INET6, a)" "ifa_name e = name" by blast
    obtain w1 where w1: "grow_array E (acc = []) w = Inr w1" "same_io w w1"
      using grow_array_Inr [OF assms] by blast
    have "addrs_of name (e # es) = a # addrs_of name es" using a by (simp add: addrs_of_def)
    with Cons.IH [of "acc @ [a]" "if ll \<noteq> None \<or> take 8 a \<noteq> ll_prefix then ll else Some a" w1] a w1 show ?thesis
      by (cases ll) (auto intro: same_io_trans)
  next
    case False
    then have "addrs_of name (e # es) = addrs_of name es" "addrs_loop E (e # es) name acc ll w = ?skip w"
      by (cases "ifa_addr e"; auto simp: addrs_of_def)+
    then show ?thesis unfolding \<open>addrs_of name (e # es) = addrs_of name es\<close> by (simp only: Cons.IH)
  qed
qed

lemma get_iface_addrs_Inr:
  assumes "memory_available E"
  shows "\<exists>w'. get_iface_addrs E S name w =
    (let as = (case getifaddrs S (w_trace w) of None \<Rightarrow> [] | Some es \<Rightarrow> addrs_of name es);
         ll = find (\<lambda>a. take 8 a = ll_prefix) as
     in Inr (if ll = None then -1 else int (length as), ll, qsort_addrs as @ [replicate 16 0], w')) \<and> same_io w w'"
proof (cases "getifaddrs S (w_trace w)")
  case None
  then show ?thesis using grow_array_Inr [OF assms, of True w] by (auto simp: get_iface_addrs_def Let_def)
next
  case (Some es)
  obtain w1 where w1: "addrs_loop E es name [] None w =
      Inr (addrs_of name es, find (\<lambda>a. take 8 a = ll_prefix) (addrs_of name es), w1)" "same_io w w1"
    using addrs_loop_Inr [OF assms, of es name "[]" None w] by auto
  obtain w2 where "grow_array E (addrs_of name es = []) w1 = Inr w2" "same_io w1 w2"
    using grow_array_Inr [OF assms] by blast
  with w1 show ?thesis by (auto simp: get_iface_addrs_def Some Let_def intro: same_io_trans)
qed

subsection \<open>Lemmas on prefixes\<close>

declare decimal.simps [simp del]

lemma digit_char:
  assumes "n < 10"
  shows "(of_char (char_of (48 + n :: nat)) :: nat) = 48 + n" "is_digit (char_of (48 + n))"
  using assms by (simp_all add: is_digit_def)

lemma decimal_digits: "list_all is_digit (decimal n) \<and> decimal n \<noteq> []"
proof (induction n rule: decimal.induct)
  case (1 n)
  then show ?case by (subst decimal.simps, simp add: digit_char)+
qed

lemma digits_value_decimal: "digits_value (decimal n) = n"
proof (induction n rule: decimal.induct)
  case (1 n)
  then show ?case by (subst decimal.simps) (simp add: digits_value_def digit_char)
qed

lemma is_digit_cases:
  "is_digit c \<Longrightarrow> \<not> is_space c \<and> c \<noteq> CHR ''-'' \<and> c \<noteq> CHR ''+'' \<and> c \<noteq> CHR ''/''"
  by (auto simp: is_digit_def is_space_def)

text \<open>What follows the digits is ignored.\<close>

lemma strtoul_digits:
  assumes "list_all is_digit ds" "ds \<noteq> []" "junk \<noteq> [] \<longrightarrow> \<not> is_digit (hd junk)" "digits_value ds < 2 ^ 64"
  shows "strtoul (ds @ junk) = digits_value ds"
proof -
  obtain c cs where c: "ds = c # cs" "is_digit c" using assms(1,2) by (cases ds) auto
  have "takeWhile is_digit junk = []" using assms(3) by (cases junk) auto
  then have "takeWhile is_digit (ds @ junk) = ds" using assms(1) by (simp add: list_all_iff)
  then show ?thesis using c is_digit_cases [of c] assms(4) by (simp add: strtoul_def Let_def)
qed

lemma strtoul_decimal:
  assumes "n < 2 ^ 64"
  shows "strtoul (decimal n) = n"
  using strtoul_digits [of "decimal n" "[]"] decimal_digits [of n] digits_value_decimal [of n] assms by simp

lemma split_at:
  "x \<in> set s \<Longrightarrow> s = takeWhile (\<lambda>c. c \<noteq> x) s @ x # tl (dropWhile (\<lambda>c. c \<noteq> x) s)"
  by (induction s) auto

lemma split_at_eq:
  assumes "x \<notin> set a"
  shows "takeWhile (\<lambda>c. c \<noteq> x) (a @ x # b) = a" "dropWhile (\<lambda>c. c \<noteq> x) (a @ x # b) = x # b"
proof -
  have "\<forall>c \<in> set a. c \<noteq> x" using assms by auto
  then show "takeWhile (\<lambda>c. c \<noteq> x) (a @ x # b) = a" "dropWhile (\<lambda>c. c \<noteq> x) (a @ x # b) = x # b"
    by (induction a) auto
qed

lemma parse_split:
  assumes "CHR ''/'' \<notin> set ip" "CHR ''/'' \<notin> set num"
  shows "parse_ipv6_prefix S (ip @ CHR ''/'' # num) =
    (if length ip \<ge> 46 then Inl Out_of_bounds
     else case inet_pton S ip of None \<Rightarrow> Inr None
       | Some a \<Rightarrow> if strtoul num \<le> 255 then Inr (Some \<lparr>prefix = a, pfx_len = word_of_nat (strtoul num)\<rparr>) else Inr None)"
  using assms by (auto simp: parse_ipv6_prefix_def Let_def split_at_eq split: option.splits)

lemma parse_SomeE:
  assumes "parse_ipv6_prefix S str = Inr (Some p)"
  obtains ip num where "str = ip @ CHR ''/'' # num" "CHR ''/'' \<notin> set ip" "CHR ''/'' \<notin> set num"
proof -
  let ?P = "\<lambda>c. c \<noteq> CHR ''/''"
  have del: "dropWhile ?P str \<noteq> []" "CHR ''/'' \<notin> set (tl (dropWhile ?P str))"
    using assms by (auto simp: parse_ipv6_prefix_def Let_def split: if_splits)
  then have "CHR ''/'' \<in> set str" by (auto simp: dropWhile_eq_Nil_conv)
  note s = split_at [OF this]
  show ?thesis by (rule that [OF s _ del(2)]) (auto dest: set_takeWhileD)
qed

lemma parse_Some_iff:
  "parse_ipv6_prefix S str = Inr (Some p) \<longleftrightarrow>
   (\<exists>ip num. str = ip @ CHR ''/'' # num \<and> CHR ''/'' \<notin> set ip \<and> CHR ''/'' \<notin> set num \<and> length ip < 46 \<and>
      inet_pton S ip = Some (prefix p) \<and> strtoul num \<le> 255 \<and> unat (pfx_len p) = strtoul num)"
  (is "?l \<longleftrightarrow> ?r")
proof
  assume l: ?l
  then obtain ip num where s: "str = ip @ CHR ''/'' # num" "CHR ''/'' \<notin> set ip" "CHR ''/'' \<notin> set num"
    by (rule parse_SomeE)
  with l have "length ip < 46 \<and> inet_pton S ip = Some (prefix p) \<and> strtoul num \<le> 255 \<and> unat (pfx_len p) = strtoul num"
    by (auto simp: parse_split unsigned_of_nat take_bit_nat_eq_self split: if_splits option.splits)
  with s show ?r by blast
next
  assume ?r
  then obtain ip num where s: "str = ip @ CHR ''/'' # num" "CHR ''/'' \<notin> set ip" "CHR ''/'' \<notin> set num" "length ip < 46"
      "inet_pton S ip = Some (prefix p)" "strtoul num \<le> 255" "unat (pfx_len p) = strtoul num" by blast
  from s(7) have "pfx_len p = word_of_nat (strtoul num)" by (simp flip: s(7))
  with s show ?l by (simp add: parse_split)
qed

lemma parse_fault:
  "parse_ipv6_prefix S str = Inl f \<longleftrightarrow> f = Out_of_bounds \<and>
   (\<exists>ip num. str = ip @ CHR ''/'' # num \<and> CHR ''/'' \<notin> set ip \<and> CHR ''/'' \<notin> set num \<and> 46 \<le> length ip)"
  (is "?l \<longleftrightarrow> ?r")
proof
  assume l: ?l
  then have "CHR ''/'' \<in> set str" "CHR ''/'' \<notin> set (tl (dropWhile (\<lambda>c. c \<noteq> CHR ''/'') str))"
      "46 \<le> length (takeWhile (\<lambda>c. c \<noteq> CHR ''/'') str)" "f = Out_of_bounds"
    by (auto simp: parse_ipv6_prefix_def Let_def dropWhile_eq_Nil_conv split: if_splits option.splits)
  then show ?r using split_at [of "CHR ''/''" str] by (blast dest: set_takeWhileD)
qed (auto simp: parse_split)

subsection \<open>Properties\<close>

text \<open>
  C33: \<open>get_iface_addrs\<close> keeps what its comment promises. When memory is available, it stores
  the addresses of the named interface in ascending order followed by the unspecified
  address, hands out the first link-local address in the order of the host's list, and
  returns the number of addresses, or -1 when none of them is link-local.
\<close>

theorem get_iface_addrs_correct:
  assumes "memory_available E" "getifaddrs S (w_trace w) = Some es" "\<forall>a \<in> set (addrs_of name es). wf_addr a"
  shows "\<exists>rc ll sorted_as w'. get_iface_addrs E S name w = Inr (rc, ll, sorted_as @ [replicate 16 0], w') \<and>
    sorted sorted_as \<and> mset sorted_as = mset (addrs_of name es) \<and>
    ll = find (\<lambda>a. take 8 a = ll_prefix) (addrs_of name es) \<and>
    rc = (if ll = None then -1 else int (length sorted_as)) \<and> same_io w w'"
  using get_iface_addrs_Inr [OF assms(1), of S name w] assms(2) qsort_addrs_sort [OF assms(3)]
  by (auto simp: Let_def)

theorem get_iface_addrs_correct_witness:
  "\<exists>w'. get_iface_addrs env0 \<lparr>getifaddrs = \<lambda>_. Some [\<lparr>ifa_name = ''lo'', ifa_addr = Some (10, replicate 16 1)\<rparr>,
       \<lparr>ifa_name = ''wpan0'', ifa_addr = Some (10, ll_prefix @ replicate 8 2)\<rparr>], if_nametoindex = \<lambda>_. 1, inet_pton = \<lambda>_. None,
       link_reply = \<lambda>_. None, sys_random = \<lambda>_ _. 0\<rparr> ''wpan0'' world0 =
     Inr (1, Some (ll_prefix @ replicate 8 2), [ll_prefix @ replicate 8 2, replicate 16 0], w')"
proof -
  let ?es = "[\<lparr>ifa_name = ''lo'', ifa_addr = Some (10, replicate 16 1)\<rparr>,
       \<lparr>ifa_name = ''wpan0'', ifa_addr = Some (10, ll_prefix @ replicate 8 2)\<rparr>] :: ifaddrs_entry list"
  let ?S = "\<lparr>getifaddrs = \<lambda>_. Some ?es, if_nametoindex = \<lambda>_. 1, inet_pton = \<lambda>_. None,
       link_reply = \<lambda>_. None, sys_random = \<lambda>_ _. 0\<rparr> :: sys_api"
  let ?a = "ll_prefix @ replicate 8 2"
  have as: "addrs_of ''wpan0'' ?es = [?a]" by (simp add: addrs_of_def AF_INET6_def)
  have w: "\<forall>a \<in> set (addrs_of ''wpan0'' ?es). wf_addr a" unfolding as by (simp add: wf_addr_def ll_prefix_def)
  have find: "find (\<lambda>a. take 8 a = ll_prefix) [?a] = Some ?a" by (simp add: ll_prefix_def)
  from get_iface_addrs_correct [of env0 ?S world0 ?es "''wpan0''", OF env0_ok(1) _ w] obtain ss w' where
    "get_iface_addrs env0 ?S ''wpan0'' world0 = Inr (int (length ss), Some ?a, ss @ [replicate 16 0], w')" "mset ss = mset [?a]"
    unfolding as find by auto
  then show ?thesis by auto
qed

text \<open>
  C34: the strings that \<open>parse_ipv6_prefix\<close> accepts are exactly those of one slash with, before
  it, less than 46 characters that \<open>inet_pton\<close> takes for an address and, behind it, a text that
  \<open>strtoul\<close> reads as at most 255; the result is that address and that number. \<open>strtoul\<close> reads
  the digits at the start and ignores what follows, and reads nothing as 0: \<open>fd00::/64abc\<close>
  and \<open>fd00::/\<close> are accepted, and so are lengths above 128. With 46 or more characters before
  the only slash the copy of the address overruns its array; all other strings are refused.
\<close>

theorem parse_ipv6_prefix_accepts:
  "(parse_ipv6_prefix S str = Inr (Some p) \<longleftrightarrow>
     (\<exists>ip num. str = ip @ CHR ''/'' # num \<and> CHR ''/'' \<notin> set ip \<and> CHR ''/'' \<notin> set num \<and> length ip < 46 \<and>
        inet_pton S ip = Some (prefix p) \<and> strtoul num \<le> 255 \<and> unat (pfx_len p) = strtoul num)) \<and>
   (list_all is_digit ds \<and> ds \<noteq> [] \<and> (junk = [] \<or> \<not> is_digit (hd junk)) \<and> digits_value ds \<le> 255 \<longrightarrow>
     strtoul (ds @ junk) = digits_value ds) \<and> strtoul [] = 0 \<and>
   (parse_ipv6_prefix S str = Inl f \<longleftrightarrow> f = Out_of_bounds \<and>
     (\<exists>ip num. str = ip @ CHR ''/'' # num \<and> CHR ''/'' \<notin> set ip \<and> CHR ''/'' \<notin> set num \<and> 46 \<le> length ip))"
  using parse_Some_iff [of S str p] parse_fault [of S str f] strtoul_digits [of ds junk] by (auto simp: strtoul_def digits_value_def)

text \<open>
  A prefix written as address, slash and decimal length is read back, for every length a
  prefix can have.
\<close>

lemma parse_printed_prefix:
  assumes "inet_pton S ip = Some (prefix p)" "length ip < 46" "CHR ''/'' \<notin> set ip"
  shows "parse_ipv6_prefix S (ip @ ''/'' @ decimal (unat (pfx_len p))) = Inr (Some p)"
proof -
  have "CHR ''/'' \<notin> set (decimal n)" for n using decimal_digits [of n] is_digit_cases by (auto simp: list_all_iff)
  moreover have "strtoul (decimal (unat (pfx_len p))) = unat (pfx_len p)"
    using unat_u8_less [of "pfx_len p"] by (intro strtoul_decimal) simp
  ultimately show ?thesis using assms unat_u8_less [of "pfx_len p"] by (simp add: parse_split)
qed

end
