(* ===== verification/Recv.thy ===== *)
theory Recv
  imports Process
begin

section \<open>recv.c: one datagram and its control messages\<close>

text \<open>
  \<open>recvmsg\<close> is the kernel's: what one call delivers is a record (its return value, the
  receive buffer afterwards, the source address, the control messages in order). Of a
  control message the code reads the level, the type, the length, and the data as an \<open>int\<close>
  or as a \<open>struct in6_pktinfo\<close>. The loop stops at the first control message it finds bogus.
\<close>

record cmsghdr =
  cmsg_level :: int
  cmsg_type :: int
  cmsg_len :: nat
  cmsg_int :: int
  cmsg_ifindex :: u32

record recvmsg_result =
  rm_len :: int
  rm_buf :: bytes
  rm_from :: in6_addr
  rm_cmsgs :: "cmsghdr list"

definition MSG_SIZE_RECV :: nat where "MSG_SIZE_RECV = 1500"
definition IPPROTO_IPV6 :: int where "IPPROTO_IPV6 = 41"
definition IPV6_PKTINFO :: int where "IPV6_PKTINFO = 50"
definition IPV6_HOPLIMIT :: int where "IPV6_HOPLIMIT = 52"

text \<open>The length of a control message with \<open>n\<close> bytes of data, header included, on a 64-bit host.\<close>

definition CMSG_LEN :: "nat \<Rightarrow> nat" where
  "CMSG_LEN n = 16 + n"

text \<open>The loop over the control messages; \<open>False\<close> is the return of -1.\<close>

fun cmsg_loop :: "cmsghdr list \<Rightarrow> int \<Rightarrow> u32 option \<Rightarrow> bool \<times> int \<times> u32 option" where
  "cmsg_loop [] hoplimit pkt_info = (True, hoplimit, pkt_info)"
| "cmsg_loop (c # cs) hoplimit pkt_info =
     (if cmsg_level c \<noteq> IPPROTO_IPV6 then cmsg_loop cs hoplimit pkt_info
      else if cmsg_type c = IPV6_HOPLIMIT then
        (if cmsg_len c = CMSG_LEN 4 \<and> cmsg_int c \<ge> 0 \<and> cmsg_int c < 256
         then cmsg_loop cs (cmsg_int c) pkt_info else (False, hoplimit, pkt_info))
      else if cmsg_type c = IPV6_PKTINFO then
        (if cmsg_len c = CMSG_LEN 20 \<and> cmsg_ifindex c \<noteq> 0
         then cmsg_loop cs hoplimit (Some (cmsg_ifindex c)) else (False, hoplimit, pkt_info))
      else cmsg_loop cs hoplimit pkt_info)"

text \<open>The return value, \<open>*hoplimit\<close> (not assigned when \<open>recvmsg\<close> fails), \<open>*pkt_info\<close>.\<close>

definition recv_rs_ra :: "recvmsg_result \<Rightarrow> int \<times> int option \<times> u32 option" where
  "recv_rs_ra r =
     (if rm_len r < 0 then (rm_len r, None, None)
      else (let (ok, hoplimit, pkt_info) = cmsg_loop (rm_cmsgs r) 255 None
            in (if ok then rm_len r else -1, Some hoplimit, pkt_info)))"

text \<open>What the kernel promises of a call with this buffer.\<close>

definition recv_wf :: "recvmsg_result \<Rightarrow> bool" where
  "recv_wf r \<longleftrightarrow> length (rm_buf r) = MSG_SIZE_RECV \<and> rm_len r \<le> int MSG_SIZE_RECV \<and> wf_addr (rm_from r)"

subsection \<open>Lemmas\<close>

lemma cmsg_loop_hoplimit:
  "cmsg_loop cs h p = (ok, h', p') \<Longrightarrow> 0 \<le> h \<Longrightarrow> h < 256 \<Longrightarrow> 0 \<le> h' \<and> h' < 256"
  by (induction cs h p rule: cmsg_loop.induct) (auto split: if_splits)

lemma cmsg_loop_ifindex:
  "cmsg_loop cs h p = (ok, h', p') \<Longrightarrow> p \<noteq> Some 0 \<Longrightarrow> p' \<noteq> Some 0"
  by (induction cs h p rule: cmsg_loop.induct) (auto split: if_splits)

text \<open>
  What \<open>recv_rs_ra\<close> delivers: a hop limit between 0 and 255, an interface index that is
  not 0, and a length that is the kernel's or -1.
\<close>

lemma recv_rs_ra_sane:
  assumes "recv_rs_ra r = (len, hoplimit, pkt_info)"
  shows "(len = rm_len r \<or> len = -1) \<and> pkt_info \<noteq> Some 0 \<and> (\<forall>h. hoplimit = Some h \<longrightarrow> 0 \<le> h \<and> h < 256) \<and>
    (rm_len r < 0 \<longrightarrow> len < 0 \<and> pkt_info = None)"
proof -
  obtain ok h p where c: "cmsg_loop (rm_cmsgs r) 255 None = (ok, h, p)" by (metis prod_cases3)
  from cmsg_loop_hoplimit [OF c] cmsg_loop_ifindex [OF c] assms c show ?thesis
    by (auto simp: recv_rs_ra_def split: if_splits)
qed

end
