(* ===== verification/Dio_Handler.thy ===== *)
theory Dio_Handler
  imports Iface_Invariant
begin

section \<open>What process_dio does\<close>

text \<open>
  The handler of DIO messages on the table of dags and on the outside world: which messages it
  accepts, what it does to the dag they are about, that it keeps the invariant of the
  interface, that it returns, and what becomes of a DIO built by \<open>dag_build_dio\<close>.
\<close>

subsection \<open>Definitions\<close>

definition all_netlink :: "event list \<Rightarrow> bool" where
  "all_netlink es \<longleftrightarrow> (\<forall>e \<in> set es. \<exists>m. e = Netlink m)"

definition join_parent :: "dag \<Rightarrow> in6_addr \<Rightarrow> u16 \<Rightarrow> dag" where
  "join_parent d from1 rank =
     d\<lparr>parent := Some \<lparr>peer_addr = (case parent d of None \<Rightarrow> from1 | Some pe \<Rightarrow> peer_addr pe), peer_rank = rank\<rparr>,
       my_rank := rank + 1\<rparr>"

definition rank_accepted :: "dag \<Rightarrow> u16 \<Rightarrow> bool" where
  "rank_accepted d rank \<longleftrightarrow> (case parent d of None \<Rightarrow> True | Some pe \<Rightarrow> rank \<le> peer_rank pe)"

definition dio_result :: "env \<Rightarrow> dag \<Rightarrow> in6_addr \<Rightarrow> u16 \<Rightarrow> in6_addr \<Rightarrow> dag \<Rightarrow> bool" where
  "dio_result E d from1 rank a d' \<longleftrightarrow> wf_addr a \<and> dao_sent E ((join_parent d from1 rank)\<lparr>self := a\<rparr>) d'"

text \<open>
  The dag a DIO is about: the known one (not at its root), or a fresh one with the prefix of
  the option. \<open>dio_found\<close> is the state in which the handler holds a pointer to it.
\<close>

definition dio_key :: "nd_rpl_dio \<Rightarrow> u8 \<times> in6_addr" where
  "dio_key dio = (dio_instanceid dio, dio_dagid dio)"

definition dio_subject :: "env \<Rightarrow> iface \<Rightarrow> nd_rpl_dio \<Rightarrow> bytes \<Rightarrow> nat \<Rightarrow> dag \<Rightarrow> bool" where
  "dio_subject E i dio msg n d \<longleftrightarrow>
     (case dag_table i (dio_key dio) of
        Some d0 \<Rightarrow> d = d0 \<and> my_rank d \<noteq> 1
      | None \<Rightarrow> \<exists>pfx. read_destprefix E msg n = Inr (Inr pfx) \<and>
          d = fresh_dag (dio_dagid dio) 0xffff (dio_version dio) pfx)"

definition dio_timer :: "iface \<Rightarrow> u8 \<times> in6_addr \<Rightarrow> event list" where
  "dio_timer i k = (case dag_table i k of
     None \<Rightarrow> [Ev_timer_start (Trickle_w (ifindex i) (fst k) (snd k)) DEFAULT_TICKLE_T DEFAULT_TICKLE_T]
   | Some _ \<Rightarrow> [])"

definition dio_found :: "env \<Rightarrow> iface \<Rightarrow> nd_rpl_dio \<Rightarrow> bytes \<Rightarrow> nat \<Rightarrow> world \<Rightarrow> dag_ptr \<Rightarrow> iface \<Rightarrow> world \<Rightarrow> bool"
where
  "dio_found E i dio msg n w p i' w' \<longleftrightarrow> i' = i\<lparr>rpls := rpls i'\<rparr> \<and> keys_inv i' \<and>
     (dag_table i (dio_key dio) \<noteq> None \<longrightarrow> i' = i \<and> w' = w) \<and>
     lookup_key i' (dio_key dio) = Inr (Some p) \<and> dio_subject E i dio msg n (get_dag i' p) \<and>
     dag_table i' = (dag_table i)(dio_key dio \<mapsto> get_dag i' p) \<and>
     w_trace w' = w_trace w @ dio_timer i (dio_key dio)"

text \<open>One accepted DIO, on the table of dags and the trace.\<close>

definition dio_accepted :: "env \<Rightarrow> iface \<Rightarrow> nd_rpl_dio \<Rightarrow> bytes \<Rightarrow> nat \<Rightarrow> in6_addr \<Rightarrow> world
    \<Rightarrow> dag \<Rightarrow> dag \<Rightarrow> iface \<Rightarrow> world \<Rightarrow> bool" where
  "dio_accepted E i dio msg n from1 w d d' i' w' \<longleftrightarrow>
     dio_subject E i dio msg n d \<and> wf_dag d \<and> rank_accepted d (ntohs (dio_dagrank dio)) \<and>
     keys_inv i' \<and> dag_table i' = (dag_table i)(dio_key dio \<mapsto> d') \<and> llinfo i' = llinfo i \<and>
     ifaddr_src i' = ifaddr_src i \<and> ifindex i' = ifindex i \<and>
     (\<exists>a es. dio_result E d from1 (ntohs (dio_dagrank dio)) a d' \<and> all_netlink es \<and>
       w_trace w' = w_trace w @ dio_timer i (dio_key dio) @ es @
         [Sendmsg (icmp_call i (the (ifaddr_src i)) (peer_addr (the (parent d')))
           (dao_message (fst (dio_key dio)) ((join_parent d from1 (ntohs (dio_dagrank dio)))\<lparr>self := a\<rparr>)))])"

definition dao_fits :: "dag \<Rightarrow> bool" where
  "dao_fits d \<longleftrightarrow> 44 + 20 * length (childs d) \<le> 64 * 1024"

text \<open>What a receiver that does not know the dag yet makes of the sender's dag.\<close>

definition joined_dag :: "dag \<Rightarrow> in6_addr \<Rightarrow> dag \<Rightarrow> bool" where
  "joined_dag d from1 d' \<longleftrightarrow> dodagid d' = dodagid d \<and> version d' = version d \<and>
     pfx_len (dest d') = pfx_len (dest d) \<and>
     take (unat (bits_to_bytes (pfx_len (dest d)))) (prefix (dest d')) =
     take (unat (bits_to_bytes (pfx_len (dest d)))) (prefix (dest d)) \<and>
     parent d' = Some \<lparr>peer_addr = from1, peer_rank = my_rank d\<rparr> \<and> my_rank d' = my_rank d + 1 \<and> childs d' = []"

subsection \<open>Lemmas\<close>

lemma gen_stateless_addr_no_fault:
  assumes "wf_prefix p" "addr_len ll = 8 \<longrightarrow> (\<exists>a. ll_addr ll = Some a \<and> length a = 8)"
  shows "\<exists>rc a. gen_stateless_addr p ll = Inr (rc, a) \<and> wf_addr a"
proof (cases "pfx_len p = 64 \<and> addr_len ll = 8")
  case True
  then obtain a where "ll_addr ll = Some a" "length a = 8" using assms(2) by auto
  with True assms(1) show ?thesis by (auto simp: gen_stateless_addr_Inr wf_prefix_def wf_addr_def)
next
  case False
  then show ?thesis by (auto simp: gen_stateless_addr_unsupported wf_addr_def)
qed

lemma nl_requests_world:
  "nl_add_addr E ifi a w = (rc, w') \<Longrightarrow> \<exists>m. w_trace w' = w_trace w @ [Netlink m] \<and> w_live w' = w_live w"
  "nl_del_route_via E ifi dst via w = (rc, w') \<Longrightarrow> \<exists>m. w_trace w' = w_trace w @ [Netlink m] \<and> w_live w' = w_live w"
  using nl_talk_world [of E "addr_request (sys_time E (w_trace w)) ifi a" w]
    nl_talk_world [of E "del_route_request (sys_time E (w_trace w)) ifi dst via" w]
  by (auto simp: nl_request_defs)

lemma dag_process_dio_Inr:
  assumes "wf_prefix (dest (get_dag i p))" "ll_ok i"
  shows "\<exists>i' w' es. dag_process_dio E i p w = Inr (i', w') \<and> all_netlink es \<and>
    w_trace w' = w_trace w @ es \<and> w_live w' = w_live w \<and>
    (i' = i \<or> (\<exists>a. wf_addr a \<and> i' = upd_dag i p (\<lambda>d. d\<lparr>self := a\<rparr>)))"
proof -
  obtain rc a where g: "gen_stateless_addr (dest (get_dag i p)) (llinfo i) = Inr (rc, a)" "wf_addr a"
    using gen_stateless_addr_no_fault [of "dest (get_dag i p)" "llinfo i"] assms by (auto simp: ll_ok_def)
  obtain rc1 w1 where n1: "nl_add_addr E (ifindex i) a w = (rc1, w1)" by force
  obtain rc2 w2 where n2: "nl_del_route_via E (ifindex i) (dest (get_dag i p)) None w1 = (rc2, w2)" by force
  show ?thesis
    using g nl_requests_world(1) [OF n1] nl_requests_world(2) [OF n2]
    by (auto simp: dag_process_dio_def n1 n2 Let_def all_netlink_def)
qed

lemma dao_sent_simps:
  assumes "dao_sent E d d'"
  shows "dodagid d' = dodagid d" "dest d' = dest d" "my_rank d' = my_rank d" "parent d' = parent d"
    "self d' = self d" "childs d' = childs d" "version d' = version d" "dtsn d' = dtsn d" "dsn d' = dsn d + 1"
    "trickle_t d' = trickle_t d"
  using assms by (auto simp: dao_sent_def)

lemma join_parent_simps [simp]:
  "dodagid (join_parent d f r) = dodagid d" "dest (join_parent d f r) = dest d"
  "my_rank (join_parent d f r) = r + 1" "self (join_parent d f r) = self d"
  "childs (join_parent d f r) = childs d" "version (join_parent d f r) = version d"
  "dtsn (join_parent d f r) = dtsn d" "dsn (join_parent d f r) = dsn d"
  "pending_acks (join_parent d f r) = pending_acks d"
  "parent (join_parent d f r) = Some \<lparr>peer_addr = (case parent d of None \<Rightarrow> f | Some pe \<Rightarrow> peer_addr pe), peer_rank = r\<rparr>"
  by (simp_all add: join_parent_def)

lemma wf_join_parent: "wf_dag d \<Longrightarrow> wf_addr f \<Longrightarrow> wf_dag (join_parent d f r)"
  by (auto simp: wf_dag_def split: option.splits)

text \<open>The part of the handler behind the rank test.\<close>

lemma dio_update_accepted:
  assumes "rank_accepted (get_dag i p) rank" "valid_dag i p"
  shows "(\<exists>w1. same_io w w1 \<and> w_live w1 = w_live w + (if parent (get_dag i p) = None then 1 else 0) \<and>
      dio_update_dag E i p rank from1 w =
      bind_res (dag_process_dio E (upd_dag i p (\<lambda>d. join_parent d from1 rank)) p w1) (\<lambda>(i, w).
        case parent (get_dag i p) of None \<Rightarrow> Inr (Dio_done, i, w)
        | Some pe \<Rightarrow> bind_res (send_dao E i (peer_addr pe) p w) (\<lambda>(i, w). Inr (Dio_done, i, w))))
    \<or> parent (get_dag i p) = None \<and> \<not> memory_available E \<and>
      (\<exists>w1. dio_update_dag E i p rank from1 w = Inr (Dio_no_peer, upd_dag i p (\<lambda>d. d\<lparr>parent := None\<rparr>), w1))"
proof (cases "parent (get_dag i p)")
  case None
  have le: "\<not> (0xffff :: u16) < rank" by (simp add: not_less word_le_nat_alt) (use unat_u16_less [of rank] in simp)
  have jp: "upd_dag i p ((\<lambda>d. d\<lparr>parent := Some \<lparr>peer_addr = from1, peer_rank = rank\<rparr>, my_rank := rank + 1\<rparr>) \<circ> (\<lambda>d. d\<lparr>parent := Some q\<rparr>))
     = upd_dag i p (\<lambda>d. join_parent d from1 rank)" for q
    using None by (simp add: upd_dag_def join_parent_def)
  show ?thesis
  proof (cases "alloc_ok E (w_allocs w)")
    case True
    then show ?thesis using None assms(2) le jp
      by (intro disjI1 exI [of _ "snd (alloc E w)"])
         (simp add: dio_update_dag_def dag_peer_create_def alloc_def Let_def same_io_def)
  next
    case False
    then show ?thesis using None assms(2)
      by (auto simp: dio_update_dag_def dag_peer_create_def alloc_def Let_def memory_available_def)
  qed
next
  case (Some pe)
  have "upd_dag i p (\<lambda>d. d\<lparr>parent := Some (pe\<lparr>peer_rank := rank\<rparr>), my_rank := rank + 1\<rparr>)
      = upd_dag i p (\<lambda>d. join_parent d from1 rank)"
    using Some by (cases pe) (simp add: upd_dag_def join_parent_def)
  moreover have "\<not> peer_rank pe < rank" using Some assms(1) by (simp add: rank_accepted_def not_less)
  ultimately show ?thesis using Some assms(2)
    by (intro disjI1 exI [of _ w]) (simp add: dio_update_dag_def Let_def)
qed

lemma dio_update_rejected:
  assumes "\<not> rank_accepted (get_dag i p) rank"
  shows "dio_update_dag E i p rank from1 w = Inr (Dio_rank_too_high, i, w)"
  using assms by (auto simp: dio_update_dag_def rank_accepted_def Let_def split: option.splits)

lemma self_update_id [simp]: "d\<lparr>self := self d\<rparr> = d"
  by simp

lemma dio_update_done:
  assumes acc: "rank_accepted (get_dag i p) rank" and inv: "keys_inv i" and k: "lookup_key i k = Inr (Some p)"
    and wf: "wf_dag (get_dag i p)" "wf_addr from1" "ll_ok i" "ifaddr_src i = Some src"
    and ok: "dio_update_dag E i p rank from1 w = Inr (Dio_done, i', w')"
  shows "\<exists>a d' es. dio_result E (get_dag i p) from1 rank a d' \<and>
    keys_inv i' \<and> (\<forall>k. lookup_key i' k = lookup_key i k) \<and> dag_table i' = (dag_table i)(k \<mapsto> d') \<and>
    llinfo i' = llinfo i \<and> ifaddr_src i' = ifaddr_src i \<and> ifindex i' = ifindex i \<and> all_netlink es \<and>
    w_trace w' = w_trace w @ es @ [Sendmsg (icmp_call i src (peer_addr (the (parent d')))
      (dao_message (fst k) ((join_parent (get_dag i p) from1 rank)\<lparr>self := a\<rparr>)))] \<and>
    i' = upd_dag i p (\<lambda>_. d') \<and> w_live w' = w_live w + (if parent (get_dag i p) = None then 1 else 0) +
      (int (length (pending_acks d')) - int (length (pending_acks (get_dag i p))))"
proof -
  let ?d = "get_dag i p" and ?i1 = "upd_dag i p (\<lambda>d. join_parent d from1 rank)"
  have p: "valid_dag i p" "dag_key i p = k" using k inv by (auto simp: lookup_key_iff)
  have live: "\<not> rpl_freed (rpls i ! fst p)" using inv p(1) by (simp add: keys_inv_def valid_dag_def)
  obtain w1 where io: "same_io w w1" "w_live w1 = w_live w + (if parent ?d = None then 1 else 0)" and ok1: "bind_res (dag_process_dio E ?i1 p w1) (\<lambda>(i, w).
        case parent (get_dag i p) of None \<Rightarrow> Inr (Dio_done, i, w)
        | Some pe \<Rightarrow> bind_res (send_dao E i (peer_addr pe) p w) (\<lambda>(i, w). Inr (Dio_done, i, w)))
      = Inr (Dio_done, i', w')"
    using dio_update_accepted [OF acc p(1), of w E from1] ok by auto
  have g1: "get_dag ?i1 p = join_parent ?d from1 rank" using p(1) by simp
  obtain i2 w2 es a where d: "dag_process_dio E ?i1 p w1 = Inr (i2, w2)" "all_netlink es"
      "w_trace w2 = w_trace w1 @ es" "w_live w2 = w_live w1" and a: "wf_addr a"
      "i2 = upd_dag i p (\<lambda>d. (join_parent d from1 rank)\<lparr>self := a\<rparr>)"
  proof -
    have "wf_prefix (dest (get_dag ?i1 p))" "ll_ok ?i1" using wf g1 by (auto simp: wf_dag_def ll_ok_def)
    from dag_process_dio_Inr [OF this, of E w1] obtain i2 w2 es where
      *: "dag_process_dio E ?i1 p w1 = Inr (i2, w2)" "all_netlink es" "w_trace w2 = w_trace w1 @ es" "w_live w2 = w_live w1"
        "i2 = ?i1 \<or> (\<exists>a. wf_addr a \<and> i2 = upd_dag ?i1 p (\<lambda>d. d\<lparr>self := a\<rparr>))" by auto
    from *(5) show thesis
    proof
      assume "i2 = ?i1"
      moreover have "?i1 = upd_dag i p (\<lambda>d. (join_parent d from1 rank)\<lparr>self := self ?d\<rparr>)"
        by (simp add: upd_dag_def join_parent_def)
      ultimately show thesis using that * wf(1) by (auto simp: wf_dag_def)
    next
      assume "\<exists>a. wf_addr a \<and> i2 = upd_dag ?i1 p (\<lambda>d. d\<lparr>self := a\<rparr>)"
      then show thesis using that * p(1) by (auto simp: o_def)
    qed
  qed
  let ?d2 = "(join_parent ?d from1 rank)\<lparr>self := a\<rparr>"
  have g2: "get_dag i2 p = ?d2" using a p(1) by simp
  obtain pe where pe: "parent ?d2 = Some pe" by simp
  have s: "send_dao E i2 (peer_addr pe) p w2 = Inr (i', w')"
    using ok1 d(1) g2 pe by (auto elim!: bind_resE)
  have wf2: "wf_dag ?d2" using wf_join_parent [OF wf(1,2), of rank] a(1) by (auto simp: wf_dag_def)
  obtain d' where d': "dao_sent E ?d2 d'" "i' = upd_dag i2 p (\<lambda>_. d')"
      "w_trace w' = w_trace w2 @ [Sendmsg (icmp_call i2 src (peer_addr pe) (dao_message (fst k) ?d2))]"
      "w_live w' = w_live w2 + (int (length (pending_acks d')) - int (length (pending_acks ?d2)))"
    using send_dao_InrD [OF s, of src] g2 wf2 live p(2) wf(4) a(2) by (auto simp: dag_key_def)
  have i': "i' = upd_dag i p (\<lambda>_. d')" using d'(2) a(2) p(1) by (simp add: o_def)
  have dd: "dodagid d' = dodagid ?d" "parent d' = Some pe" using dao_sent_simps [OF d'(1)] pe by auto
  have "dio_result E ?d from1 rank a d'" using d'(1) a(1) by (simp add: dio_result_def)
  moreover have "icmp_call i2 = icmp_call i" using a(2) by (simp add: icmp_call_def fun_eq_iff)
  ultimately show ?thesis
    using ds.upd_store [OF inv k, of "\<lambda>_. d'"] dd i' d d'(3,4) io
    by (intro exI [of _ a] exI [of _ d'] exI [of _ es]) (auto simp: same_io_def)
qed

text \<open>The prefix option of a DIO as the handler reads it.\<close>

lemma read_destprefix_wf:
  assumes "read_destprefix E msg n = Inr (Inr pfx)" "length (stack_junk E) = 16"
  shows "wf_prefix pfx \<and> unat (pfx_len pfx) \<le> 128"
proof -
  from assms(1) obtain plen bs m where r: "mem_read msg 32 (unat (bits_to_bytes plen)) = Inr bs"
      "mem_write (stack_junk E) 0 bs = Inr m" "pfx = \<lparr>prefix = m, pfx_len = plen\<rparr>"
    by (auto simp: read_destprefix_def Let_def split: if_splits elim!: bind_resE)
  have "(unat plen + 7) div 8 \<le> 16"
    using r(2) length_mem_read [OF r(1)] assms(2)
    by (auto simp: mem_write_def unat_bits_to_bytes split: if_splits)
  then show ?thesis
    using r(3) length_mem_write [OF r(2)] assms(2) by (simp add: wf_prefix_def wf_addr_def)
qed

lemma fresh_dag_simps [simp]:
  "my_rank (fresh_dag did rank ver dst) = rank" "parent (fresh_dag did rank ver dst) = None"
  "dodagid (fresh_dag did rank ver dst) = did" "dest (fresh_dag did rank ver dst) = dst"
  "version (fresh_dag did rank ver dst) = ver" "childs (fresh_dag did rank ver dst) = []"
  "self (fresh_dag did rank ver dst) = replicate 16 0" "pending_acks (fresh_dag did rank ver dst) = []"
  by (simp_all add: fresh_dag_def)

lemma wf_fresh_dag:
  "wf_addr did \<Longrightarrow> wf_prefix dst \<Longrightarrow> unat (pfx_len dst) \<le> 128 \<Longrightarrow> wf_dag (fresh_dag did rank ver dst)"
  by (simp add: wf_dag_def wf_addr_def)

lemma rank_ok_dio_result: "dio_result E d from1 rank a d' \<Longrightarrow> rank_ok d'"
  by (auto simp: dio_result_def rank_ok_def dao_sent_simps)

lemma wf_dio_result:
  assumes "dio_result E d from1 rank a d'" "wf_dag d" "wf_addr from1"
  shows "wf_dag d'"
proof -
  have "wf_dag ((join_parent d from1 rank)\<lparr>self := a\<rparr>)"
    using wf_join_parent [OF assms(2,3), of rank] assms(1) by (simp add: wf_dag_def dio_result_def)
  then show ?thesis
    using dao_sent_simps [of E _ d'] assms(1) by (auto simp: wf_dag_def dio_result_def)
qed

lemma dio_find_dag_spec:
  assumes mem: "memory_available E" and inv: "keys_inv i"
    and ok: "dio_find_dag E i dio msg n w = Inr (r, i', w')"
  shows "(\<exists>ex. r = Inl ex \<and> ex \<noteq> Dio_done \<and> i' = i \<and> w' = w \<and> \<not> (\<exists>d. dio_subject E i dio msg n d)) \<or>
    (\<exists>p. r = Inr p \<and> dio_found E i dio msg n w p i' w')"
proof -
  let ?k = "dio_key dio"
  obtain f where f: "lookup_key i ?k = Inr f" using lookup_key_no_fault [OF inv] by blast
  then have dl: "dag_lookup i (dio_instanceid dio) (dio_dagid dio) = Inr f" by (simp add: lookup_key_def dio_key_def)
  show ?thesis
  proof (cases f)
    case (Some p)
    then have t: "dag_table i ?k = Some (get_dag i p)" using ds.present [OF inv] f by simp
    show ?thesis
    proof (cases "my_rank (get_dag i p) = 1")
      case True
      then show ?thesis using ok dl Some t by (auto simp: dio_find_dag_def dio_subject_def)
    next
      case False
      have "dag_table i = (dag_table i)(?k \<mapsto> get_dag i p)" using t by auto
      moreover have "r = Inr p" "i' = i" "w' = w" using False ok dl Some by (auto simp: dio_find_dag_def)
      ultimately show ?thesis using False inv f t Some
        by (auto simp: dio_found_def dio_subject_def dio_timer_def)
    qed
  next
    case None
    then have t: "dag_table i ?k = None" using ds.absent_iff [OF inv] f by simp
    from ok dl None obtain q where q: "read_destprefix E msg n = Inr q"
      by (auto simp: dio_find_dag_def elim!: bind_resE)
    show ?thesis
    proof (cases q)
      case (Inl ex)
      moreover have "ex \<noteq> Dio_done"
        using q Inl by (auto simp: read_destprefix_def Let_def bind_res_Inr_iff split: if_splits)
      ultimately show ?thesis using ok dl None q t by (auto simp: dio_find_dag_def dio_subject_def)
    next
      case (Inr pfx)
      from dag_create_Inr [OF inv, of "dio_instanceid dio" "dio_dagid dio" E DEFAULT_TICKLE_T
          "0xffff" "dio_version dio" pfx w] f None mem dio_key_def [of dio]
      obtain p rs w1 where c: "dag_create E i (dio_instanceid dio) (dio_dagid dio) DEFAULT_TICKLE_T
            0xffff (dio_version dio) (Some pfx) w = Inr (Some p, i\<lparr>rpls := rs\<rparr>, w1)"
          "keys_inv (i\<lparr>rpls := rs\<rparr>)" "lookup_key (i\<lparr>rpls := rs\<rparr>) ?k = Inr (Some p)"
          "dag_table (i\<lparr>rpls := rs\<rparr>) = (dag_table i)(?k \<mapsto> fresh_dag (dio_dagid dio) 0xffff (dio_version dio) pfx)"
          "w_trace w1 = w_trace w @ dio_timer i ?k"
        using t by (auto simp: dio_timer_def)
      then have "get_dag (i\<lparr>rpls := rs\<rparr>) p = fresh_dag (dio_dagid dio) 0xffff (dio_version dio) pfx"
        using ds.present [OF c(2,3)] by simp
      then show ?thesis using ok dl None q Inr c t
        by (auto simp: dio_find_dag_def dio_found_def dio_subject_def simp del: split_paired_Ex split_paired_All)
    qed
  qed
qed

lemma dio_subject_wf:
  assumes "dio_subject E i dio msg n d" "length (stack_junk E) = 16" "iface_ok i" "wf_addr (dio_dagid dio)"
  shows "wf_dag d \<and> rank_ok d"
proof (cases "dag_table i (dio_key dio)")
  case None
  then obtain pfx where "read_destprefix E msg n = Inr (Inr pfx)"
      "d = fresh_dag (dio_dagid dio) 0xffff (dio_version dio) pfx"
    using assms(1) by (auto simp: dio_subject_def)
  then show ?thesis
    using read_destprefix_wf [OF _ assms(2)] assms(4) by (simp add: wf_fresh_dag rank_ok_def)
next
  case (Some d0)
  then have "d \<in> ran (dag_table i)" using assms(1) by (auto simp: dio_subject_def intro: ranI)
  then show ?thesis using assms(3) by (simp add: iface_ok_def)
qed

lemma dio_update_not_done:
  assumes "memory_available E" "valid_dag i p" "dio_update_dag E i p rank from1 w = Inr (ex, i', w')" "ex \<noteq> Dio_done"
  shows "\<not> rank_accepted (get_dag i p) rank \<and> i' = i \<and> w' = w"
proof (cases "rank_accepted (get_dag i p) rank")
  case True
  from dio_update_accepted [OF True assms(2), of w E from1] assms(1) obtain w1 where
    eq: "dio_update_dag E i p rank from1 w =
      bind_res (dag_process_dio E (upd_dag i p (\<lambda>d. join_parent d from1 rank)) p w1) (\<lambda>(i, w).
        case parent (get_dag i p) of None \<Rightarrow> Inr (Dio_done, i, w)
        | Some pe \<Rightarrow> bind_res (send_dao E i (peer_addr pe) p w) (\<lambda>(i, w). Inr (Dio_done, i, w)))" by auto
  show ?thesis using assms(3,4) unfolding eq by (auto elim!: bind_resE split: option.splits)
next
  case False
  with dio_update_rejected [OF False, of E from1 w] assms show ?thesis by auto
qed

lemma process_dio_InrE:
  assumes "process_dio E i msg len from1 w = Inr (ex, i', w')"
  obtains "ex = Dio_length_mismatch" "i' = i" "w' = w" "len < 24"
  | f i1 w1 where "24 \<le> length msg" "24 \<le> len"
      "dio_find_dag E i (nd_rpl_dio_of (take 24 msg)) msg (len - 24) w = Inr (f, i1, w1)"
      "(case f of Inl ex \<Rightarrow> Inr (ex, i1, w1)
        | Inr p \<Rightarrow> dio_update_dag E i1 p (ntohs (dio_dagrank (nd_rpl_dio_of (take 24 msg)))) from1 w1) = Inr (ex, i', w')"
  using assms
  by (auto simp: process_dio_def Let_def mem_read_def elim!: bind_resE split: if_splits)

lemma process_dio_spec:
  assumes mem: "memory_available E" and junk: "length (stack_junk E) = 16" and ok: "iface_ok i"
    and from1: "wf_addr from1" and run: "process_dio E i msg len from1 w = Inr (ex, i', w')"
  shows "ex \<noteq> Dio_done \<and> i' = i \<and> w' = w \<and>
      (24 \<le> len \<longrightarrow> (\<forall>d. dio_subject E i (nd_rpl_dio_of (take 24 msg)) msg (len - 24) d \<longrightarrow>
        \<not> rank_accepted d (ntohs (dio_dagrank (nd_rpl_dio_of (take 24 msg)))))) \<or>
    ex = Dio_done \<and> (\<exists>d d'. dio_accepted E i (nd_rpl_dio_of (take 24 msg)) msg (len - 24) from1 w d d' i' w')"
  using run
proof (cases rule: process_dio_InrE)
  case (2 f i1 w1)
  let ?dio = "nd_rpl_dio_of (take 24 msg)"
  have inv: "keys_inv i" "ll_ok i" and src: "ifaddr_src i = Some (the (ifaddr_src i))"
    using ok by (auto simp: iface_ok_def)
  have did: "wf_addr (dio_dagid ?dio)" using 2(1) by (simp add: nd_rpl_dio_of_def wf_addr_def)
  show ?thesis
  proof (cases f)
    case (Inl a)
    then show ?thesis using 2 dio_find_dag_spec [OF mem inv(1) 2(3)] by auto
  next
    case (Inr p)
    with dio_find_dag_spec [OF mem inv(1) 2(3)] have fd: "dio_found E i ?dio msg (len - 24) w p i1 w1" by auto
    have upd: "dio_update_dag E i1 p (ntohs (dio_dagrank ?dio)) from1 w1 = Inr (ex, i', w')" using 2(4) Inr by simp
    have wf: "wf_dag (get_dag i1 p)" using fd dio_subject_wf [OF _ junk ok did] by (auto simp: dio_found_def)
    have p: "valid_dag i1 p" using fd by (auto simp: dio_found_def lookup_key_iff)
    show ?thesis
    proof (cases "ex = Dio_done")
      case False
      then have no: "\<not> rank_accepted (get_dag i1 p) (ntohs (dio_dagrank ?dio))" "i' = i1" "w' = w1"
        using dio_update_not_done [OF mem p upd] by auto
      have k: "dag_table i (dio_key ?dio) \<noteq> None"
        using fd no(1) by (auto simp: dio_found_def dio_subject_def rank_accepted_def split: option.splits)
      then have "dio_subject E i ?dio msg (len - 24) d \<Longrightarrow> d = get_dag i1 p" for d
        using fd by (auto simp: dio_found_def dio_subject_def)
      then show ?thesis using False no fd k by (auto simp: dio_found_def)
    next
      case True
      have acc: "rank_accepted (get_dag i1 p) (ntohs (dio_dagrank ?dio))"
        using dio_update_rejected [of i1 p _ E from1 w1] upd True by force
      have k: "keys_inv i1" "lookup_key i1 (dio_key ?dio) = Inr (Some p)" and i1: "llinfo i1 = llinfo i"
          "ifaddr_src i1 = ifaddr_src i" "ifindex i1 = ifindex i"
        using fd by (cases i; cases i1; simp add: dio_found_def)+
      have ll: "ll_ok i1" using inv(2) i1(1) by (simp add: ll_ok_def)
      have "icmp_call i1 = icmp_call i" using i1 by (simp add: icmp_call_def fun_eq_iff)
      with dio_update_done [OF acc k wf from1 ll _ upd [unfolded True], of "the (ifaddr_src i)"] src i1 fd wf acc
      show ?thesis using True by (auto simp: dio_accepted_def dio_found_def)
    qed
  qed
qed simp

lemma dio_found_frame:
  assumes "dio_found E i dio msg n w p i' w'"
  shows "llinfo i' = llinfo i" "ifaddr_src i' = ifaddr_src i" "ifindex i' = ifindex i"
  using assms by (cases i; cases i'; simp add: dio_found_def)+

lemma dio_accepted_iface_ok:
  assumes "dio_accepted E i dio msg n from1 w d d' i' w'" "iface_ok i" "wf_addr from1"
  shows "iface_ok i'"
proof -
  obtain a where "dio_result E d from1 (ntohs (dio_dagrank dio)) a d'" and wf: "wf_dag d"
    using assms(1) by (auto simp: dio_accepted_def)
  then have "wf_dag d' \<and> rank_ok d'" using wf_dio_result assms(3) rank_ok_dio_result by blast
  moreover have "dag_table i' = (dag_table i)(dio_key dio \<mapsto> d')" using assms(1) by (simp add: dio_accepted_def)
  ultimately have "\<forall>d \<in> ran (dag_table i'). wf_dag d \<and> rank_ok d"
    using assms(2) by (auto simp: iface_ok_def ran_def)
  then show ?thesis using assms(1,2) by (simp add: dio_accepted_def iface_ok_def ll_ok_def)
qed

lemma process_dio_iface_ok:
  assumes "memory_available E" "length (stack_junk E) = 16" "iface_ok i" "wf_addr from1"
    "process_dio E i msg len from1 w = Inr (ex, i', w')"
  shows "iface_ok i'"
  using process_dio_spec [OF assms] dio_accepted_iface_ok [OF _ assms(3,4)] assms(3) by blast

lemma read_destprefix_total:
  assumes "24 + n \<le> length msg" "length (stack_junk E) = 16"
  shows "(\<exists>r. read_destprefix E msg n = Inr r) \<or>
    read_destprefix E msg n = Inl Out_of_bounds \<and> 128 < unat (msg ! 26)"
proof -
  have "128 < unat (msg ! 26)" if "16 < unat (bits_to_bytes (msg ! 26))"
    using that by (simp add: unat_bits_to_bytes)
  then show ?thesis
    using assms by (auto simp: read_destprefix_def Let_def mem_u8_def mem_read_def mem_write_def)
qed

lemma dio_update_total:
  assumes mem: "memory_available E" and inv: "keys_inv i" "valid_dag i p" and wf: "wf_dag (get_dag i p)" "wf_addr from1"
    and ll: "ll_ok i" "ifaddr_src i = Some src"
  shows "(\<exists>ex i' w'. dio_update_dag E i p rank from1 w = Inr (ex, i', w')) \<or>
    dio_update_dag E i p rank from1 w = Inl (Exit 1) \<and> \<not> dao_fits (get_dag i p)"
proof (cases "rank_accepted (get_dag i p) rank")
  case True
  let ?i1 = "upd_dag i p (\<lambda>d. join_parent d from1 rank)"
  from dio_update_accepted [OF True inv(2), of w E from1] mem obtain w1 where
    eq: "dio_update_dag E i p rank from1 w =
      bind_res (dag_process_dio E ?i1 p w1) (\<lambda>(i, w).
        case parent (get_dag i p) of None \<Rightarrow> Inr (Dio_done, i, w)
        | Some pe \<Rightarrow> bind_res (send_dao E i (peer_addr pe) p w) (\<lambda>(i, w). Inr (Dio_done, i, w)))" by auto
  have g1: "get_dag ?i1 p = join_parent (get_dag i p) from1 rank" using inv(2) by simp
  have "wf_prefix (dest (get_dag ?i1 p))" "ll_ok ?i1" using wf ll g1 by (auto simp: wf_dag_def ll_ok_def)
  from dag_process_dio_Inr [OF this, of E w1] obtain i2 w2 where
    d: "dag_process_dio E ?i1 p w1 = Inr (i2, w2)" "i2 = ?i1 \<or> (\<exists>a. wf_addr a \<and> i2 = upd_dag ?i1 p (\<lambda>d. d\<lparr>self := a\<rparr>))" by auto
  have j: "wf_dag (join_parent (get_dag i p) from1 rank)" by (rule wf_join_parent [OF wf])
  have s: "wf_dag (get_dag i2 p)" "childs (get_dag i2 p) = childs (get_dag i p)" "ifaddr_src i2 = Some src"
      "rpl_freed (rpls i2 ! fst p) = rpl_freed (rpls i ! fst p)"
    using d(2) j inv(2) ll(2) by (auto simp: wf_dag_def)
  have live: "\<not> rpl_freed (rpls i ! fst p)" using inv by (simp add: keys_inv_def valid_dag_def)
  have s2: "(\<exists>i' w'. send_dao E i2 to p w2 = Inr (i', w')) \<or> send_dao E i2 to p w2 = Inl (Exit 1) \<and> \<not> dao_fits (get_dag i p)" for to
    using send_dao_fits [OF mem s(1) _ s(3), of to w2] send_dao_overflow [OF mem s(1), of to w2] s(2,4) live
    by (cases "dao_fits (get_dag i p)") (simp_all add: dao_fits_def)
  show ?thesis
  proof (cases "parent (get_dag i2 p)")
    case (Some pe)
    then show ?thesis using s2 [of "peer_addr pe"] by (auto simp: eq d(1))
  qed (simp add: eq d(1))
qed (use dio_update_rejected in blast)

lemma dio_find_dag_total:
  assumes mem: "memory_available E" and junk: "length (stack_junk E) = 16" and inv: "keys_inv i"
    and len: "24 + n \<le> length msg"
  shows "(\<exists>r. dio_find_dag E i dio msg n w = Inr r) \<or>
    dio_find_dag E i dio msg n w = Inl Out_of_bounds \<and> 128 < unat (msg ! 26) \<and> dag_table i (dio_key dio) = None"
proof -
  obtain f where f: "lookup_key i (dio_key dio) = Inr f" using lookup_key_no_fault [OF inv] by blast
  then have dl: "dag_lookup i (dio_instanceid dio) (dio_dagid dio) = Inr f" by (simp add: lookup_key_def dio_key_def)
  show ?thesis
  proof (cases f)
    case None
    then have t: "dag_table i (dio_key dio) = None" using ds.absent_iff [OF inv] f by simp
    from read_destprefix_total [OF len junk] show ?thesis
    proof (elim disjE exE)
      fix r assume r: "read_destprefix E msg n = Inr r"
      show ?thesis
      proof (cases r)
        case (Inr pfx)
        obtain p i1 w1 where "dag_create E i (dio_instanceid dio) (dio_dagid dio) DEFAULT_TICKLE_T 0xffff
            (dio_version dio) (Some pfx) w = Inr (Some p, i1, w1)"
          using dag_create_Inr [OF inv _ mem, of "dio_instanceid dio" "dio_dagid dio"] f None
          by (simp add: dio_key_def) metis
        then show ?thesis using dl None r Inr by (simp add: dio_find_dag_def)
      qed (use dl None r in \<open>simp add: dio_find_dag_def\<close>)
    qed (use dl None t in \<open>simp add: dio_find_dag_def\<close>)
  qed (use dl in \<open>simp add: dio_find_dag_def\<close>)
qed

lemma process_dio_total:
  assumes mem: "memory_available E" and junk: "length (stack_junk E) = 16" and ok: "iface_ok i"
    and from1: "wf_addr from1" and len: "len \<le> length msg"
  shows "(\<exists>ex i' w'. process_dio E i msg len from1 w = Inr (ex, i', w')) \<or>
    process_dio E i msg len from1 w = Inl Out_of_bounds \<and> 128 < unat (msg ! 26) \<and>
      dag_table i (dio_key (nd_rpl_dio_of (take 24 msg))) = None \<or>
    process_dio E i msg len from1 w = Inl (Exit 1) \<and> (\<exists>d \<in> ran (dag_table i). \<not> dao_fits d)"
proof (cases "len < 24")
  case True
  then show ?thesis by (simp add: process_dio_def)
next
  case False
  let ?dio = "nd_rpl_dio_of (take 24 msg)"
  have inv: "keys_inv i" "ll_ok i" and src: "ifaddr_src i = Some (the (ifaddr_src i))"
    using ok by (auto simp: iface_ok_def)
  have did: "wf_addr (dio_dagid ?dio)" using False len by (simp add: nd_rpl_dio_of_def wf_addr_def)
  have eq: "process_dio E i msg len from1 w = bind_res (dio_find_dag E i ?dio msg (len - 24) w) (\<lambda>(found, i, w).
      case found of Inl ex \<Rightarrow> Inr (ex, i, w) | Inr p \<Rightarrow> dio_update_dag E i p (ntohs (dio_dagrank ?dio)) from1 w)"
    using False len by (simp add: process_dio_def mem_read_Inr Let_def)
  have "24 + (len - 24) \<le> length msg" using False len by simp
  from dio_find_dag_total [OF mem junk inv(1) this, of ?dio w] show ?thesis
  proof (elim disjE exE)
    fix r assume r: "dio_find_dag E i ?dio msg (len - 24) w = Inr r"
    obtain f i1 w1 where r3: "r = (f, i1, w1)" by (metis prod_cases3)
    show ?thesis
    proof (cases f)
      case (Inr p)
      then have fd: "dio_found E i ?dio msg (len - 24) w p i1 w1"
        using dio_find_dag_spec [OF mem inv(1)] r r3 by blast
      have sub: "dio_subject E i ?dio msg (len - 24) (get_dag i1 p)" and k: "keys_inv i1" "valid_dag i1 p"
        using fd by (auto simp: dio_found_def lookup_key_iff)
      have i1: "ll_ok i1" "ifaddr_src i1 = ifaddr_src i"
        using dio_found_frame [OF fd] inv(2) by (simp_all add: ll_ok_def)
      have "\<not> dao_fits (get_dag i1 p) \<Longrightarrow> \<exists>d \<in> ran (dag_table i). \<not> dao_fits d"
        using sub by (auto simp: dio_subject_def dao_fits_def intro: ranI split: option.splits)
      with dio_update_total [OF mem k _ from1 i1(1)] dio_subject_wf [OF sub junk ok did] i1(2) src
      show ?thesis unfolding eq r r3 Inr by auto
    qed (simp add: eq r r3)
  qed (simp add: eq)
qed

subsection \<open>A DIO at its receiver\<close>

lemma dio_message_header:
  assumes "wf_dag d" "msg = drop 4 (dio_message iid d) @ rest"
  shows "nd_rpl_dio_of (take 24 msg) = dio_of_dag iid d"
  using assms(2) dio.dec_enc [OF dio_of_dag_wf [OF assms(1), of iid]] dio.length_enc [OF dio_of_dag_wf [OF assms(1), of iid]]
  by (simp add: dio_message_def)

lemma nth_after: "length xs = n \<Longrightarrow> (xs @ ys) ! (n + k) = ys ! k"
  by (simp add: nth_append)

lemma dio_message_destprefix:
  assumes "wf_dag d" "msg = drop 4 (dio_message iid d) @ rest" "length (stack_junk E) = 16"
    "n = length (dio_message iid d) - 28"
  shows "read_destprefix E msg n = Inr (Inr \<lparr>prefix = take (unat (bits_to_bytes (pfx_len (dest d)))) (prefix (dest d)) @
     drop (unat (bits_to_bytes (pfx_len (dest d)))) (stack_junk E), pfx_len = pfx_len (dest d)\<rparr>)"
    "msg ! 26 = pfx_len (dest d)"
proof -
  let ?b = "unat (bits_to_bytes (pfx_len (dest d)))" and ?h = "nd_rpl_dio_bytes (dio_of_dag iid d)"
  have b: "?b \<le> 16" "length (prefix (dest d)) = 16"
    using assms(1) ceil8_le_16 by (auto simp: wf_dag_def wf_prefix_def wf_addr_def)
  have h: "length ?h = 24" by (rule dio.length_enc [OF dio_of_dag_wf [OF assms(1)]])
  have msg: "msg = ?h @ [3, 6 + bits_to_bytes (pfx_len (dest d)), pfx_len (dest d), 0, 0xff, 0xff, 0xff, 0xff] @
      take ?b (prefix (dest d)) @ rest" using assms(2) by (simp add: dio_message_def)
  have n: "n = 8 + ?b" using dio_chunks_message(3) [OF assms(1), of iid] assms(4) by simp
  have 1: "mem_u8 msg 24 = Inr 3" "mem_u8 msg 26 = Inr (pfx_len (dest d))"
    using nth_after [OF h, of _ 0] nth_after [OF h, of _ 2] h by (simp_all add: msg mem_u8_def)
  have 2: "mem_read msg 32 ?b = Inr (take ?b (prefix (dest d)))"
    using b h by (simp add: msg mem_read_def)
  show "read_destprefix E msg n = Inr (Inr \<lparr>prefix = take ?b (prefix (dest d)) @
     drop ?b (stack_junk E), pfx_len = pfx_len (dest d)\<rparr>)"
    using 1 2 n b assms(3) by (simp add: read_destprefix_def mem_write_def)
  show "msg ! 26 = pfx_len (dest d)" using 1(2) by (auto simp: mem_u8_def split: if_splits)
qed

lemma dio_key_of_dag: "dio_key (dio_of_dag iid d) = (iid, dodagid d)"
  by (simp add: dio_key_def dio_of_dag_def)

lemma dao_message_sent: "dao_sent E d d' \<Longrightarrow> dao_message iid d' = dao_message iid d"
  by (simp add: dao_message_def dao_of_dag_def dao_sent_simps)

lemma dio_delivery:
  assumes mem: "memory_available E" and junk: "length (stack_junk E) = 16" and ok: "iface_ok i"
    and from1: "wf_addr from1" and wf: "wf_dag d" and new: "dag_table i (iid, dodagid d) = None"
    and fits: "\<forall>d \<in> ran (dag_table i). dao_fits d"
  shows "\<exists>i' w' d' es. process_dio E i (drop 4 (dio_message iid d) @ rest) (length (dio_message iid d) - 4) from1 w
      = Inr (Dio_done, i', w') \<and> joined_dag d from1 d' \<and> dag_table i' = (dag_table i)((iid, dodagid d) \<mapsto> d') \<and>
      iface_ok i' \<and> wf_dag d' \<and> ifindex i' = ifindex i \<and>
      w_trace w' = w_trace w @ es @ [Sendmsg (icmp_call i (the (ifaddr_src i)) from1 (dao_message iid d'))]"
proof -
  define msg where m: "msg = drop 4 (dio_message iid d) @ rest"
  define len where len: "len = length (dio_message iid d) - 4"
  have l: "length (dio_message iid d) = 36 + unat (bits_to_bytes (pfx_len (dest d)))"
    by (rule dio_chunks_message(3) [OF wf])
  have h: "nd_rpl_dio_of (take 24 msg) = dio_of_dag iid d" by (rule dio_message_header [OF wf m])
  have "len - 24 = length (dio_message iid d) - 28" "24 \<le> len" using l by (simp_all add: len)
  note rd = dio_message_destprefix [OF wf m junk this(1)]
  have sub: "dio_subject E i (dio_of_dag iid d) msg (len - 24) e \<longleftrightarrow>
      e = fresh_dag (dodagid d) 0xffff (version d) \<lparr>prefix = take (unat (bits_to_bytes (pfx_len (dest d)))) (prefix (dest d)) @
        drop (unat (bits_to_bytes (pfx_len (dest d)))) (stack_junk E), pfx_len = pfx_len (dest d)\<rparr>" for e
    using new rd(1) by (auto simp: dio_subject_def dio_key_of_dag) (simp_all add: dio_of_dag_def)
  have "\<not> 128 < unat (msg ! 26)" using rd(2) wf by (simp add: wf_dag_def)
  moreover have "len \<le> length msg" by (simp add: m len)
  ultimately obtain ex i' w' where run: "process_dio E i msg len from1 w = Inr (ex, i', w')"
    using process_dio_total [OF mem junk ok from1] fits by blast
  from process_dio_spec [OF mem junk ok from1 run] \<open>24 \<le> len\<close> obtain e d' where
    acc: "ex = Dio_done" "dio_accepted E i (dio_of_dag iid d) msg (len - 24) from1 w e d' i' w'"
    by (auto simp: h sub rank_accepted_def)
  then obtain a es where r: "dio_result E e from1 (my_rank d) a d'" and e: "dio_subject E i (dio_of_dag iid d) msg (len - 24) e"
    and t: "dag_table i' = (dag_table i)((iid, dodagid d) \<mapsto> d')" "ifindex i' = ifindex i" and we: "wf_dag e"
    and tr: "w_trace w' = w_trace w @ es @ [Sendmsg (icmp_call i (the (ifaddr_src i)) (peer_addr (the (parent d')))
      (dao_message iid ((join_parent e from1 (my_rank d))\<lparr>self := a\<rparr>)))]"
    by (auto simp: dio_accepted_def dio_key_of_dag) (simp add: dio_of_dag_def)
  from r e wf ceil8_le_16 [of "pfx_len (dest d)"] have "joined_dag d from1 d'"
    by (auto simp: sub dio_result_def joined_dag_def dao_sent_simps wf_dag_def wf_prefix_def wf_addr_def min_def)
  moreover have "dao_message iid ((join_parent e from1 (my_rank d))\<lparr>self := a\<rparr>) = dao_message iid d'"
    using r dao_message_sent [of E "(join_parent e from1 (my_rank d))\<lparr>self := a\<rparr>" d' iid]
    by (simp add: dio_result_def)
  moreover have "peer_addr (the (parent d')) = from1" using \<open>joined_dag d from1 d'\<close> by (simp add: joined_dag_def)
  moreover have "iface_ok i'" by (rule dio_accepted_iface_ok [OF acc(2) ok from1])
  moreover have "wf_dag d'" by (rule wf_dio_result [OF r we from1])
  ultimately show ?thesis using run acc(1) t tr unfolding m len by auto
qed

end
