(* ===== verification/Dao_Handler.thy ===== *)
theory Dao_Handler
  imports Dio_Handler
begin

section \<open>What process_dao and process_daoack do\<close>

text \<open>
  The handlers of DAO and DAO-ACK messages: the option loop, the children it learns, the routes
  and the acknowledgement, and what becomes of a DAO built by \<open>dag_build_dao\<close>.
\<close>

subsection \<open>Definitions\<close>

text \<open>The children after a sequence of targets from one sender: each address is learnt once.\<close>

fun learn :: "in6_addr \<Rightarrow> in6_addr list \<Rightarrow> child list \<Rightarrow> child list" where
  "learn from1 [] cs = cs"
| "learn from1 (a # as) cs =
     learn from1 as (if a \<in> child_addr ` set cs then cs else cs @ [\<lparr>child_addr = a, child_from = from1\<rparr>])"

definition may_learn :: "in6_addr \<Rightarrow> dag \<Rightarrow> dag \<Rightarrow> bool" where
  "may_learn from1 d d' \<longleftrightarrow> (\<exists>cs. d' = d\<lparr>childs := childs d @ cs\<rparr> \<and>
     (\<forall>c \<in> set cs. child_from c = from1 \<and> wf_addr (child_addr c)) \<and>
     (distinct (map child_addr (childs d)) \<longrightarrow> distinct (map child_addr (childs d @ cs))))"

text \<open>The routes of a list of children, in the order of the list.\<close>

definition routes_for :: "u32 \<Rightarrow> child list \<Rightarrow> event list \<Rightarrow> bool" where
  "routes_for ifi cs es \<longleftrightarrow>
     list_all2 (\<lambda>c e. \<exists>t. e = Netlink (route_via_request t ifi (child_addr c) (child_from c))) cs es"

definition dao_key :: "nd_rpl_dao \<Rightarrow> u8 \<times> in6_addr" where
  "dao_key dao = (dao_instanceid dao, dao_dagid dao)"

definition daoack_key :: "nd_rpl_daoack \<Rightarrow> u8 \<times> in6_addr" where
  "daoack_key m = (daoack_instanceid m, daoack_dagid m)"

definition daoack_gateway :: "iface \<Rightarrow> bytes \<Rightarrow> in6_addr option" where
  "daoack_gateway i msg =
     (case dag_table i (daoack_key (nd_rpl_daoack_of (take 20 msg))) of
        None \<Rightarrow> None | Some d \<Rightarrow> map_option peer_addr (parent d))"

subsection \<open>Lemmas\<close>

lemma may_learn_refl [simp]: "may_learn from1 d d"
  by (auto simp: may_learn_def intro!: exI [of _ "[]"])

lemma may_learn_trans:
  assumes "may_learn from1 d d'" "may_learn from1 d' d''"
  shows "may_learn from1 d d''"
proof -
  from assms(1) obtain cs where 1: "d' = d\<lparr>childs := childs d @ cs\<rparr>"
      "\<forall>c \<in> set cs. child_from c = from1 \<and> wf_addr (child_addr c)"
      "distinct (map child_addr (childs d)) \<longrightarrow> distinct (map child_addr (childs d @ cs))"
    by (auto simp: may_learn_def)
  from assms(2) obtain cs' where 2: "d'' = d'\<lparr>childs := childs d' @ cs'\<rparr>"
      "\<forall>c \<in> set cs'. child_from c = from1 \<and> wf_addr (child_addr c)"
      "distinct (map child_addr (childs d')) \<longrightarrow> distinct (map child_addr (childs d' @ cs'))"
    by (auto simp: may_learn_def)
  have "d'' = d\<lparr>childs := childs d @ (cs @ cs')\<rparr>" using 1(1) 2(1) by simp
  moreover have "distinct (map child_addr (childs d)) \<longrightarrow> distinct (map child_addr (childs d @ (cs @ cs')))"
    using 1(3) 2(3) 1(1) by simp
  ultimately show ?thesis using 1(2) 2(2) unfolding may_learn_def by (intro exI [of _ "cs @ cs'"]) auto
qed

lemma child_or_create_cases:
  assumes "dag_lookup_child_or_create E d addr from1 w = (c, d', w')"
  shows "same_io w w' \<and> (d' = d \<and> (addr \<in> child_addr ` set (childs d) \<or> \<not> memory_available E) \<or>
    addr \<notin> child_addr ` set (childs d) \<and> d' = d\<lparr>childs := childs d @ [\<lparr>child_addr = addr, child_from = from1\<rparr>]\<rparr>)"
proof -
  have l: "dag_lookup_child cs a = index_of child_addr cs a" for cs a
    using child_list.lookup_live [of cs a] by simp
  show ?thesis
  proof (cases "index_of child_addr (childs d) addr")
    case None
    then show ?thesis using assms index_of_None_iff [of child_addr "childs d" addr]
      by (auto simp: dag_lookup_child_or_create_def l dag_child_create_def alloc_def same_io_def memory_available_def
          Let_def split: if_splits)
  next
    case (Some k)
    then show ?thesis using assms index_of_None_iff [of child_addr "childs d" addr]
      by (auto simp: dag_lookup_child_or_create_def l)
  qed
qed

lemma child_or_create_may_learn:
  assumes "dag_lookup_child_or_create E d addr from1 w = (c, d', w')" "wf_addr addr"
  shows "may_learn from1 d d' \<and> same_io w w'"
proof -
  have "addr \<notin> child_addr ` set (childs d) \<Longrightarrow>
      may_learn from1 d (d\<lparr>childs := childs d @ [\<lparr>child_addr = addr, child_from = from1\<rparr>]\<rparr>)"
    using assms(2) unfolding may_learn_def by (intro exI [of _ "[\<lparr>child_addr = addr, child_from = from1\<rparr>]"]) auto
  with child_or_create_cases [OF assms(1)] show ?thesis by auto
qed

text \<open>One turn of the option loop.\<close>

lemma dao_options_step:
  assumes "0 < optlen"
  shows "dao_options E msg from1 off optlen d w =
    (if optlen < 2 then Inr (False, d, w) else
     bind_res (mem_read msg off 2) (\<lambda>o2. let opt = nd_rpl_opt_of o2;
        go = dao_options E msg from1 (off + (2 + unat (opt_len opt))) (optlen - (2 + int (unat (opt_len opt)))) in
     if opt_type opt = RPL_DAO_RPLTARGET then
       bind_res (mem_read msg (off + 4) 16) (\<lambda>addr.
         let (c, d, w) = dag_lookup_child_or_create E d addr from1 w in go d w)
     else go d w))"
  using assms
  by (subst dao_options.simps) (cases "mem_read msg off 2"; cases "mem_read msg (off + 4) 16"; simp add: Let_def split_def)

lemma dao_options_nonpos [simp]: "optlen \<le> 0 \<Longrightarrow> dao_options E msg from1 off optlen d w = Inr (True, d, w)"
  by (subst dao_options.simps) simp

declare dao_options.simps [simp del]

lemma dao_options_may_learn:
  "dao_options E msg from1 off optlen d w = Inr (c, d', w') \<Longrightarrow> may_learn from1 d d' \<and> same_io w w'"
proof (induction "nat optlen" arbitrary: off optlen d w rule: less_induct)
  case less
  show ?case
  proof (cases "2 \<le> optlen")
    case True
    then obtain o2 where o2: "mem_read msg off 2 = Inr o2"
      using less.prems by (auto simp: dao_options_step bind_res_Inr_iff)
    let ?opt = "nd_rpl_opt_of o2"
    let ?off = "off + (2 + unat (opt_len ?opt))" and ?len = "optlen - (2 + int (unat (opt_len ?opt)))"
    have lt: "nat ?len < nat optlen" using True by (simp del: of_nat_unat)
    show ?thesis
    proof (cases "opt_type ?opt = RPL_DAO_RPLTARGET")
      case t: True
      from less.prems True t obtain addr where addr: "mem_read msg (off + 4) 16 = Inr addr"
        by (auto simp: dao_options_step o2 Let_def bind_res_Inr_iff simp del: of_nat_unat)
      obtain c1 d1 w1 where l: "dag_lookup_child_or_create E d addr from1 w = (c1, d1, w1)" by (metis prod_cases3)
      have "dao_options E msg from1 ?off ?len d1 w1 = Inr (c, d', w')"
        using less.prems True t addr l by (simp add: dao_options_step o2 Let_def)
      from less.hyps [OF lt this] child_or_create_may_learn [OF l] length_mem_read [OF addr] show ?thesis
        by (auto simp: wf_addr_def intro: may_learn_trans same_io_trans)
    next
      case False
      then have "dao_options E msg from1 ?off ?len d w = Inr (c, d', w')"
        using less.prems True by (simp add: dao_options_step o2 Let_def)
      from less.hyps [OF lt this] show ?thesis by simp
    qed
  next
    case False
    then show ?thesis using less.prems by (cases "0 < optlen") (auto simp: dao_options_step)
  qed
qed

text \<open>With eighteen bytes of the buffer behind the message, no read of the loop is out of bounds.\<close>

lemma dao_options_total:
  "off + nat optlen + 18 \<le> length msg \<Longrightarrow> \<exists>r. dao_options E msg from1 off optlen d w = Inr r"
proof (induction "nat optlen" arbitrary: off optlen d w rule: less_induct)
  case less
  show ?case
  proof (cases "2 \<le> optlen")
    case True
    let ?opt = "nd_rpl_opt_of (take 2 (drop off msg))"
    let ?off = "off + (2 + unat (opt_len ?opt))" and ?len = "optlen - (2 + int (unat (opt_len ?opt)))"
    have lt: "nat ?len < nat optlen" using True by (simp del: of_nat_unat)
    have "\<exists>r. dao_options E msg from1 ?off ?len d w = Inr r" for d w
    proof (cases "0 < ?len")
      case True
      then have "?off + nat ?len + 18 \<le> length msg" using less.prems by linarith
      from less.hyps [OF lt this] show ?thesis .
    qed (use dao_options_nonpos in force)
    then show ?thesis using True less.prems
      by (auto simp: dao_options_step Let_def mem_read_Inr split_def)
  next
    case False
    then show ?thesis by (cases "0 < optlen") (auto simp: dao_options_step)
  qed
qed

lemma dao_options_Inl: "dao_options E msg from1 off optlen d w = Inl f \<Longrightarrow> f = Out_of_bounds"
proof (induction "nat optlen" arbitrary: off optlen d w rule: less_induct)
  case less
  show ?case
  proof (cases "2 \<le> optlen \<and> off + 2 \<le> length msg")
    case True
    let ?opt = "nd_rpl_opt_of (take 2 (drop off msg))"
    let ?off = "off + (2 + unat (opt_len ?opt))" and ?len = "optlen - (2 + int (unat (opt_len ?opt)))"
    have "nat ?len < nat optlen" using True by (simp del: of_nat_unat)
    from less.hyps [OF this] have "dao_options E msg from1 ?off ?len d w = Inl f \<Longrightarrow> f = Out_of_bounds" for d w .
    then show ?thesis using True less.prems
      by (auto simp: dao_options_step Let_def mem_read_def split_def split: if_splits)
  next
    case False
    then show ?thesis using less.prems by (cases "0 < optlen") (auto simp: dao_options_step mem_read_def split: if_splits)
  qed
qed

text \<open>The targets of a DAO as \<open>dag_build_dao\<close> writes them.\<close>

lemma length_target_bytes: "length (target_bytes a) = length a + 4"
  by (simp add: target_bytes_def)

lemma learn_append: "learn from1 (as @ bs) cs = learn from1 bs (learn from1 as cs)"
  by (induction from1 as cs rule: learn.induct) auto

text \<open>The loop learns any number of whole targets and goes on with what stands behind them.\<close>

lemma dao_options_behind:
  assumes "\<forall>a \<in> set as. wf_addr a" "0 \<le> k"
  shows "\<exists>d' w'. dao_options E (pre @ concat (map target_bytes as) @ rest) from1 (length pre) (20 * int (length as) + k) d w =
      dao_options E (pre @ concat (map target_bytes as) @ rest) from1 (length pre + 20 * length as) k d' w' \<and>
    same_io w w' \<and> (memory_available E \<longrightarrow> d' = d\<lparr>childs := learn from1 as (childs d)\<rparr>)"
  using assms(1)
proof (induction as arbitrary: pre d w)
  case (Cons a as)
  let ?msg = "pre @ target_bytes a @ concat (map target_bytes as) @ rest"
  have a: "length a = 16" using Cons.prems by (simp add: wf_addr_def)
  have o2: "mem_read ?msg (length pre) 2 = Inr [RPL_DAO_RPLTARGET, 18]"
    by (simp add: mem_read_def target_bytes_def)
  have addr: "mem_read ?msg (length pre + 4) 16 = Inr a"
    using a by (simp add: mem_read_def target_bytes_def)
  obtain c d1 w1 where l: "dag_lookup_child_or_create E d a from1 w = (c, d1, w1)" by (metis prod_cases3)
  have d1: "same_io w w1" "memory_available E \<longrightarrow> d1 = d\<lparr>childs := learn from1 [a] (childs d)\<rparr>"
    using child_or_create_cases [OF l] by auto
  have "dao_options E ?msg from1 (length pre) (20 * int (length (a # as)) + k) d w =
      dao_options E ?msg from1 (20 + length pre) (20 * int (length as) + k) d1 w1"
    using o2 addr l assms(2) by (simp add: dao_options_step nd_rpl_opt_of_def Let_def)
  moreover obtain d' w' where "dao_options E ?msg from1 (20 + length pre) (20 * int (length as) + k) d1 w1 =
      dao_options E ?msg from1 (20 + length pre + 20 * length as) k d' w'" "same_io w1 w'"
      "memory_available E \<longrightarrow> d' = d1\<lparr>childs := learn from1 as (childs d1)\<rparr>"
    using Cons.IH [of "pre @ target_bytes a" d1 w1] Cons.prems a by (auto simp: length_target_bytes add.commute)
  ultimately show ?case using d1
    by (intro exI [of _ d'] exI [of _ w']) (auto simp: algebra_simps intro: same_io_trans)
qed (auto simp: same_io_def intro!: exI)

lemma dao_options_targets:
  assumes mem: "memory_available E" and "\<forall>a \<in> set as. wf_addr a"
  shows "\<exists>w'. dao_options E (pre @ concat (map target_bytes as) @ rest) from1 (length pre) (20 * int (length as)) d w
    = Inr (True, d\<lparr>childs := learn from1 as (childs d)\<rparr>, w') \<and> same_io w w'"
  using dao_options_behind [OF assms(2) order_refl, of E pre rest from1 d w] mem by auto

lemma concat_targets_length: "\<forall>a \<in> set as. wf_addr a \<Longrightarrow> length (concat (map target_bytes as)) = 20 * length as"
  by (induction as) (simp_all add: target_bytes_def wf_addr_def)

text \<open>
  The last option is a target of which the message has only \<open>m\<close> bytes: all of its twenty bytes
  are read, as far as the buffer reaches.
\<close>

lemma dao_options_last_target:
  assumes as: "\<forall>a \<in> set as. wf_addr a" and m: "2 \<le> m" "m \<le> 2 + int (unat l)"
    and msg: "msg = pre @ concat (map target_bytes as) @ [RPL_DAO_RPLTARGET, l] @ rest"
  shows "length rest < 18 \<Longrightarrow> dao_options E msg from1 (length pre) (20 * int (length as) + m) d w = Inl Out_of_bounds"
    and "18 \<le> length rest \<Longrightarrow> memory_available E \<Longrightarrow>
      \<exists>w'. dao_options E msg from1 (length pre) (20 * int (length as) + m) d w =
        Inr (True, d\<lparr>childs := learn from1 (as @ [take 16 (drop 2 rest)]) (childs d)\<rparr>, w')"
proof -
  let ?off = "length pre + 20 * length as"
  have c: "length (concat (map target_bytes as)) = 20 * length as" by (rule concat_targets_length [OF as])
  obtain d1 w1 where b: "dao_options E msg from1 (length pre) (20 * int (length as) + m) d w = dao_options E msg from1 ?off m d1 w1"
      "memory_available E \<longrightarrow> d1 = d\<lparr>childs := learn from1 as (childs d)\<rparr>"
    using dao_options_behind [OF as, of m E pre "[RPL_DAO_RPLTARGET, l] @ rest" from1 d w] m(1) unfolding msg by auto
  have o2: "mem_read msg ?off 2 = Inr [RPL_DAO_RPLTARGET, l]" by (simp add: msg mem_read_def c)
  have "mem_read msg (?off + 4) 16 = Inl Out_of_bounds" if "length rest < 18" using that by (simp add: msg mem_read_def c)
  then show "length rest < 18 \<Longrightarrow> dao_options E msg from1 (length pre) (20 * int (length as) + m) d w = Inl Out_of_bounds"
    using m o2 by (simp add: b(1) dao_options_step nd_rpl_opt_of_def Let_def)
  assume r: "18 \<le> length rest" "memory_available E"
  have addr: "mem_read msg (?off + 4) 16 = Inr (take 16 (drop 2 rest))"
    using r(1) by (simp add: msg mem_read_def c)
  obtain x d2 w2 where l: "dag_lookup_child_or_create E d1 (take 16 (drop 2 rest)) from1 w1 = (x, d2, w2)" by (metis prod_cases3)
  have "d2 = d\<lparr>childs := learn from1 (as @ [take 16 (drop 2 rest)]) (childs d)\<rparr>"
    using child_or_create_cases [OF l] b(2) r(2) by (auto simp: learn_append)
  then show "\<exists>w'. dao_options E msg from1 (length pre) (20 * int (length as) + m) d w =
      Inr (True, d\<lparr>childs := learn from1 (as @ [take 16 (drop 2 rest)]) (childs d)\<rparr>, w')"
    using m o2 addr l by (simp add: b(1) dao_options_step nd_rpl_opt_of_def Let_def)
qed

lemma wf_may_learn: "may_learn from1 d d' \<Longrightarrow> wf_dag d \<Longrightarrow> wf_addr from1 \<Longrightarrow> wf_dag d'"
  by (auto simp: may_learn_def wf_dag_def wf_child_def)

lemma rank_may_learn: "may_learn from1 d d' \<Longrightarrow> rank_ok d' = rank_ok d \<and> dodagid d' = dodagid d"
  by (auto simp: may_learn_def rank_ok_def split: option.splits)

lemma add_child_routes_trace:
  "\<exists>es. w_trace (add_child_routes E ifi cs w) = w_trace w @ es \<and> routes_for ifi cs es \<and>
     w_live (add_child_routes E ifi cs w) = w_live w"
proof (induction E ifi cs w rule: add_child_routes.induct)
  case (2 E ifi c cs w)
  obtain rc w1 where n: "nl_add_route_via E ifi (child_addr c) (child_from c) w = (rc, w1)" by force
  from 2 [OF n [symmetric] refl] obtain es where
    "w_trace (add_child_routes E ifi cs w1) = w_trace w1 @ es" "routes_for ifi cs es"
    "w_live (add_child_routes E ifi cs w1) = w_live w1" by auto
  moreover have "w_trace w1 = w_trace w @ [Netlink (route_via_request (sys_time E (w_trace w)) ifi (child_addr c) (child_from c))]"
      "w_live w1 = w_live w"
    using n nl_talk_world [of E "route_via_request (sys_time E (w_trace w)) ifi (child_addr c) (child_from c)" w]
    by (auto simp: nl_request_defs)
  ultimately show ?case
    by (intro exI [of _ "Netlink (route_via_request (sys_time E (w_trace w)) ifi (child_addr c) (child_from c)) # es"])
       (auto simp: n routes_for_def)
qed (simp add: routes_for_def)

lemma process_dao_spec:
  assumes ok: "iface_ok i" and from1: "wf_addr from1" and run: "process_dao E i msg len from1 w = Inr (ex, i', w')"
  shows "iface_ok i' \<and> ifindex i' = ifindex i \<and> (ex \<in> {Dao_length_mismatch, Dao_no_dag} \<and> i' = i \<and> w' = w \<and>
      (20 \<le> len \<longrightarrow> dag_table i (dao_key (nd_rpl_dao_of (take 20 msg))) = None) \<or>
    (\<exists>p w1 complete d'. lookup_key i (dao_key (nd_rpl_dao_of (take 20 msg))) = Inr (Some p) \<and> 20 \<le> len \<and>
      dao_options E msg from1 20 (int (len - 20)) (get_dag i p) w = Inr (complete, d', w1) \<and>
      may_learn from1 (get_dag i p) d' \<and>
      dag_table i' = (dag_table i)(dao_key (nd_rpl_dao_of (take 20 msg)) \<mapsto> d') \<and>
      (if complete
       then ex = Dao_done \<and> (\<exists>es. routes_for (ifindex i) (childs d') es \<and>
         w_trace w' = w_trace w @ es @ [Sendmsg (icmp_call i (the (ifaddr_src i)) from1
           (dao_ack_message (dao_instanceid (nd_rpl_dao_of (take 20 msg))) d'))])
       else ex = Dao_opt_length_mismatch \<and> w_trace w' = w_trace w)))"
proof (cases "20 \<le> len")
  case True
  let ?dao = "nd_rpl_dao_of (take 20 msg)"
  have inv: "keys_inv i" and src: "ifaddr_src i = Some (the (ifaddr_src i))" using ok by (auto simp: iface_ok_def)
  obtain f where f: "lookup_key i (dao_key ?dao) = Inr f" using lookup_key_no_fault [OF inv] by blast
  then have dl: "dag_lookup i (dao_instanceid ?dao) (dao_dagid ?dao) = Inr f" by (simp add: lookup_key_def dao_key_def)
  from run True have rd: "mem_read msg 0 20 = Inr (take 20 msg)"
    by (auto simp: process_dao_def mem_read_def Let_def split: if_splits)
  show ?thesis
  proof (cases f)
    case None
    then show ?thesis using run True rd dl ok ds.absent_iff [OF inv] f by (simp add: process_dao_def Let_def)
  next
    case (Some p)
    with f have k: "lookup_key i (dao_key ?dao) = Inr (Some p)" by simp
    note kk = iface_ok_lookupD [OF ok k]
    from run True rd dl Some obtain complete d' w1 where o: "dao_options E msg from1 20 (int (len - 20)) (get_dag i p) w = Inr (complete, d', w1)"
      and rest: "(if \<not> complete then Inr (Dao_opt_length_mismatch, upd_dag i p (\<lambda>_. d'), w1)
         else bind_res (send_dao_ack E (upd_dag i p (\<lambda>_. d')) from1 p (add_child_routes E (ifindex i) (childs d') w1))
           (\<lambda>(i, w). Inr (Dao_done, i, w))) = Inr (ex, i', w')"
      unfolding process_dao_def Let_def by (auto elim!: bind_resE cong: if_cong)
    have l: "may_learn from1 (get_dag i p) d'" "same_io w w1" using dao_options_may_learn [OF o] by auto
    have d': "wf_dag d'" "rank_ok d'" "dodagid d' = dodagid (get_dag i p)"
      using wf_may_learn [OF l(1) kk(2) from1] rank_may_learn [OF l(1)] kk(3) by auto
    note u = iface_ok_upd [OF ok k d']
    show ?thesis
    proof (cases complete)
      case False
      then show ?thesis using rest o l u True k by (auto simp: same_io_def)
    next
      case c: True
      let ?i = "upd_dag i p (\<lambda>_. d')" and ?w = "add_child_routes E (ifindex i) (childs d') w1"
      from rest c have s: "send_dao_ack E ?i from1 p ?w = Inr (i', w')" and ex: "ex = Dao_done"
        by (auto elim!: bind_resE)
      have g: "get_dag ?i p = d'" using kk(4) by simp
      have "i' = ?i" "w_trace w' = w_trace ?w @ [Sendmsg (icmp_call ?i (the (ifaddr_src i)) from1 (dao_ack_message (dao_instanceid ?dao) d'))]"
        using send_dao_ack_InrD [OF s, of "the (ifaddr_src i)"] kk d' src g by (auto simp: wf_dag_def dao_key_def)
      moreover have "icmp_call ?i = icmp_call i" by (simp add: icmp_call_def fun_eq_iff)
      moreover obtain es where "w_trace ?w = w_trace w @ es" "routes_for (ifindex i) (childs d') es"
        using add_child_routes_trace [of E "ifindex i" "childs d'" w1] l(2) by (auto simp: same_io_def)
      ultimately show ?thesis using o l u True k c ex
        by (intro conjI disjI2 exI [of _ p] exI [of _ w1] exI [of _ complete] exI [of _ d']) auto
    qed
  qed
qed (use run ok in \<open>simp add: process_dao_def\<close>)

lemma process_dao_total:
  assumes mem: "memory_available E" and ok: "iface_ok i" and from1: "wf_addr from1"
    and len: "len \<le> length msg"
  shows "(\<exists>ex i' w'. process_dao E i msg len from1 w = Inr (ex, i', w')) \<or>
    process_dao E i msg len from1 w = Inl Out_of_bounds \<and> length msg < len + 18"
proof (cases "20 \<le> len")
  case True
  let ?dao = "nd_rpl_dao_of (take 20 msg)"
  have inv: "keys_inv i" and src: "ifaddr_src i = Some (the (ifaddr_src i))" using ok by (auto simp: iface_ok_def)
  obtain f where f: "lookup_key i (dao_key ?dao) = Inr f" using lookup_key_no_fault [OF inv] by blast
  then have dl: "dag_lookup i (dao_instanceid ?dao) (dao_dagid ?dao) = Inr f" by (simp add: lookup_key_def dao_key_def)
  have rd: "mem_read msg 0 20 = Inr (take 20 msg)" using True len by (simp add: mem_read_Inr)
  show ?thesis
  proof (cases f)
    case None
    then show ?thesis using True rd dl by (simp add: process_dao_def Let_def)
  next
    case (Some p)
    with f have k: "lookup_key i (dao_key ?dao) = Inr (Some p)" by simp
    note kk = iface_ok_lookupD [OF ok k]
    let ?o = "dao_options E msg from1 20 (int (len - 20)) (get_dag i p) w"
    show ?thesis
    proof (cases ?o)
      case (Inl e)
      moreover have "\<not> 20 + nat (int (len - 20)) + 18 \<le> length msg"
        using dao_options_total [of 20 "int (len - 20)" msg E from1 "get_dag i p" w] Inl by auto
      then have "length msg < len + 18" using True by linarith
      ultimately show ?thesis using dao_options_Inl [OF Inl] True rd dl Some by (simp add: process_dao_def Let_def)
    next
      case (Inr r)
      then obtain complete d' w1 where o: "?o = Inr (complete, d', w1)" by (metis prod_cases3)
      have "wf_dag d'" using wf_may_learn [OF _ kk(2) from1] dao_options_may_learn [OF o] by blast
      then have "\<exists>i' w'. send_dao_ack E (upd_dag i p (\<lambda>_. d')) from1 p w2 = Inr (i', w')" for w2
        using send_dao_ack_fits [OF mem, of "upd_dag i p (\<lambda>_. d')" p "the (ifaddr_src i)" from1 w2] kk src
        by (simp add: wf_dag_def)
      with True rd dl Some o show ?thesis
        by (cases complete) (simp_all add: process_dao_def Let_def, metis bind_res_simps(2) case_prod_conv)
    qed
  qed
qed (simp add: process_dao_def)

subsection \<open>A DAO at its receiver\<close>

lemma dao_message_header:
  assumes "wf_dag d" "msg = drop 4 (dao_message iid d) @ rest"
  shows "dao_key (nd_rpl_dao_of (take 20 msg)) = (iid, dodagid d)"
  using assms daoack.length_enc [OF dao_of_dag_wf [OF assms(1), of iid]]
  by (simp add: dao_message_def nd_rpl_daoack_bytes_def nd_rpl_dao_of_def dao_key_def dao_of_dag_def wf_dag_def wf_addr_def)

text \<open>The handler on a message whose header finds a dag, from what the option loop does.\<close>

lemma process_dao_of_options:
  assumes "keys_inv i" "length hdr = 20" "dag_table i (dao_key (nd_rpl_dao_of hdr)) = Some d" "msg = hdr @ rest" "20 \<le> len"
  shows "dao_options E msg from1 20 (int (len - 20)) d w = Inl e \<Longrightarrow> process_dao E i msg len from1 w = Inl e"
    and "memory_available E \<Longrightarrow> iface_ok i \<Longrightarrow> wf_addr from1 \<Longrightarrow>
      dao_options E msg from1 20 (int (len - 20)) d w = Inr (True, d', w1) \<Longrightarrow>
      \<exists>i' w'. process_dao E i msg len from1 w = Inr (Dao_done, i', w') \<and>
        dag_table i' = (dag_table i)(dao_key (nd_rpl_dao_of hdr) \<mapsto> d')"
proof -
  obtain p where p: "lookup_key i (dao_key (nd_rpl_dao_of hdr)) = Inr (Some p)" "get_dag i p = d"
    using ds.presentE [OF assms(1,3)] by blast
  have h: "take 20 msg = hdr" "mem_read msg 0 20 = Inr hdr" using assms(2,4) by (simp_all add: mem_read_def)
  have dl: "dag_lookup i (dao_instanceid (nd_rpl_dao_of hdr)) (dao_dagid (nd_rpl_dao_of hdr)) = Inr (Some p)"
    using p(1) by (simp add: lookup_key_def dao_key_def)
  show "dao_options E msg from1 20 (int (len - 20)) d w = Inl e \<Longrightarrow> process_dao E i msg len from1 w = Inl e"
    using assms(5) h dl p(2) by (simp add: process_dao_def Let_def)
  assume ok: "memory_available E" "iface_ok i" "wf_addr from1"
    and o: "dao_options E msg from1 20 (int (len - 20)) d w = Inr (True, d', w1)"
  note kk = iface_ok_lookupD [OF ok(2) p(1)]
  have src: "ifaddr_src i = Some (the (ifaddr_src i))" using ok(2) by (auto simp: iface_ok_def)
  have "wf_dag d'" using wf_may_learn [OF _ kk(2) ok(3)] dao_options_may_learn [OF o] p(2) by blast
  then have "\<exists>i' w'. send_dao_ack E (upd_dag i p (\<lambda>_. d')) from1 p w2 = Inr (i', w')" for w2
    using send_dao_ack_fits [OF ok(1), of "upd_dag i p (\<lambda>_. d')" p "the (ifaddr_src i)" from1 w2] kk src
    by (simp add: wf_dag_def)
  with assms(5) h dl o p(2) obtain i' w' where run: "process_dao E i msg len from1 w = Inr (Dao_done, i', w')"
    by (simp add: process_dao_def Let_def) (metis bind_res_simps(2) case_prod_conv)
  from process_dao_spec [OF ok(2,3) run] assms(3,5) h(1) o p run
  show "\<exists>i' w'. process_dao E i msg len from1 w = Inr (Dao_done, i', w') \<and>
      dag_table i' = (dag_table i)(dao_key (nd_rpl_dao_of hdr) \<mapsto> d')" by auto
qed

lemma dao_round_trip_options:
  assumes mem: "memory_available E" and wf: "wf_dag d" and "msg = drop 4 (dao_message iid d) @ rest"
    "len = length (dao_message iid d) - 4"
  shows "\<exists>w'. dao_options E msg from1 20 (int (len - 20)) dr w =
    Inr (True, dr\<lparr>childs := learn from1 (self d # map child_addr (childs d)) (childs dr)\<rparr>, w')"
proof -
  let ?h = "nd_rpl_daoack_bytes (dao_of_dag iid d)" and ?as = "self d # map child_addr (childs d)"
  have h: "length ?h = 20" by (rule daoack.length_enc [OF dao_of_dag_wf [OF wf]])
  have as: "\<forall>a \<in> set ?as. wf_addr a" using wf by (auto simp: wf_dag_def wf_child_def)
  have m: "msg = ?h @ concat (map target_bytes ?as) @ rest" using assms(3) by (simp add: dao_message_def)
  have l: "int (len - 20) = 20 * int (length ?as)"
    using assms(4) dao_chunks_message(3) [OF wf, of iid] by simp
  from dao_options_targets [OF mem as, of ?h rest from1 dr w] show ?thesis
    unfolding m l h by auto
qed

lemma dao_delivery:
  assumes mem: "memory_available E" and ok: "iface_ok i" and from1: "wf_addr from1" and wf: "wf_dag d"
    and k: "dag_table i (iid, dodagid d) = Some dr"
    and m: "msg = drop 4 (dao_message iid d) @ rest" and slack: "18 \<le> length rest"
  shows "\<exists>i' w' es. process_dao E i msg (length (dao_message iid d) - 4) from1 w = Inr (Dao_done, i', w') \<and>
    (let d' = dr\<lparr>childs := learn from1 (self d # map child_addr (childs d)) (childs dr)\<rparr> in
     dag_table i' = (dag_table i)((iid, dodagid d) \<mapsto> d') \<and> routes_for (ifindex i) (childs d') es \<and>
     w_trace w' = w_trace w @ es @ [Sendmsg (icmp_call i (the (ifaddr_src i)) from1 (dao_ack_message iid d'))])"
proof -
  let ?len = "length (dao_message iid d) - 4"
  have hk: "dao_key (nd_rpl_dao_of (take 20 msg)) = (iid, dodagid d)" by (rule dao_message_header [OF wf m])
  have "?len + 18 \<le> length msg" using slack dao_chunks_message(3) [OF wf, of iid] by (simp add: m)
  then obtain ex i' w' where run: "process_dao E i msg ?len from1 w = Inr (ex, i', w')"
    using process_dao_total [OF mem ok from1, of ?len msg w] by auto
  have len: "20 \<le> ?len" using dao_chunks_message(3) [OF wf, of iid] by simp
  have inv: "keys_inv i" using ok by (simp add: iface_ok_def)
  obtain p where p: "lookup_key i (iid, dodagid d) = Inr (Some p)" "get_dag i p = dr"
    using ds.presentE [OF inv k] by blast
  obtain w2 where o: "dao_options E msg from1 20 (int (?len - 20)) dr w =
      Inr (True, dr\<lparr>childs := learn from1 (self d # map child_addr (childs d)) (childs dr)\<rparr>, w2)"
    using dao_round_trip_options [OF mem wf m refl] by blast
  from process_dao_spec [OF ok from1 run] k p len obtain es where
    "ex = Dao_done" "dag_table i' = (dag_table i)((iid, dodagid d) \<mapsto> dr\<lparr>childs := learn from1 (self d # map child_addr (childs d)) (childs dr)\<rparr>)"
    "routes_for (ifindex i) (learn from1 (self d # map child_addr (childs d)) (childs dr)) es"
    "w_trace w' = w_trace w @ es @ [Sendmsg (icmp_call i (the (ifaddr_src i)) from1
       (dao_ack_message iid (dr\<lparr>childs := learn from1 (self d # map child_addr (childs d)) (childs dr)\<rparr>)))]"
    using o hk by (auto simp: dao_key_def)
  with run show ?thesis by (auto simp: Let_def)
qed

subsection \<open>DAO-ACK\<close>

lemma process_daoack_spec:
  assumes "keys_inv i" "20 \<le> len" "len \<le> length msg"
  shows "\<exists>w'. process_daoack E i msg len from1 w =
      Inr (if dag_table i (daoack_key (nd_rpl_daoack_of (take 20 msg))) = None then Daoack_no_dag else Daoack_done, i, w') \<and>
    w_trace w' = w_trace w @ (case daoack_gateway i msg of None \<Rightarrow> []
      | Some a \<Rightarrow> [Netlink (route_default_request (sys_time E (w_trace w)) (ifindex i) a)])"
proof -
  let ?m = "nd_rpl_daoack_of (take 20 msg)"
  obtain f where f: "lookup_key i (daoack_key ?m) = Inr f" using lookup_key_no_fault [OF assms(1)] by blast
  then have dl: "dag_lookup i (daoack_instanceid ?m) (daoack_dagid ?m) = Inr f" by (simp add: lookup_key_def daoack_key_def)
  have t: "dag_table i (daoack_key ?m) = map_option (get_dag i) f" using ds.lookup_table [OF assms(1) f] .
  have rd: "mem_read msg 0 20 = Inr (take 20 msg)" using assms by (simp add: mem_read_Inr)
  show ?thesis
  proof (cases f)
    case (Some p)
    then show ?thesis using assms rd dl t
      by (cases "parent (get_dag i p)")
        (auto simp: process_daoack_def daoack_gateway_def nl_request_defs nl_talk_world split_def)
  qed (use assms rd dl t in \<open>simp add: process_daoack_def daoack_gateway_def\<close>)
qed

lemma learn_addrs: "child_addr ` set (learn from1 as cs) = child_addr ` set cs \<union> set as"
  by (induction from1 as cs rule: learn.induct) auto

lemma learn_distinct: "distinct (map child_addr cs) \<Longrightarrow> distinct (map child_addr (learn from1 as cs))"
  by (induction from1 as cs rule: learn.induct) auto

lemma daoack_header:
  assumes "wf_addr (dodagid d)" "msg = drop 4 (dao_ack_message iid d) @ rest"
  shows "daoack_key (nd_rpl_daoack_of (take 20 msg)) = (iid, dodagid d)" "length (dao_ack_message iid d) = 24"
  using assms by (simp_all add: dao_ack_message_def nd_rpl_daoack_bytes_def nd_rpl_daoack_of_def daoack_key_def
      dao_ack_of_dag_def wf_addr_def)

lemma daoack_delivery:
  assumes "keys_inv i" "dag_table i (iid, dodagid d) = Some dr" "parent dr = Some pe" "wf_addr (dodagid d)"
  shows "\<exists>w'. process_daoack E i (drop 4 (dao_ack_message iid d) @ rest) (length (dao_ack_message iid d) - 4) from1 w
      = Inr (Daoack_done, i, w') \<and>
    w_trace w' = w_trace w @ [Netlink (route_default_request (sys_time E (w_trace w)) (ifindex i) (peer_addr pe))]"
proof -
  define msg where m: "msg = drop 4 (dao_ack_message iid d) @ rest"
  note h = daoack_header [OF assms(4) m]
  have "20 \<le> length (dao_ack_message iid d) - 4" "length (dao_ack_message iid d) - 4 \<le> length msg"
    using h(2) by (simp_all add: m)
  from process_daoack_spec [OF assms(1) this, of E from1 w] show ?thesis
    unfolding m [symmetric] by (simp add: h(1) daoack_gateway_def assms(2,3))
qed

end
