(* ===== verification/Dis_Handler.thy ===== *)
theory Dis_Handler
  imports Dio_Handler
begin

section \<open>What process_dis does\<close>

text \<open>
  A DIS makes the node send one DIO for every dag of the interface, in the order of the lists.
\<close>

subsection \<open>Definitions\<close>

definition bump_dtsn :: "dag \<Rightarrow> dag" where
  "bump_dtsn d = d\<lparr>dtsn := dtsn d + 1\<rparr>"

definition dag_ptrs :: "iface \<Rightarrow> nat list \<Rightarrow> dag_ptr list" where
  "dag_ptrs i rs = concat (map (\<lambda>r. map (Pair r) [0..<length (dags (rpls i ! r))]) rs)"

definition dio_event :: "iface \<Rightarrow> dag_ptr \<Rightarrow> event" where
  "dio_event i p = Sendmsg (icmp_call i (the (ifaddr_src i)) all_rpl_addr
     (dio_message (instance_id (rpls i ! fst p)) (get_dag i p)))"

text \<open>What a sweep over some of the dags leaves in place.\<close>

definition swept :: "iface \<Rightarrow> dag_ptr set \<Rightarrow> iface \<Rightarrow> bool" where
  "swept i P i' \<longleftrightarrow> iface_ok i' \<and> ifindex i' = ifindex i \<and> length (rpls i') = length (rpls i) \<and>
     (\<forall>r. length (dags (rpls i' ! r)) = length (dags (rpls i ! r))) \<and>
     (\<forall>q. dag_key i' q = dag_key i q \<and> get_dag i' q = (if q \<in> P then bump_dtsn (get_dag i q) else get_dag i q))"

definition all_ptrs :: "iface \<Rightarrow> dag_ptr list" where
  "all_ptrs i = dag_ptrs i [0..<length (rpls i)]"

subsection \<open>Lemmas\<close>

lemma bump_dtsn_simps [simp]:
  "dodagid (bump_dtsn d) = dodagid d" "wf_dag (bump_dtsn d) = wf_dag d" "rank_ok (bump_dtsn d) = rank_ok d"
  by (simp_all add: bump_dtsn_def wf_dag_def rank_ok_def split: option.splits)

lemma send_dio_step:
  assumes mem: "memory_available E" and ok: "iface_ok i" and p: "valid_dag i p"
  shows "\<exists>w'. send_dio E i p w = Inr (upd_dag i p bump_dtsn, w') \<and> w_trace w' = w_trace w @ [dio_event i p] \<and>
    iface_ok (upd_dag i p bump_dtsn)"
proof -
  have inv: "keys_inv i" and src: "ifaddr_src i = Some (the (ifaddr_src i))" using ok by (auto simp: iface_ok_def)
  have k: "lookup_key i (dag_key i p) = Inr (Some p)" by (rule dag_lookup_key [OF inv p])
  note kk = iface_ok_lookupD [OF ok k]
  obtain i' w' where s: "send_dio E i p w = Inr (i', w')" using send_dio_fits [OF mem kk(2,6) src] by blast
  have "iface_ok (upd_dag i p (\<lambda>_. bump_dtsn (get_dag i p)))"
    using kk by (intro iface_ok_upd(1) [OF ok k]) simp_all
  then have "iface_ok (upd_dag i p bump_dtsn)" by (simp only: upd_dag_const)
  moreover have "(\<lambda>d. d\<lparr>dtsn := dtsn d + 1\<rparr>) = bump_dtsn" by (simp add: bump_dtsn_def fun_eq_iff)
  ultimately show ?thesis using send_dio_InrD [OF s kk(2,6) src] s by (simp add: dio_event_def)
qed

lemma dio_event_upd: "valid_dag i p \<Longrightarrow> q \<noteq> p \<Longrightarrow> dio_event (upd_dag i p f) q = dio_event i q"
  by (simp add: dio_event_def get_upd_dag_other icmp_call_def)

lemma get_upd_dag_if:
  "valid_dag i p \<Longrightarrow> get_dag (upd_dag i p f) q = (if q = p then f (get_dag i p) else get_dag i q)"
  using get_upd_dag_other [of p q i f] by auto

lemma length_dags_upd [simp]: "length (dags (rpls (upd_dag i p f) ! r)) = length (dags (rpls i ! r))"
  by (simp add: upd_dag_def nth_list_update_if)

lemma send_dios_spec:
  assumes "memory_available E" "iface_ok i" "distinct ps" "\<forall>p \<in> set ps. valid_dag i p"
  shows "\<exists>i' w'. send_dios E i ps w = Inr (i', w') \<and> swept i (set ps) i' \<and>
    w_trace w' = w_trace w @ map (dio_event i) ps"
  using assms(2-4)
proof (induction ps arbitrary: i w)
  case (Cons p ps)
  let ?i = "upd_dag i p bump_dtsn"
  obtain w1 where s: "send_dio E i p w = Inr (?i, w1)" "w_trace w1 = w_trace w @ [dio_event i p]" "iface_ok ?i"
    using send_dio_step [OF assms(1) Cons.prems(1), of p w] Cons.prems(3) by auto
  then obtain i' w' where r: "send_dios E ?i ps w1 = Inr (i', w')" "swept ?i (set ps) i'"
      "w_trace w' = w_trace w1 @ map (dio_event ?i) ps"
    using Cons.IH [of ?i w1] Cons.prems by auto
  have "map (dio_event ?i) ps = map (dio_event i) ps" using Cons.prems by (intro map_cong refl dio_event_upd) auto
  moreover have "swept i (set (p # ps)) i'"
    using r(2) Cons.prems by (auto simp: swept_def get_upd_dag_if)
  ultimately show ?case using s r by auto
qed (simp add: swept_def)

lemma send_dios_append:
  "send_dios E i (ps @ qs) w = bind_res (send_dios E i ps w) (\<lambda>(i, w). send_dios E i qs w)"
  by (induction E i ps w rule: send_dios.induct) (simp_all add: bind_res_assoc split_def)

lemma dis_rpls_send_dios:
  assumes "memory_available E" "iface_ok i" "\<forall>r \<in> set rs. r < length (rpls i)"
  shows "dis_rpls E i rs w = send_dios E i (dag_ptrs i rs) w"
  using assms(2,3)
proof (induction rs arbitrary: i w)
  case (Cons r rs)
  let ?ps = "map (Pair r) [0..<length (dags (rpls i ! r))]"
  have "distinct ?ps" "\<forall>p \<in> set ?ps. valid_dag i p"
    using Cons.prems(2) by (auto simp: distinct_map inj_on_def valid_dag_def)
  from send_dios_spec [OF assms(1) Cons.prems(1) this] obtain i1 w1 where
    s: "send_dios E i ?ps w = Inr (i1, w1)" "swept i (set ?ps) i1" by blast
  have "\<not> rpl_freed (rpls i ! r)" using Cons.prems by (auto simp: iface_ok_def keys_inv_def)
  moreover have "dis_rpls E i1 rs w1 = send_dios E i1 (dag_ptrs i1 rs) w1"
    using Cons.IH [of i1 w1] Cons.prems s(2) by (auto simp: swept_def)
  moreover have "dag_ptrs i1 rs = dag_ptrs i rs" using s(2) by (simp add: dag_ptrs_def swept_def)
  moreover have "dag_ptrs i (r # rs) = ?ps @ dag_ptrs i rs" by (simp add: dag_ptrs_def)
  ultimately show ?case using s(1) by (simp add: send_dios_append)
qed (simp add: dag_ptrs_def)

lemma all_ptrs_set: "set (all_ptrs i) = {p. valid_dag i p}"
  by (auto simp: all_ptrs_def dag_ptrs_def valid_dag_def)

lemma all_ptrs_distinct: "distinct (all_ptrs i)"
proof -
  have "distinct rs \<Longrightarrow> distinct (dag_ptrs i rs)" for rs
    by (induction rs) (auto simp: dag_ptrs_def distinct_map inj_on_def)
  then show ?thesis by (simp add: all_ptrs_def)
qed

lemma swept_valid:
  assumes "swept i P i'" shows "valid_dag i' q = valid_dag i q"
  using assms by (simp add: swept_def valid_dag_def)

lemma swept_table:
  assumes "iface_ok i" "swept i {p. valid_dag i p} i'"
  shows "dag_table i' k = map_option bump_dtsn (dag_table i k)"
proof -
  have inv: "keys_inv i" "keys_inv i'" using assms by (auto simp: iface_ok_def swept_def)
  have l: "lookup_key i' k = Inr (Some q) \<longleftrightarrow> lookup_key i k = Inr (Some q)" for q
    using assms(2) swept_valid [OF assms(2)] by (cases q) (simp add: lookup_key_iff inv swept_def)
  obtain r where r: "lookup_key i k = Inr r" using lookup_key_no_fault [OF inv(1)] by blast
  obtain r' where r': "lookup_key i' k = Inr r'" using lookup_key_no_fault [OF inv(2)] by blast
  show ?thesis
  proof (cases r)
    case None
    then have "r' = None" using l r r' by (cases r') auto
    then show ?thesis using None r r' by (simp add: dag_table_def)
  next
    case (Some p)
    then have "valid_dag i p" using r lookup_key_iff [OF inv(1)] by simp
    then show ?thesis using Some r l [of p] assms(2) by (cases p) (simp add: dag_table_def swept_def)
  qed
qed

lemma process_dis_spec:
  assumes "memory_available E" "iface_ok i"
  shows "\<exists>i' w'. process_dis E i msg len from1 w = Inr (i', w') \<and> iface_ok i' \<and> ifindex i' = ifindex i \<and>
    (\<forall>k. dag_table i' k = map_option bump_dtsn (dag_table i k)) \<and>
    w_trace w' = w_trace w @ map (dio_event i) (all_ptrs i)"
proof -
  have "process_dis E i msg len from1 w = send_dios E i (all_ptrs i) w"
    using dis_rpls_send_dios [OF assms] by (simp add: process_dis_def all_ptrs_def)
  with send_dios_spec [OF assms all_ptrs_distinct, of i w] swept_table [OF assms(2)] show ?thesis
    by (auto simp: all_ptrs_set swept_def)
qed

text \<open>The events of a sweep, in terms of the lists themselves.\<close>

lemma dag_ptrs_entries:
  "map (\<lambda>p. (instance_id (rpls i ! fst p), get_dag i p)) (dag_ptrs i rs) =
   concat (map (\<lambda>r. map (Pair (instance_id (rpls i ! r))) (dags (rpls i ! r))) rs)"
proof (induction rs)
  case (Cons r rs)
  have "map (\<lambda>k. (instance_id (rpls i ! r), dags (rpls i ! r) ! k)) [0..<length (dags (rpls i ! r))] =
      map (Pair (instance_id (rpls i ! r))) (dags (rpls i ! r))"
    by (rule nth_equalityI) simp_all
  with Cons show ?case by (simp add: dag_ptrs_def get_dag_def o_def)
qed (simp add: dag_ptrs_def)

lemma all_ptrs_entries:
  "map (\<lambda>p. (instance_id (rpls i ! fst p), get_dag i p)) (all_ptrs i) =
   concat (map (\<lambda>r. map (Pair (instance_id r)) (dags r)) (rpls i))"
proof -
  have "map (\<lambda>r. map (Pair (instance_id r)) (dags r)) (rpls i) =
      map (\<lambda>r. map (Pair (instance_id (rpls i ! r))) (dags (rpls i ! r))) [0..<length (rpls i)]"
    by (rule nth_equalityI) simp_all
  then show ?thesis by (simp add: all_ptrs_def dag_ptrs_entries)
qed

lemma dio_events_entries:
  "map (dio_event i) ps = map (\<lambda>(iid, d). Sendmsg (icmp_call i (the (ifaddr_src i)) all_rpl_addr (dio_message iid d)))
     (map (\<lambda>p. (instance_id (rpls i ! fst p), get_dag i p)) ps)"
  by (simp add: dio_event_def)

end
