(* ===== verification/Daemon.thy ===== *)
theory Daemon
  imports Recv Dao_Handler Dis_Handler
begin

section \<open>rpld.c: the event loop\<close>

text \<open>
  The callbacks of \<open>rpld.c\<close> on the daemon's state, the list of interfaces, and the loop of
  libev as a step relation: in every step one watcher fires and its callback runs to its
  end. Which watcher fires when is libev's business, so every order of events is a run. A
  step exists only when its callback returns; that it does is a theorem of its own.
\<close>

subsection \<open>The callbacks\<close>

definition icmpv6_cb :: "env \<Rightarrow> iface list \<Rightarrow> recvmsg_result \<Rightarrow> world \<Rightarrow> (iface list \<times> world) res" where
  "icmpv6_cb E is r w =
     (let (len, hoplimit, pkt_info) = recv_rs_ra r in
      if len > 0 \<and> pkt_info \<noteq> None
      then bind_res (process E is (rm_buf r) len (rm_from r) pkt_info w) (\<lambda>(ex, is, w). Inr (is, w))
      else Inr (is, w))"

definition trickle_cb :: "env \<Rightarrow> iface list \<Rightarrow> nat \<Rightarrow> dag_ptr \<Rightarrow> world \<Rightarrow> (iface list \<times> world) res" where
  "trickle_cb E is k p w =
     bind_res (send_dio E (is ! k) p w) (\<lambda>(i, w). Inr (is[k := i], w))"

definition send_dis_cb :: "env \<Rightarrow> iface list \<Rightarrow> nat \<Rightarrow> world \<Rightarrow> (iface list \<times> world) res" where
  "send_dis_cb E is k w =
     (let w = emit (Ev_timer_stop (Dis_w (ifindex (is ! k)))) w in
      bind_res (send_dis E (is ! k) w) (\<lambda>(i, w). Inr (is[k := i], w)))"

text \<open>\<open>rpld_setup\<close>: the loops over interfaces, instances and dags; the calls' results are not looked at.\<close>

fun setup_dags :: "env \<Rightarrow> iface \<Rightarrow> rpl \<Rightarrow> dag list \<Rightarrow> world \<Rightarrow> world" where
  "setup_dags E i r [] w = w"
| "setup_dags E i r (d # ds) w =
     (let w = emit (Ev_timer_start (Trickle_w (ifindex i) (instance_id r) (dodagid d)) (trickle_t d) (trickle_t d)) w;
          w = (if dodag_root i then snd (nl_add_addr E (ifindex i) (dodagid d) w) else w)
      in setup_dags E i r ds w)"

fun setup_rpls :: "env \<Rightarrow> iface \<Rightarrow> rpl list \<Rightarrow> world \<Rightarrow> world res" where
  "setup_rpls E i [] w = Inr w"
| "setup_rpls E i (r # rs) w =
     (if rpl_freed r then Inl Use_after_free else setup_rpls E i rs (setup_dags E i r (dags r) w))"

fun rpld_setup :: "env \<Rightarrow> iface list \<Rightarrow> world \<Rightarrow> (int \<times> world) res" where
  "rpld_setup E [] w = Inr (0, w)"
| "rpld_setup E (i # is) w =
     (let w = emit (Ev_timer_start (Dis_w (ifindex i)) 1 1) w in
      bind_res (setup_rpls E i (rpls i) w) (\<lambda>w. rpld_setup E is w))"

subsection \<open>The loop\<close>

datatype wakeup = Packet recvmsg_result | Trickle nat dag_ptr | Dis_timer nat

definition dispatch :: "env \<Rightarrow> iface list \<Rightarrow> wakeup \<Rightarrow> world \<Rightarrow> (iface list \<times> world) res" where
  "dispatch E is e w =
     (case e of
        Packet r \<Rightarrow> icmpv6_cb E is r w
      | Trickle k p \<Rightarrow> trickle_cb E is k p w
      | Dis_timer k \<Rightarrow> send_dis_cb E is k w)"

text \<open>A watcher that can fire: it belongs to an interface, or a dag, that exists.\<close>

definition enabled :: "iface list \<Rightarrow> wakeup \<Rightarrow> bool" where
  "enabled is e =
     (case e of
        Packet r \<Rightarrow> recv_wf r
      | Trickle k p \<Rightarrow> k < length is \<and> valid_dag (is ! k) p
      | Dis_timer k \<Rightarrow> k < length is)"

inductive daemon_step :: "env \<Rightarrow> iface list \<times> world \<Rightarrow> wakeup \<Rightarrow> iface list \<times> world \<Rightarrow> bool" for E where
  Wake: "enabled is e \<Longrightarrow> dispatch E is e w = Inr (is', w') \<Longrightarrow> daemon_step E (is, w) e (is', w')"

inductive daemon_run :: "env \<Rightarrow> iface list \<times> world \<Rightarrow> wakeup list \<Rightarrow> iface list \<times> world \<Rightarrow> bool" for E where
  Idle: "daemon_run E s [] s"
| Turn: "daemon_run E s es t \<Longrightarrow> daemon_step E t e u \<Longrightarrow> daemon_run E s (es @ [e]) u"

subsection \<open>Invariant, evolution, bounds\<close>

text \<open>
  The parent of a dag is chosen once; its rank only falls; a root stays a root; children are
  only added; the identity of the dag never changes.
\<close>

definition evolves :: "dag \<Rightarrow> dag \<Rightarrow> bool" where
  "evolves d d' \<longleftrightarrow> dodagid d' = dodagid d \<and> version d' = version d \<and> dest d' = dest d \<and>
     (\<exists>cs. childs d' = childs d @ cs) \<and>
     (my_rank d = 1 \<longrightarrow> my_rank d' = 1 \<and> parent d' = parent d) \<and>
     (\<forall>pe. parent d = Some pe \<longrightarrow>
        (\<exists>pe'. parent d' = Some pe' \<and> peer_addr pe' = peer_addr pe \<and> peer_rank pe' \<le> peer_rank pe))"

definition table_evolves :: "iface \<Rightarrow> iface \<Rightarrow> bool" where
  "table_evolves i i' \<longleftrightarrow> ifindex i' = ifindex i \<and>
     (\<forall>k d. dag_table i k = Some d \<longrightarrow> (\<exists>d'. dag_table i' k = Some d' \<and> evolves d d'))"

definition state_ok :: "iface list \<Rightarrow> bool" where
  "state_ok is \<longleftrightarrow> (\<forall>i \<in> set is. iface_ok i)"

definition state_evolves :: "iface list \<Rightarrow> iface list \<Rightarrow> bool" where
  "state_evolves is is' \<longleftrightarrow> list_all2 table_evolves is is'"

text \<open>
  The bounds under which no callback faults: eighteen bytes of the receive buffer stay free
  behind the message (a target option may be read that far beyond its end), and the DAO with
  all children of a dag fits into a buffer of 64 KiB.
\<close>

definition state_fits :: "iface list \<Rightarrow> bool" where
  "state_fits is \<longleftrightarrow> (\<forall>i \<in> set is. \<forall>d \<in> ran (dag_table i). dao_fits d)"

definition short_packet :: "recvmsg_result \<Rightarrow> bool" where
  "short_packet r \<longleftrightarrow> rm_len r \<le> int MSG_SIZE_RECV - 18"

subsection \<open>Lemmas\<close>

inductive_simps daemon_step_iff: "daemon_step E (is, w) e (is', w')"
inductive_cases daemon_runE: "daemon_run E s es t"

subsection \<open>How a dag can change\<close>

lemma evolves_refl [simp]: "evolves d d"
  by (simp add: evolves_def)

lemma evolves_trans:
  assumes "evolves a b" "evolves b c"
  shows "evolves a c"
proof -
  obtain cs cs' where "childs b = childs a @ cs" "childs c = childs b @ cs'"
    using assms by (auto simp: evolves_def)
  then have "\<exists>cs. childs c = childs a @ cs" by auto
  moreover have "parent a = Some pe \<Longrightarrow>
      \<exists>pe'. parent c = Some pe' \<and> peer_addr pe' = peer_addr pe \<and> peer_rank pe' \<le> peer_rank pe" for pe
  proof -
    assume "parent a = Some pe"
    then obtain pb where "parent b = Some pb" "peer_addr pb = peer_addr pe" "peer_rank pb \<le> peer_rank pe"
      using assms(1) by (auto simp: evolves_def)
    then show ?thesis using assms(2) by (fastforce simp: evolves_def)
  qed
  ultimately show ?thesis using assms by (simp add: evolves_def)
qed

lemma table_evolves_refl [simp]: "table_evolves i i"
  by (simp add: table_evolves_def)

lemma table_evolves_trans: "table_evolves i j \<Longrightarrow> table_evolves j k \<Longrightarrow> table_evolves i k"
  unfolding table_evolves_def by (metis evolves_trans)

lemma state_evolves_refl [simp]: "state_evolves is is"
  by (simp add: state_evolves_def list_all2_refl)

lemma state_evolves_trans: "state_evolves is js \<Longrightarrow> state_evolves js ks \<Longrightarrow> state_evolves is ks"
  unfolding state_evolves_def using list_all2_trans [of table_evolves table_evolves table_evolves]
  by (metis table_evolves_trans)

lemma state_evolves_update:
  "k < length is \<Longrightarrow> table_evolves (is ! k) i' \<Longrightarrow> state_evolves is (is[k := i'])"
  by (auto simp: state_evolves_def list_all2_conv_all_nth nth_list_update_if)

lemma table_evolves_upd:
  assumes "dag_table i' = (dag_table i)(k \<mapsto> d')" "ifindex i' = ifindex i" "\<And>d. dag_table i k = Some d \<Longrightarrow> evolves d d'"
  shows "table_evolves i i'"
  using assms by (auto simp: table_evolves_def)

subsection \<open>One message\<close>

lemma evolves_dio_result:
  assumes "dio_result E d from1 rank a d'" "rank_accepted d rank" "my_rank d \<noteq> 1"
  shows "evolves d d'"
  using assms by (auto simp: dio_result_def evolves_def dao_sent_simps rank_accepted_def)

lemma process_dio_evolves:
  assumes "memory_available E" "length (stack_junk E) = 16" "iface_ok i" "wf_addr from1"
    "process_dio E i msg len from1 w = Inr (ex, i', w')"
  shows "table_evolves i i'"
  using process_dio_spec [OF assms]
proof (elim disjE conjE exE)
  fix d d'
  let ?dio = "nd_rpl_dio_of (take 24 msg)"
  assume a: "dio_accepted E i ?dio msg (len - 24) from1 w d d' i' w'"
  then obtain a where r: "dio_result E d from1 (ntohs (dio_dagrank ?dio)) a d'" "rank_accepted d (ntohs (dio_dagrank ?dio))"
    and s: "dio_subject E i ?dio msg (len - 24) d" and t: "dag_table i' = (dag_table i)(dio_key ?dio \<mapsto> d')"
      "ifindex i' = ifindex i"
    by (auto simp: dio_accepted_def)
  have "evolves e d'" if "dag_table i (dio_key ?dio) = Some e" for e
    using that s evolves_dio_result [OF r] by (auto simp: dio_subject_def)
  then show ?thesis using table_evolves_upd t by blast
qed simp

lemma evolves_may_learn: "may_learn from1 d d' \<Longrightarrow> evolves d d'"
  by (auto simp: may_learn_def evolves_def)

lemma process_dao_evolves:
  assumes "iface_ok i" "wf_addr from1" "process_dao E i msg len from1 w = Inr (ex, i', w')"
  shows "table_evolves i i'"
proof -
  have "keys_inv i" using assms(1) by (simp add: iface_ok_def)
  note present = ds.present [OF this]
  from process_dao_spec [OF assms] have ix: "ifindex i' = ifindex i" by simp
  from process_dao_spec [OF assms] show ?thesis
  proof (elim conjE disjE exE)
    fix p d'
    assume "lookup_key i (dao_key (nd_rpl_dao_of (take 20 msg))) = Inr (Some p)" "may_learn from1 (get_dag i p) d'"
      and t: "dag_table i' = (dag_table i)(dao_key (nd_rpl_dao_of (take 20 msg)) \<mapsto> d')"
    then show ?thesis using table_evolves_upd [OF t ix] present evolves_may_learn by auto
  qed simp
qed

lemma process_dis_evolves:
  assumes "memory_available E" "iface_ok i" "process_dis E i msg len from1 w = Inr (i', w')"
  shows "table_evolves i i' \<and> iface_ok i'"
  using process_dis_spec [OF assms(1,2), of msg len from1 w] assms(3)
  by (auto simp: table_evolves_def evolves_def bump_dtsn_def)

lemma process_daoack_evolves:
  assumes "keys_inv i" "process_daoack E i msg len from1 w = Inr (ex, i', w')"
  shows "i' = i"
  using assms by (auto simp: process_daoack_def split_def Let_def split: if_splits option.splits elim!: bind_resE)

lemma find_by_ifindex_SomeD:
  "iface_find_by_ifindex is ifi = Some k \<Longrightarrow> k < length is \<and> ifindex (is ! k) = ifi"
  using iface_list.lookup_found [of "is" ifi k] by simp

lemma process_InrE:
  assumes "process E is msg len from1 pkt_info w = Inr (ex, is', w')"
  obtains "is' = is" "w' = w"
  | k i' where "k < length is" "is' = is[k := i']" "4 \<le> len" "pkt_info = Some (ifindex (is ! k))"
      "process_dis E (is ! k) (drop 4 msg) (nat (len - 4)) from1 w = Inr (i', w') \<or>
       (\<exists>x. msg ! 0 = ND_RPL_MESSAGE \<and> msg ! 1 = ND_RPL_DAG_IO \<and>
         process_dio E (is ! k) (drop 4 msg) (nat (len - 4)) from1 w = Inr (x, i', w')) \<or>
       (\<exists>x. process_dao E (is ! k) (drop 4 msg) (nat (len - 4)) from1 w = Inr (x, i', w')) \<or>
       (\<exists>x. process_daoack E (is ! k) (drop 4 msg) (nat (len - 4)) from1 w = Inr (x, i', w'))"
proof (cases "\<exists>ifi k code. pkt_info = Some ifi \<and> 4 \<le> len \<and> iface_find_by_ifindex is ifi = Some k \<and>
    mem_u8 msg 0 = Inr ND_RPL_MESSAGE \<and> mem_u8 msg 1 = Inr code")
  case True
  then obtain ifi k code where c: "pkt_info = Some ifi" "4 \<le> len" "iface_find_by_ifindex is ifi = Some k"
    "mem_u8 msg 0 = Inr ND_RPL_MESSAGE" "mem_u8 msg 1 = Inr code" by blast
  have k: "k < length is" "pkt_info = Some (ifindex (is ! k))" using find_by_ifindex_SomeD [OF c(3)] c(1) by auto
  have m: "msg ! 0 = ND_RPL_MESSAGE" "msg ! 1 = code" using c(4,5) by (auto simp: mem_u8_def split: if_splits)
  note r = assms [unfolded process_def c(1), simplified, unfolded c(3), simplified, unfolded c(4,5), simplified, unfolded Let_def]
  consider "code = ND_RPL_DAG_IS" | "code = ND_RPL_DAG_IO" | "code = ND_RPL_DAO" | "code = ND_RPL_DAO_ACK"
    | "code \<notin> {ND_RPL_DAG_IS, ND_RPL_DAG_IO, ND_RPL_DAO, ND_RPL_DAO_ACK}" by blast
  then show ?thesis
    by cases (use c(2) r m that(1) that(2) [OF k(1) _ c(2) k(2)] in
      \<open>auto simp: ND_RPL_DAG_IS_def ND_RPL_DAG_IO_def ND_RPL_DAO_def ND_RPL_DAO_ACK_def elim!: bind_resE\<close>)
next
  case False
  then show ?thesis using assms that(1)
    by (auto simp: process_def Let_def split: option.splits if_splits elim!: bind_resE)
qed

lemma process_evolves:
  assumes "memory_available E" "length (stack_junk E) = 16" "state_ok is" "wf_addr from1"
    "process E is msg len from1 pkt_info w = Inr (ex, is', w')"
  shows "state_ok is' \<and> state_evolves is is'"
  using assms(5)
proof (cases rule: process_InrE)
  case (2 k i')
  then have ok: "iface_ok (is ! k)" and inv: "keys_inv (is ! k)" using assms(3) by (auto simp: state_ok_def iface_ok_def)
  have "table_evolves (is ! k) i' \<and> iface_ok i'"
    using 2(5)
  proof (elim disjE exE conjE)
    fix x assume r: "process_dio E (is ! k) (drop 4 msg) (nat (len - 4)) from1 w = Inr (x, i', w')"
    show ?thesis
      using process_dio_evolves [OF assms(1,2) ok assms(4) r] process_dio_iface_ok [OF assms(1,2) ok assms(4) r] by simp
  next
    fix x assume r: "process_dao E (is ! k) (drop 4 msg) (nat (len - 4)) from1 w = Inr (x, i', w')"
    show ?thesis using process_dao_evolves [OF ok assms(4) r] process_dao_spec [OF ok assms(4) r] by simp
  next
    fix x assume r: "process_daoack E (is ! k) (drop 4 msg) (nat (len - 4)) from1 w = Inr (x, i', w')"
    show ?thesis using process_daoack_evolves [OF inv r] ok by simp
  qed (rule process_dis_evolves [OF assms(1) ok])
  then show ?thesis
    using 2(1,2) state_evolves_update assms(3) by (auto simp: state_ok_def dest!: subsetD [OF set_update_subset_insert])
qed (use assms(3) in simp)

subsection \<open>One wakeup, and runs\<close>

lemma send_dis_state:
  assumes "iface_ok i" "send_dis E i w = Inr (i', w')"
  shows "i' = i"
  using assms send_dis_Inr(1) by (auto simp: iface_ok_def)

lemma trickle_evolves:
  assumes mem: "memory_available E" and ok: "iface_ok i" and p: "valid_dag i p" and s: "send_dio E i p w = Inr (i', w')"
  shows "table_evolves i i' \<and> iface_ok i'"
proof -
  have inv: "keys_inv i" using ok by (simp add: iface_ok_def)
  have k: "lookup_key i (dag_key i p) = Inr (Some p)" by (rule dag_lookup_key [OF inv p])
  have i': "i' = upd_dag i p bump_dtsn" "iface_ok i'" using send_dio_step [OF mem ok p, of w] s by auto
  have "dag_table i' = (dag_table i)(dag_key i p \<mapsto> bump_dtsn (get_dag i p))"
    using dag_table_upd [OF inv k, of bump_dtsn] i'(1) by simp
  moreover have "evolves (get_dag i p) (bump_dtsn (get_dag i p))" by (simp add: evolves_def bump_dtsn_def)
  ultimately show ?thesis using table_evolves_upd [of i' i "dag_key i p"] ds.present [OF inv k] i' by simp
qed

lemma state_ok_update: "state_ok is \<Longrightarrow> iface_ok i' \<Longrightarrow> state_ok (is[k := i'])"
  by (auto simp: state_ok_def dest!: subsetD [OF set_update_subset_insert])

lemma dispatch_evolves:
  assumes mem: "memory_available E" and junk: "length (stack_junk E) = 16" and ok: "state_ok is" and en: "enabled is e"
    and run: "dispatch E is e w = Inr (is', w')"
  shows "state_ok is' \<and> state_evolves is is'"
proof (cases e)
  case (Packet r)
  show ?thesis
  proof (cases "fst (recv_rs_ra r) > 0 \<and> snd (snd (recv_rs_ra r)) \<noteq> None")
    case True
    then obtain ex where "process E is (rm_buf r) (fst (recv_rs_ra r)) (rm_from r) (snd (snd (recv_rs_ra r))) w = Inr (ex, is', w')"
      using run Packet by (auto simp: dispatch_def icmpv6_cb_def split_def Let_def elim!: bind_resE)
    moreover have "wf_addr (rm_from r)" using en Packet by (simp add: enabled_def recv_wf_def)
    ultimately show ?thesis using process_evolves [OF mem junk ok] by blast
  next
    case False
    then show ?thesis using run Packet ok by (auto simp: dispatch_def icmpv6_cb_def split_def Let_def)
  qed
next
  case (Trickle k p)
  then have k: "k < length is" "valid_dag (is ! k) p" using en by (auto simp: enabled_def)
  obtain i' where s: "send_dio E (is ! k) p w = Inr (i', w')" "is' = is[k := i']"
    using run Trickle by (auto simp: dispatch_def trickle_cb_def elim!: bind_resE)
  have "iface_ok (is ! k)" using ok k by (simp add: state_ok_def)
  with trickle_evolves [OF mem this k(2) s(1)] show ?thesis
    using s(2) ok k(1) by (simp add: state_ok_update state_evolves_update)
next
  case (Dis_timer k)
  then have k: "k < length is" using en by (auto simp: enabled_def)
  then have "iface_ok (is ! k)" using ok by (simp add: state_ok_def)
  then obtain i' where "i' = is ! k" "is' = is[k := i']"
    using run Dis_timer send_dis_state [of "is ! k" E "emit (Ev_timer_stop (Dis_w (ifindex (is ! k)))) w" _ w']
    by (auto simp: dispatch_def send_dis_cb_def Let_def elim!: bind_resE)
  then show ?thesis using ok by simp
qed

lemma run_evolves:
  assumes "daemon_run E s es t" "memory_available E" "length (stack_junk E) = 16" "state_ok (fst s)"
  shows "state_ok (fst t) \<and> state_evolves (fst s) (fst t)"
  using assms
proof (induction rule: daemon_run.induct)
  case (Turn s es t e u)
  then have 1: "state_ok (fst t)" "state_evolves (fst s) (fst t)" by auto
  obtain "is" w is' w' where tu: "t = (is, w)" "u = (is', w')" by (metis surj_pair)
  with Turn.hyps(2) have "enabled is e" "dispatch E is e w = Inr (is', w')" by (auto simp: daemon_step_iff)
  from dispatch_evolves [OF Turn.prems(1,2) _ this] 1 tu show ?case by (auto intro: state_evolves_trans)
qed simp

subsection \<open>Every callback returns\<close>

lemma process_daoack_total:
  assumes "keys_inv i" "len \<le> length msg"
  shows "\<exists>ex i' w'. process_daoack E i msg len from1 w = Inr (ex, i', w')"
proof (cases "20 \<le> len")
  case True
  from process_daoack_spec [OF assms(1) True assms(2), of E from1 w] show ?thesis by blast
qed (simp add: process_daoack_def)

lemma process_total:
  assumes mem: "memory_available E" and junk: "length (stack_junk E) = 16" and ok: "state_ok is" and from1: "wf_addr from1"
    and len: "nat len \<le> length msg"
  shows "(\<exists>ex is' w'. process E is msg len from1 (Some ifi) w = Inr (ex, is', w')) \<or>
    process E is msg len from1 (Some ifi) w = Inl Out_of_bounds \<and>
      (msg ! 1 = ND_RPL_DAG_IO \<and> 128 < unat (msg ! 30) \<or> msg ! 1 = ND_RPL_DAO \<and> length msg < nat len + 18) \<or>
    process E is msg len from1 (Some ifi) w = Inl (Exit 1) \<and> msg ! 1 = ND_RPL_DAG_IO \<and> \<not> state_fits is"
proof (cases "4 \<le> len \<and> iface_find_by_ifindex is ifi \<noteq> None \<and> msg ! 0 = ND_RPL_MESSAGE")
  case True
  then obtain k where f: "iface_find_by_ifindex is ifi = Some k" by auto
  have k: "k < length is" using find_by_ifindex_SomeD [OF f] by simp
  have i: "iface_ok (is ! k)" "keys_inv (is ! k)" using ok k by (auto simp: state_ok_def iface_ok_def)
  have fits: "\<exists>d \<in> ran (dag_table (is ! k)). \<not> dao_fits d \<Longrightarrow> \<not> state_fits is" using k by (auto simp: state_fits_def)
  let ?m = "drop 4 msg" and ?n = "nat (len - 4)"
  have n: "?n \<le> length ?m" using True len by auto
  have u: "mem_u8 msg 0 = Inr ND_RPL_MESSAGE" "mem_u8 msg 1 = Inr (msg ! 1)"
    using True len by (auto simp: mem_u8_def)
  have "4 \<le> length msg" using True len by linarith
  then have 26: "?m ! 26 = msg ! 30" by simp
  note defs = process_def f u Let_def
  note totals = process_dis_spec [OF mem i(1), of ?m ?n from1 w] process_daoack_total [OF i(2) n, of E from1 w]
    process_dao_total [OF mem i(1) from1 n, of w] process_dio_total [OF mem junk i(1) from1 n, of w]
  consider "msg ! 1 = ND_RPL_DAG_IS" | "msg ! 1 = ND_RPL_DAG_IO" | "msg ! 1 = ND_RPL_DAO" | "msg ! 1 = ND_RPL_DAO_ACK"
    | "msg ! 1 \<notin> {ND_RPL_DAG_IS, ND_RPL_DAG_IO, ND_RPL_DAO, ND_RPL_DAO_ACK}" by blast
  then show ?thesis
    by cases (use True totals 26 fits len in
      \<open>auto simp: defs ND_RPL_DAG_IS_def ND_RPL_DAG_IO_def ND_RPL_DAO_def ND_RPL_DAO_ACK_def simp del: One_nat_def\<close>)
next
  case False
  then show ?thesis using len by (auto simp: process_def mem_u8_def Let_def split: option.splits)
qed

lemma dispatch_total:
  assumes mem: "memory_available E" and junk: "length (stack_junk E) = 16" and ok: "state_ok is" and en: "enabled is e"
  shows "(\<exists>is' w'. dispatch E is e w = Inr (is', w')) \<or>
    (\<exists>r. e = Packet r \<and>
       (dispatch E is e w = Inl Out_of_bounds \<and> rm_buf r ! 1 = ND_RPL_DAG_IO \<and> 128 < unat (rm_buf r ! 30) \<or>
        dispatch E is e w = Inl Out_of_bounds \<and> rm_buf r ! 1 = ND_RPL_DAO \<and> \<not> short_packet r \<or>
        dispatch E is e w = Inl (Exit 1) \<and> rm_buf r ! 1 = ND_RPL_DAG_IO \<and> \<not> state_fits is))"
proof (cases e)
  case (Packet r)
  have wf: "wf_addr (rm_from r)" "length (rm_buf r) = 1500" "rm_len r \<le> 1500"
    using en Packet by (auto simp: enabled_def recv_wf_def MSG_SIZE_RECV_def)
  have "fst (recv_rs_ra r) \<le> rm_len r \<or> fst (recv_rs_ra r) = -1" by (auto simp: recv_rs_ra_def split_def Let_def)
  then have len: "nat (fst (recv_rs_ra r)) \<le> length (rm_buf r)"
    and short: "length (rm_buf r) < nat (fst (recv_rs_ra r)) + 18 \<Longrightarrow> \<not> short_packet r"
    using wf by (auto simp: short_packet_def MSG_SIZE_RECV_def)
  from process_total [OF mem junk ok wf(1) len, of "the (snd (snd (recv_rs_ra r)))" w] short show ?thesis
    by (auto simp: Packet dispatch_def icmpv6_cb_def split_def Let_def)
next
  case (Trickle k p)
  then have k: "k < length is" "valid_dag (is ! k) p" using en by (auto simp: enabled_def)
  have "iface_ok (is ! k)" using ok k by (simp add: state_ok_def)
  from send_dio_step [OF mem this k(2), of w] show ?thesis by (auto simp: Trickle dispatch_def trickle_cb_def)
next
  case (Dis_timer k)
  then have k: "k < length is" using en by (auto simp: enabled_def)
  then have "iface_ok (is ! k)" using ok by (simp add: state_ok_def)
  then obtain src where "ifaddr_src (is ! k) = Some src" by (auto simp: iface_ok_def)
  from send_dis_Inr(2) [OF this mem, of "emit (Ev_timer_stop (Dis_w (ifindex (is ! k)))) w"] show ?thesis
    by (auto simp: Dis_timer dispatch_def send_dis_cb_def Let_def)
qed

end
