(* ===== verification/Config_Load.thy ===== *)
theory Config_Load
  imports Config Daemon
begin

section \<open>What a successful load of the configuration gives\<close>

text \<open>
  The interfaces \<open>config_load\<close> hands to the event loop satisfy the loop's invariant, and on a
  root every configured dag is there as the root's own. The hypothesis is documented
  behaviour of the library (\<open>sys_ok\<close>: \<open>inet_pton\<close> stores sixteen bytes). A configuration may
  name prefixes longer than an address, which \<open>config_load\<close> does not refuse: \<open>prefixes_ok\<close> says
  that it does not, and the invariant holds exactly when no loaded dag has such a prefix.
\<close>

subsection \<open>Definitions\<close>

definition sys_ok :: "sys_api \<Rightarrow> bool" where
  "sys_ok S \<longleftrightarrow> (\<forall>s a. inet_pton S s = Some a \<longrightarrow> wf_addr a)"

text \<open>A dag of its root: rank one, no parent, no child, the DODAG id as its own address.\<close>

definition root_of_itself :: "dag \<Rightarrow> bool" where
  "root_of_itself d \<longleftrightarrow> wf_addr (dodagid d) \<and> wf_prefix (dest d) \<and> my_rank d = 1 \<and> parent d = None \<and>
     self d = dodagid d \<and> childs d = []"

definition loaded :: "iface \<Rightarrow> bool" where
  "loaded i \<longleftrightarrow> keys_inv i \<and> ll_ok i \<and> (\<forall>d \<in> ran (dag_table i). root_of_itself d)"

definition short_prefixes :: "iface \<Rightarrow> bool" where
  "short_prefixes i \<longleftrightarrow> (\<forall>d \<in> ran (dag_table i). unat (pfx_len (dest d)) \<le> 128)"

definition dag_keys :: "iface \<Rightarrow> (u8 \<times> in6_addr) set" where
  "dag_keys i = dom (dag_table i)"

text \<open>The DODAG id an entry of the configuration spells out, and the keys of an interface's entries.\<close>

definition entry_dodagid :: "sys_api \<Rightarrow> 'v lua_api \<Rightarrow> 'v \<Rightarrow> in6_addr option" where
  "entry_dodagid S L v =
     (case lua_getfield L v ''dodagid'' of Inl _ \<Rightarrow> None
      | Inr f \<Rightarrow> Option.bind (lua_tostring L f) (inet_pton S))"

definition table_field :: "'v lua_api \<Rightarrow> 'v \<Rightarrow> string \<Rightarrow> 'v list" where
  "table_field L v name = (case lua_getfield L v name of Inl _ \<Rightarrow> [] | Inr f \<Rightarrow> lua_values L f)"

definition prefix_ok :: "sys_api \<Rightarrow> 'v lua_api \<Rightarrow> 'v \<Rightarrow> bool" where
  "prefix_ok S L e \<longleftrightarrow>
     (case lua_getfield L e ''dest_prefix'' of Inl _ \<Rightarrow> True
      | Inr f \<Rightarrow> (case lua_tostring L f of None \<Rightarrow> True
        | Some s \<Rightarrow> (case parse_ipv6_prefix S s of Inr (Some p) \<Rightarrow> unat (pfx_len p) \<le> 128 | _ \<Rightarrow> True)))"

definition prefixes_ok :: "sys_api \<Rightarrow> 'v lua_api \<Rightarrow> 'v \<Rightarrow> bool" where
  "prefixes_ok S L v \<longleftrightarrow> (\<forall>inst \<in> set (table_field L v ''rpls''). \<forall>e \<in> set (table_field L inst ''dags''). prefix_ok S L e)"

definition entry_instance :: "'v lua_api \<Rightarrow> 'v \<Rightarrow> u8 option" where
  "entry_instance L v =
     (case lua_getfield L v ''instance'' of Inl _ \<Rightarrow> None
      | Inr f \<Rightarrow> (case lua_tonumber L f of None \<Rightarrow> None
        | Some x \<Rightarrow> (case number_to_u8 x of Inl _ \<Rightarrow> None | Inr n \<Rightarrow> Some n)))"

definition configured_keys :: "sys_api \<Rightarrow> 'v lua_api \<Rightarrow> 'v \<Rightarrow> (u8 \<times> in6_addr) set" where
  "configured_keys S L v = {(iid, did). \<exists>inst \<in> set (table_field L v ''rpls''). entry_instance L inst = Some iid \<and>
     (\<exists>e \<in> set (table_field L inst ''dags''). entry_dodagid S L e = Some did)}"

text \<open>An interface as the configuration's entry \<open>v\<close> describes it.\<close>

definition iface_loaded :: "sys_api \<Rightarrow> 'v lua_api \<Rightarrow> 'v \<Rightarrow> iface \<Rightarrow> bool" where
  "iface_loaded S L v i \<longleftrightarrow>
     (\<exists>f. lua_getfield L v ''ifname'' = Inr f \<and> lua_tostring L f = Some (ifname i)) \<and>
     (\<exists>f. lua_getfield L v ''dodag_root'' = Inr f \<and> lua_toboolean L f = Some (dodag_root i)) \<and> loaded i \<and> ifindex i \<noteq> 0 \<and> ifindex i = if_nametoindex S (ifname i) \<and>
     ifaddr_src i = Some (ifaddr i) \<and> take 8 (ifaddr i) = ll_prefix \<and>
     (if dodag_root i then configured_keys S L v \<subseteq> dag_keys i else rpls i = []) \<and>
     (prefixes_ok S L v \<longrightarrow> short_prefixes i)"

text \<open>
  A step of the loading keeps an interface loaded and adds to its table the keys \<open>ks\<close>; if the
  prefixes it reads are short (\<open>short\<close>), those of the interface stay so.
\<close>

definition loads :: "bool \<Rightarrow> iface \<Rightarrow> iface \<Rightarrow> (u8 \<times> in6_addr) set \<Rightarrow> bool" where
  "loads short i i' ks \<longleftrightarrow> loaded i' \<and> (\<exists>rs. i' = i\<lparr>rpls := rs\<rparr>) \<and> dag_keys i \<subseteq> dag_keys i' \<and>
     ks \<subseteq> dag_keys i' \<and> (short \<longrightarrow> short_prefixes i \<longrightarrow> short_prefixes i')"

subsection \<open>One dag\<close>

lemma parse_wf:
  assumes "sys_ok S" "parse_ipv6_prefix S s = Inr (Some p)"
  shows "wf_prefix p"
proof -
  obtain ip num where "s = ip @ CHR ''/'' # num" "CHR ''/'' \<notin> set ip" "CHR ''/'' \<notin> set num"
    using assms(2) by (rule parse_SomeE)
  with assms show ?thesis by (auto simp: parse_split sys_ok_def wf_prefix_def split: if_splits option.splits)
qed

lemma random_prefix_wf:
  "gen_random_private_ula_pfx rnd = (rc, p) \<Longrightarrow> rc = 0 \<and> wf_prefix p \<and> pfx_len p = 64"
proof -
  have "length (foldl (\<lambda>p i. p[i := f i]) xs is) = length xs" for f :: "nat \<Rightarrow> u8" and xs "is"
    by (induction "is" arbitrary: xs) auto
  then show "gen_random_private_ula_pfx rnd = (rc, p) \<Longrightarrow> rc = 0 \<and> wf_prefix p \<and> pfx_len p = 64"
    by (auto simp: gen_random_private_ula_pfx_def wf_prefix_def wf_addr_def)
qed

lemma dag_prefix_wf:
  assumes "sys_ok S" "dag_prefix S L v w = Inr (Some p)"
  shows "wf_prefix p \<and> (prefix_ok S L v \<longrightarrow> unat (pfx_len p) \<le> 128)"
proof -
  from assms(2) obtain f where f: "lua_getfield L v ''dest_prefix'' = Inr f"
    and r: "(case lua_tostring L f of Some s \<Rightarrow> parse_ipv6_prefix S s
     | None \<Rightarrow> (let (rc, p) = gen_random_private_ula_pfx (sys_random S (w_trace w))
                in if rc = -1 then Inr None else Inr (Some p))) = Inr (Some p)"
    unfolding dag_prefix_def by (rule bind_resE)
  show ?thesis
  proof (cases "lua_tostring L f")
    case None
    with r have "gen_random_private_ula_pfx (sys_random S (w_trace w)) = (0, p)"
      by (auto simp: gen_random_private_ula_pfx_def)
    from random_prefix_wf [OF this] show ?thesis by simp
  next
    case (Some s)
    with r have p: "parse_ipv6_prefix S s = Inr (Some p)" by simp
    with f Some parse_wf [OF assms(1)] show ?thesis by (auto simp: prefix_ok_def)
  qed
qed

lemma gen_stateless_wf:
  assumes "ll_ok i" "wf_prefix p" "gen_stateless_addr p (llinfo i) = Inr (rc, a)" "rc \<noteq> -1"
  shows "wf_addr a"
proof -
  have "pfx_len p = 64 \<and> addr_len (llinfo i) = 8" using assms(3,4) gen_stateless_addr_unsupported [of p "llinfo i"] by auto
  moreover then obtain b where "ll_addr (llinfo i) = Some b" "length b = 8" using assms(1) by (auto simp: ll_ok_def)
  ultimately show ?thesis
    using assms(3) gen_stateless_addr_Inr [OF assms(2), of "llinfo i" b] assms(2) by (auto simp: wf_prefix_def wf_addr_def)
qed

lemma dag_dodagid_wf:
  assumes "sys_ok S" "ll_ok i" "wf_prefix p" "dag_dodagid S L (llinfo i) p v = Inr (Some did)"
  shows "wf_addr did \<and> (\<forall>x. entry_dodagid S L v = Some x \<longrightarrow> did = x)"
proof -
  from assms(4) obtain f where f: "lua_getfield L v ''dodagid'' = Inr f"
    and r: "(case lua_tostring L f of Some s \<Rightarrow> Inr (inet_pton S s)
     | None \<Rightarrow> bind_res (gen_stateless_addr p (llinfo i)) (\<lambda>(rc, a). Inr (if rc = -1 then None else Some a))) = Inr (Some did)"
    unfolding dag_dodagid_def by (rule bind_resE)
  show ?thesis
  proof (cases "lua_tostring L f")
    case None
    with r obtain rc where "gen_stateless_addr p (llinfo i) = Inr (rc, did)" "rc \<noteq> -1"
      by (auto elim!: bind_resE split: if_splits)
    with None f show ?thesis using gen_stateless_wf [OF assms(2,3)] by (auto simp: entry_dodagid_def)
  next
    case (Some s)
    with r f assms(1) show ?thesis by (auto simp: entry_dodagid_def sys_ok_def)
  qed
qed

lemma dag_create_known:
  assumes "keys_inv i" "lookup_key i (iid, did) = Inr (Some q)"
  shows "\<exists>i' w'. dag_create E i iid did t rank ver dst w = Inr (None, i', w')"
proof -
  have "dag_lookup_rpl (rpls i) iid = Inr (index_of instance_id (rpls i) iid)"
    using assms(1) by (intro rpl_list.lookup_live) (simp add: keys_inv_def)
  moreover have "dag_lookup_dodag ds did = index_of dodagid ds did" for ds
    using dag_list.lookup_live [of ds did] by simp
  ultimately show ?thesis using assms(2)
    by (auto simp: dag_create_def lookup_key_def dag_lookup_index [OF assms(1)] split: option.splits)
qed

lemma root_dag_created:
  assumes ok: "loaded i" and mem: "memory_available E" and wf: "wf_addr did" "wf_prefix dst"
    and r: "dag_create E i iid did t 1 ver (Some dst) w = Inr (Some p, i1, w1)"
  shows "\<exists>rs. upd_dag i1 p (\<lambda>d. d\<lparr>self := did\<rparr>) = i\<lparr>rpls := rs\<rparr> \<and> loaded (i\<lparr>rpls := rs\<rparr>) \<and>
    dag_keys (i\<lparr>rpls := rs\<rparr>) = insert (iid, did) (dag_keys i) \<and>
    (unat (pfx_len dst) \<le> 128 \<longrightarrow> short_prefixes i \<longrightarrow> short_prefixes (i\<lparr>rpls := rs\<rparr>))"
proof -
  have inv: "keys_inv i" using ok by (simp add: loaded_def)
  obtain x where x: "lookup_key i (iid, did) = Inr x" using lookup_key_no_fault [OF inv] by blast
  then have none: "lookup_key i (iid, did) = Inr None"
    using dag_create_known [OF inv, of iid did _ E t 1 ver "Some dst" w] r by (cases x) auto
  obtain rs where rs: "i1 = i\<lparr>rpls := rs\<rparr>" "keys_inv i1" "lookup_key i1 (iid, did) = Inr (Some p)"
      "dag_table i1 = (dag_table i)((iid, did) \<mapsto> fresh_dag did 1 ver dst)"
    using dag_create_Inr [OF inv none mem, of t 1 ver dst w] r by auto
  have d: "get_dag i1 p = fresh_dag did 1 ver dst" using ds.present [OF rs(2,3)] rs(4) by simp
  let ?i = "upd_dag i1 p (\<lambda>d. d\<lparr>self := did\<rparr>)"
  have u: "keys_inv ?i" "dag_table ?i = (dag_table i1)((iid, did) \<mapsto> (fresh_dag did 1 ver dst)\<lparr>self := did\<rparr>)"
    using ds.upd_store [OF rs(2,3), of "\<lambda>d. d\<lparr>self := did\<rparr>"] by (simp_all add: d)
  have "root_of_itself ((fresh_dag did 1 ver dst)\<lparr>self := did\<rparr>)"
    using wf by (simp add: root_of_itself_def fresh_dag_def)
  then have "\<forall>d \<in> ran (dag_table ?i). root_of_itself d"
    using ok by (auto simp: u(2) rs(4) loaded_def ran_def simp del: split_paired_Ex)
  moreover have i: "?i = i\<lparr>rpls := rpls ?i\<rparr>" by (simp add: rs(1) upd_dag_def)
  moreover have "ll_ok ?i" using ok by (simp add: rs(1) loaded_def ll_ok_def)
  moreover have "dag_keys ?i = insert (iid, did) (dag_keys i)" by (simp add: u(2) rs(4) dag_keys_def)
  moreover have "unat (pfx_len dst) \<le> 128 \<longrightarrow> short_prefixes i \<longrightarrow> short_prefixes ?i"
    by (auto simp: u(2) rs(4) short_prefixes_def fresh_dag_def ran_def simp del: split_paired_Ex)
  ultimately show ?thesis using u(1) unfolding loaded_def by metis
qed


subsection \<open>The loops\<close>

lemma loads_trans: "loads p i j ks \<Longrightarrow> loads q j k ks' \<Longrightarrow> loads (p \<and> q) i k (ks \<union> ks')"
  by (auto simp: loads_def simp del: split_paired_All split_paired_Ex)

lemma loads_mono: "loads p i j ks \<Longrightarrow> ks' \<subseteq> ks \<Longrightarrow> (q \<Longrightarrow> p) \<Longrightarrow> loads q i j ks'"
  by (auto simp: loads_def)

lemma load_dags_loads:
  assumes env: "memory_available E" "sys_ok S"
  shows "load_dags E S L iid vs i w = Inr (0, i', w') \<Longrightarrow> loaded i \<Longrightarrow>
    loads (\<forall>e \<in> set vs. prefix_ok S L e) i i' {(iid, did) |did. \<exists>v \<in> set vs. entry_dodagid S L v = Some did}"
proof (induction vs arbitrary: i w)
  case Nil
  then show ?case by (auto simp: loads_def intro: exI [of _ "rpls i"])
next
  case (Cons v vs)
  from Cons.prems(1) obtain dst t did ver p i1 w1 where
    dst: "dag_prefix S L v w = Inr (Some dst)" and did: "dag_dodagid S L (llinfo i) dst v = Inr (Some did)"
    and c: "dag_create E i iid did t 1 ver (Some dst) w = Inr (Some p, i1, w1)"
    and rest: "load_dags E S L iid vs (upd_dag i1 p (\<lambda>d. d\<lparr>self := did\<rparr>)) w1 = Inr (0, i', w')"
    by (auto elim!: bind_resE split: option.splits)
  have wf: "wf_prefix dst" "prefix_ok S L v \<longrightarrow> unat (pfx_len dst) \<le> 128" using dag_prefix_wf [OF env(2) dst] by auto
  have did': "wf_addr did" "\<forall>x. entry_dodagid S L v = Some x \<longrightarrow> did = x"
    using dag_dodagid_wf [OF env(2) _ wf(1) did] Cons.prems(2) by (auto simp: loaded_def)
  let ?i = "upd_dag i1 p (\<lambda>d. d\<lparr>self := did\<rparr>)"
  have s: "loads (prefix_ok S L v) i ?i {(iid, did)}"
    using root_dag_created [OF Cons.prems(2) env(1) did'(1) wf(1) c] wf(2) by (auto simp: loads_def simp del: split_paired_All)
  then have "loads (\<forall>e \<in> set vs. prefix_ok S L e) ?i i' {(iid, did) |did. \<exists>v \<in> set vs. entry_dodagid S L v = Some did}"
    using Cons.IH [OF rest] by (simp add: loads_def)
  from loads_trans [OF s this] show ?case by (rule loads_mono) (use did'(2) in auto)
qed

lemma config_load_dags_loads:
  assumes env: "memory_available E" "sys_ok S" and r: "config_load_dags E S L v iid i w = Inr (0, i', w')" and ok: "loaded i"
  shows "loads (\<forall>e \<in> set (table_field L v ''dags''). prefix_ok S L e) i i' {(iid, did) |did. \<exists>e \<in> set (table_field L v ''dags''). entry_dodagid S L e = Some did}"
proof -
  from r obtain f where "lua_getfield L v ''dags'' = Inr f" "load_dags E S L iid (lua_values L f) i w = Inr (0, i', w')"
    by (auto simp: config_load_dags_def elim!: bind_resE split: if_splits)
  with load_dags_loads [OF env _ ok] show ?thesis by (simp add: table_field_def)
qed

lemma config_load_dags_rc: "config_load_dags E S L v iid i w = Inr (rc, i', w') \<Longrightarrow> rc = 0 \<or> rc = -1"
proof -
  have "load_dags E S L iid vs i w = Inr (rc, i', w') \<Longrightarrow> rc = 0 \<or> rc = -1" for vs
    by (induction vs arbitrary: i w) (auto elim!: bind_resE split: option.splits)
  then show "config_load_dags E S L v iid i w = Inr (rc, i', w') \<Longrightarrow> rc = 0 \<or> rc = -1"
    by (auto simp: config_load_dags_def elim!: bind_resE split: if_splits)
qed

lemma load_instances_loads:
  assumes env: "memory_available E" "sys_ok S"
  shows "load_instances E S L vs i w = Inr (rc, i', w') \<Longrightarrow> rc \<noteq> -1 \<Longrightarrow> loaded i \<Longrightarrow>
    loads (\<forall>inst \<in> set vs. \<forall>e \<in> set (table_field L inst ''dags''). prefix_ok S L e) i i' {(iid, did). \<exists>inst \<in> set vs. entry_instance L inst = Some iid \<and>
      (\<exists>e \<in> set (table_field L inst ''dags''). entry_dodagid S L e = Some did)}"
proof (induction vs arbitrary: i w)
  case Nil
  then show ?case by (auto simp: loads_def intro: exI [of _ "rpls i"])
next
  case (Cons v vs)
  from Cons.prems(1,2) obtain f x iid rc1 i1 w1 where
    f: "lua_getfield L v ''instance'' = Inr f" "lua_tonumber L f = Some x" "number_to_u8 x = Inr iid"
    and c: "config_load_dags E S L v iid i w = Inr (rc1, i1, w1)" "rc1 \<noteq> -1"
    and rest: "load_instances E S L vs i1 w1 = Inr (rc, i', w')"
    by (auto elim!: bind_resE split: option.splits if_splits)
  have iid: "entry_instance L v = Some iid" using f by (simp add: entry_instance_def)
  have "config_load_dags E S L v iid i w = Inr (0, i1, w1)" using config_load_dags_rc [OF c(1)] c by auto
  note s = config_load_dags_loads [OF env this Cons.prems(3)]
  then have "loaded i1" by (simp add: loads_def)
  note s' = Cons.IH [OF rest Cons.prems(2) this]
  show ?case by (rule loads_mono [OF loads_trans [OF s s']]) (auto simp: iid)
qed

lemma config_load_instances_loads:
  assumes env: "memory_available E" "sys_ok S"
    and r: "config_load_instances E S L v i w = Inr (rc, i', w')" "rc \<noteq> -1" and ok: "loaded i"
  shows "loads (prefixes_ok S L v) i i' (configured_keys S L v)"
proof -
  from r obtain f where "lua_getfield L v ''rpls'' = Inr f" "load_instances E S L (lua_values L f) i w = Inr (rc, i', w')"
    by (auto simp: config_load_instances_def elim!: bind_resE split: if_splits)
  moreover from this have "table_field L v ''rpls'' = lua_values L f" by (simp add: table_field_def)
  ultimately show ?thesis using load_instances_loads [OF env _ r(2) ok]
    by (simp add: prefixes_ok_def configured_keys_def)
qed


subsection \<open>Interfaces\<close>

lemma loaded_no_rpls: "rpls i = [] \<Longrightarrow> ll_ok i \<Longrightarrow> loaded i \<and> short_prefixes i"
proof -
  assume "rpls i = []" "ll_ok i"
  moreover from this have "dag_table i = (\<lambda>_. None)" by (auto simp: dag_table_def lookup_key_def dag_lookup_def)
  ultimately show "loaded i \<and> short_prefixes i" by (simp add: loaded_def keys_inv_def short_prefixes_def)
qed

lemma iface_loaded_ok: "iface_loaded S L v i \<Longrightarrow> iface_ok i \<longleftrightarrow> short_prefixes i"
  by (auto simp: iface_loaded_def loaded_def iface_ok_def root_of_itself_def rank_ok_def wf_dag_def short_prefixes_def)

lemma iface_loaded_short: "iface_loaded S L v i \<Longrightarrow> prefixes_ok S L v \<Longrightarrow> iface_ok i"
  by (simp add: iface_loaded_ok) (simp add: iface_loaded_def)

lemma get_iface_addrs_ll:
  assumes "memory_available E" "get_iface_addrs E S name w = Inr (rc, a, as, w')" "rc \<noteq> -1"
  shows "\<exists>x. a = Some x \<and> take 8 x = ll_prefix"
proof -
  obtain xs where "a = find (\<lambda>a. take 8 a = ll_prefix) xs" "a \<noteq> None"
    using get_iface_addrs_Inr [OF assms(1), of S name w] assms(2,3)
    by (auto simp: Let_def split: if_splits)
  then show ?thesis by (auto simp: find_Some_iff dest!: sym [of "Some _"])
qed

text \<open>An interface before its role is known.\<close>

lemma iface_setup_ok:
  assumes env: "memory_available E" and r: "iface_setup E S L v w = Inr (Inr i, w')"
  shows "(\<exists>f. lua_getfield L v ''ifname'' = Inr f \<and> lua_tostring L f = Some (ifname i)) \<and>
    rpls i = [] \<and> ll_ok i \<and> ifindex i \<noteq> 0 \<and> ifindex i = if_nametoindex S (ifname i) \<and>
    ifaddr_src i = Some (ifaddr i) \<and> take 8 (ifaddr i) = ll_prefix"
proof -
  obtain name f w1 rcl ll w2 rc a as where f: "lua_getfield L v ''ifname'' = Inr f" "lua_tostring L f = Some name"
    and n: "if_nametoindex S name \<noteq> 0"
    and ll: "nl_get_llinfo E (link_reply S (if_nametoindex S name)) (if_nametoindex S name) (llinfo zero_iface) w1 = (rcl, ll, w2)"
    and a: "get_iface_addrs E S name w2 = Inr (rc, a, as, w')" "rc \<noteq> -1"
    and i: "i = zero_iface\<lparr>ifname := name, ifindex := if_nametoindex S name, llinfo := ll, ifaddrs := as,
      ifaddr := (case a of None \<Rightarrow> ifaddr zero_iface | Some a \<Rightarrow> a),
      ifaddr_src := Some (case a of None \<Rightarrow> ifaddr zero_iface | Some a \<Rightarrow> a), ifaddrs_count := rc\<rparr>"
    using r by (auto simp: iface_setup_def iface_create_def Let_def split: option.splits if_splits prod.splits elim!: bind_resE)
  obtain x where "a = Some x" "take 8 x = ll_prefix" using get_iface_addrs_ll [OF env a] by blast
  moreover have "addr_len ll = 8 \<longrightarrow> (\<exists>a. ll_addr ll = Some a \<and> length a = 8)"
    by (rule nl_get_llinfo_addr [OF ll env]) (simp add: zero_iface_def)
  ultimately show ?thesis using n f by (simp add: i ll_ok_def zero_iface_def)
qed

lemma load_iface_loaded:
  assumes env: "memory_available E" "sys_ok S" and r: "load_iface E S L v w = Inr (Inr i, w')"
  shows "iface_loaded S L v i"
proof -
  from r obtain j w1 where j: "iface_setup E S L v w = Inr (Inr j, w1)" "iface_role E S L v j w1 = Inr (Inr i, w')"
    by (auto simp: load_iface_def elim!: bind_resE split: sum.splits)
  note s = iface_setup_ok [OF env(1) j(1)]
  have l: "loaded (j\<lparr>dodag_root := b\<rparr>)" "short_prefixes (j\<lparr>dodag_root := b\<rparr>)" for b
    using loaded_no_rpls [of "j\<lparr>dodag_root := b\<rparr>"] s by (simp_all add: ll_ok_def)
  from j(2) obtain f b where f: "lua_getfield L v ''dodag_root'' = Inr f" "lua_toboolean L f = Some b"
    and r: "(if b then bind_res (config_load_instances E S L v (j\<lparr>dodag_root := b\<rparr>) w1) (\<lambda>(rc, i, w).
        if rc = -1 then Inr (Inl rc, w) else Inr (Inr i, w)) else Inr (Inr (j\<lparr>dodag_root := b\<rparr>), w1)) = Inr (Inr i, w')"
    by (auto simp: iface_role_def Let_def elim!: bind_resE split: option.splits)
  show ?thesis
  proof (cases b)
    case False
    with r s l [of False] f show ?thesis by (auto simp: iface_loaded_def)
  next
    case True
    with r obtain rc where "config_load_instances E S L v (j\<lparr>dodag_root := True\<rparr>) w1 = Inr (rc, i, w')" "rc \<noteq> -1"
      by (auto elim!: bind_resE split: if_splits)
    from config_load_instances_loads [OF env this l(1)] l(2) s f True show ?thesis by (auto simp: iface_loaded_def loads_def)
  qed
qed

lemma load_iface_rc: "load_iface E S L v w = Inr (Inl rc, w') \<Longrightarrow> rc = -1"
  by (auto simp: load_iface_def iface_setup_def iface_create_def iface_role_def Let_def
      split: option.splits if_splits prod.splits sum.splits elim!: bind_resE)

lemma config_load_rc: "config_load E S L file is w = Inr (rc, is', w') \<Longrightarrow> rc = 0 \<or> rc = -1"
proof -
  have "load_ifaces E S L vs is w = Inr (rc, is', w') \<Longrightarrow> rc = 0 \<or> rc = -1" for vs
    by (induction vs arbitrary: "is" w) (auto elim!: bind_resE split: sum.splits dest: load_iface_rc)
  then show "config_load E S L file is w = Inr (rc, is', w') \<Longrightarrow> rc = 0 \<or> rc = -1"
    by (auto simp: config_load_def split: if_splits option.splits)
qed

lemma load_ifaces_loaded:
  assumes env: "memory_available E" "sys_ok S"
  shows "load_ifaces E S L vs is w = Inr (0, is', w') \<Longrightarrow> \<exists>js. is' = is @ js \<and> list_all2 (iface_loaded S L) vs js"
proof (induction vs arbitrary: "is" w)
  case (Cons v vs)
  from Cons.prems consider (ret) w1 where "load_iface E S L v w = Inr (Inl 0, w1)"
    | (go) i w1 where "load_iface E S L v w = Inr (Inr i, w1)" "load_ifaces E S L vs (is @ [i]) w1 = Inr (0, is', w')"
    by (auto elim!: bind_resE split: sum.splits)
  then show ?case
  proof cases
    case ret
    then show ?thesis using load_iface_rc by force
  next
    case go
    then obtain js where "is' = (is @ [i]) @ js" "list_all2 (iface_loaded S L) vs js" using Cons.IH [OF go(2)] by auto
    then show ?thesis using load_iface_loaded [OF env go(1)] by auto
  qed
qed simp

lemma config_load_loaded:
  assumes env: "memory_available E" "sys_ok S" and r: "config_load E S L file is w = Inr (0, is', w')"
  shows "\<exists>v js. lua_run L file = Some v \<and> is' = is @ js \<and> list_all2 (iface_loaded S L) (lua_values L v) js"
proof -
  from r obtain v where "lua_run L file = Some v" "load_ifaces E S L (lua_values L v) is w = Inr (0, is', w')"
    by (auto simp: config_load_def split: if_splits option.splits)
  with load_ifaces_loaded [OF env] show ?thesis by blast
qed

lemma loaded_state_ok: "list_all2 (iface_loaded S L) vs js \<Longrightarrow> state_ok js \<longleftrightarrow> (\<forall>i \<in> set js. short_prefixes i)"
  by (induction rule: list_all2_induct) (auto simp: state_ok_def iface_loaded_ok)

lemma loaded_short: "list_all2 (iface_loaded S L) vs js \<Longrightarrow> \<forall>v \<in> set vs. prefixes_ok S L v \<Longrightarrow> state_ok js"
  by (induction rule: list_all2_induct) (auto simp: state_ok_def iface_loaded_short)

lemma loaded_keys: "list_all2 (iface_loaded S L) vs js \<Longrightarrow> \<forall>i \<in> set js. keys_inv i"
  by (induction rule: list_all2_induct) (auto simp: iface_loaded_def loaded_def)

lemma load_dags_append:
  "load_dags E S L iid (xs @ ys) i w = Inr (0, i', w') \<Longrightarrow>
   \<exists>i1 w1. load_dags E S L iid xs i w = Inr (0, i1, w1) \<and> load_dags E S L iid ys i1 w1 = Inr (0, i', w')"
proof (induction xs arbitrary: i w)
  case (Cons x xs)
  from Cons.prems obtain dst t did ver p i1 w1 where
    "dag_prefix S L x w = Inr (Some dst)" "dag_trickle L x = Inr t" "dag_dodagid S L (llinfo i) dst x = Inr (Some did)"
    "dag_version L x = Inr ver" "dag_create E i iid did t 1 ver (Some dst) w = Inr (Some p, i1, w1)"
    "load_dags E S L iid (xs @ ys) (upd_dag i1 p (\<lambda>d. d\<lparr>self := did\<rparr>)) w1 = Inr (0, i', w')"
    by (auto elim!: bind_resE split: option.splits)
  with Cons.IH show ?case by simp
qed simp

lemma load_dags_known:
  assumes "sys_ok S" "loaded i" "entry_dodagid S L e = Some did" "(iid, did) \<in> dag_keys i"
  shows "load_dags E S L iid (e # es) i w \<noteq> Inr (0, i', w')"
proof
  assume "load_dags E S L iid (e # es) i w = Inr (0, i', w')"
  then obtain dst t did' ver p i1 w1 where d: "dag_prefix S L e w = Inr (Some dst)"
    "dag_dodagid S L (llinfo i) dst e = Inr (Some did')" "dag_create E i iid did' t 1 ver (Some dst) w = Inr (Some p, i1, w1)"
    by (auto elim!: bind_resE split: option.splits)
  have inv: "keys_inv i" "ll_ok i" using assms(2) by (auto simp: loaded_def)
  have "did' = did" using dag_dodagid_wf [OF assms(1) inv(2) _ d(2)] dag_prefix_wf [OF assms(1) d(1)] assms(3) by auto
  moreover obtain x where x: "dag_table i (iid, did) = Some x" using assms(4) by (auto simp: dag_keys_def)
  moreover obtain q where "lookup_key i (iid, did) = Inr (Some q)" using ds.presentE [OF inv(1) x] by blast
  ultimately show False using dag_create_known [OF inv(1), of iid did q E t 1 ver "Some dst" w] d(3) by auto
qed

end
