(* ===== verification/Example_Node.thy ===== *)
theory Example_Node
  imports Daemon
begin

section \<open>A concrete node\<close>

text \<open>
  A node that has not joined any dag, a root with one dag and a node below it: the concrete
  inputs, with \<open>env0\<close>, on which the theorems are applied.
\<close>

definition addr_of :: "u8 \<Rightarrow> in6_addr" where
  "addr_of n = [0xfe, 0x80, 0, 0, 0, 0, 0, 0, 0, 0, 0, 0, 0, 0, 0, n]"

definition prefix0 :: in6_prefix where
  "prefix0 = \<lparr>prefix = [0xfd, 0, 0, 0, 0, 0, 0, 0, 0, 0, 0, 0, 0, 0, 0, 0], pfx_len = 64\<rparr>"

definition root_dag :: dag where
  "root_dag = fresh_dag (addr_of 1) 1 1 prefix0"

definition leaf_dag :: dag where
  "leaf_dag = (fresh_dag (addr_of 1) 0xffff 1 prefix0)\<lparr>self := addr_of 3, my_rank := 2,
     parent := Some \<lparr>peer_addr = addr_of 1, peer_rank = 1\<rparr>,
     childs := [\<lparr>child_addr = addr_of 4, child_from = addr_of 5\<rparr>]\<rparr>"

definition iface_with :: "u32 \<Rightarrow> u8 \<Rightarrow> rpl list \<Rightarrow> iface" where
  "iface_with n a rs = \<lparr>ifname = ''lowpan0'', ifindex = n,
     llinfo = \<lparr>ll_addr = Some [2, 0, 0, 0, 0, 0, 0, a], addr_len = 8, ll_ifindex = n\<rparr>,
     ifaddr = addr_of a, ifaddrs = [addr_of a], ifaddrs_count = 1, ifaddr_src = Some (addr_of a),
     rpls = rs, dodag_root = False\<rparr>"

definition new_node :: iface where
  "new_node = iface_with 3 2 []"

definition root_node :: iface where
  "root_node = iface_with 3 1 [\<lparr>instance_id = 7, dags = [root_dag], rpl_freed = False\<rparr>]"

definition leaf_node :: iface where
  "leaf_node = iface_with 3 3 [\<lparr>instance_id = 7, dags = [leaf_dag], rpl_freed = False\<rparr>]"

definition example_packet :: recvmsg_result where
  "example_packet = \<lparr>rm_len = 6, rm_buf = dis_message @ replicate 1494 0, rm_from = addr_of 9,
     rm_cmsgs = [\<lparr>cmsg_level = 41, cmsg_type = 50, cmsg_len = 36, cmsg_int = 0, cmsg_ifindex = 3\<rparr>]\<rparr>"

text \<open>A dag with more children than one DAO can announce.\<close>

definition nth_addr :: "nat \<Rightarrow> in6_addr" where
  "nth_addr n = replicate 14 0 @ [word_of_nat (n div 256), word_of_nat (n mod 256)]"

definition crowded_dag :: dag where
  "crowded_dag = leaf_dag\<lparr>childs := map (\<lambda>n. \<lparr>child_addr = nth_addr n, child_from = addr_of 9\<rparr>) [0..<3275]\<rparr>"

definition crowded_node :: iface where
  "crowded_node = iface_with 3 3 [\<lparr>instance_id = 7, dags = [crowded_dag], rpl_freed = False\<rparr>]"

lemma wf_addr_of [simp]: "wf_addr (addr_of n)"
  by (simp add: wf_addr_def addr_of_def)

lemma addr_of_eq [simp]: "addr_of m = addr_of n \<longleftrightarrow> m = n"
  by (simp add: addr_of_def)

lemma example_dags [simp]: "wf_dag root_dag" "rank_ok root_dag" "wf_dag leaf_dag" "rank_ok leaf_dag"
  "dodagid root_dag = addr_of 1" "dodagid leaf_dag = addr_of 1"
  by (simp_all add: root_dag_def leaf_dag_def wf_dag_def rank_ok_def prefix0_def wf_prefix_def wf_child_def)
    (simp_all add: wf_addr_def)

lemmas example_node_defs = new_node_def root_node_def leaf_node_def iface_with_def

lemma example_nodes_ok [simp]: "iface_ok new_node" "iface_ok root_node" "iface_ok leaf_node"
  by (rule iface_okI; simp add: example_node_defs keys_inv_def ll_ok_def all_dags_def)+

lemma example_tables [simp]:
  "dag_table new_node k = None"
  "dag_table root_node (7, addr_of 1) = Some root_dag"
  "dag_table leaf_node (7, addr_of 1) = Some leaf_dag"
  by (simp_all add: dag_table_def lookup_key_def dag_lookup_def example_node_defs get_dag_def)

lemma example_fits: "state_fits [root_node]"
proof -
  have "d = root_dag" if d: "d \<in> ran (dag_table root_node)" for d
  proof -
    from d obtain k where k: "dag_table root_node k = Some d" by (auto simp: ran_def simp del: split_paired_Ex)
    have inv: "keys_inv root_node" using example_nodes_ok(2) by (simp add: iface_ok_def)
    obtain p where "lookup_key root_node k = Inr (Some p)" "get_dag root_node p = d" using ds.presentE [OF inv k] by blast
    then show ?thesis using lookup_key_iff [OF inv] get_dag_in_all [of root_node p]
      by (auto simp: all_dags_def root_node_def iface_with_def)
  qed
  moreover have "dao_fits root_dag" by (simp add: dao_fits_def root_dag_def)
  ultimately show ?thesis by (auto simp: state_fits_def)
qed

lemma example_run: "\<exists>is' w'. daemon_run env0 ([root_node], world0) [Trickle 0 (0, 0)] (is', w')"
proof -
  have en: "enabled [root_node] (Trickle 0 (0, 0))"
    by (simp add: enabled_def valid_dag_def root_node_def iface_with_def)
  obtain is' w' where "dispatch env0 [root_node] (Trickle 0 (0, 0)) world0 = Inr (is', w')"
    using dispatch_total [of env0 "[root_node]" "Trickle 0 (0, 0)" world0] en example_fits by (auto simp: state_ok_def)
  with en have "daemon_step env0 ([root_node], world0) (Trickle 0 (0, 0)) (is', w')" by (simp add: daemon_step_iff)
  from Turn [OF Idle this] show ?thesis by auto
qed

lemma nth_addr_inj: "m < 65536 \<Longrightarrow> n < 65536 \<Longrightarrow> nth_addr m = nth_addr n \<Longrightarrow> m = n"
proof -
  assume a: "m < 65536" "n < 65536" "nth_addr m = nth_addr n"
  have "unat (word_of_nat k :: u8) = k" if "k < 256" for k using that by (simp add: take_bit_nat_eq_self unsigned_of_nat)
  moreover have "m div 256 < 256" "n div 256 < 256" using a by (simp_all add: less_mult_imp_div_less)
  moreover have "(word_of_nat (m div 256) :: u8) = word_of_nat (n div 256)" "(word_of_nat (m mod 256) :: u8) = word_of_nat (n mod 256)"
    using a(3) by (simp_all add: nth_addr_def)
  ultimately have "m div 256 = n div 256" "m mod 256 = n mod 256" by (metis mod_less_divisor zero_less_numeral)+
  then show "m = n" by (metis div_mult_mod_eq)
qed

lemma crowded_dag_wf: "wf_dag crowded_dag" "length (childs crowded_dag) = 3275"
proof -
  have "wf_addr (nth_addr n)" for n by (simp add: wf_addr_def nth_addr_def)
  moreover have "distinct (map nth_addr [0..<3275])"
    by (auto simp: distinct_map inj_on_def intro: nth_addr_inj)
  ultimately show "wf_dag crowded_dag" using example_dags(3)
    by (auto simp: crowded_dag_def wf_dag_def wf_child_def o_def)
  show "length (childs crowded_dag) = 3275" by (simp add: crowded_dag_def)
qed

end
