(* ===== verification/Example_Config.thy ===== *)
theory Example_Config
  imports Config_Load Example_Node
begin

section \<open>A concrete configuration\<close>

text \<open>
  Lua values as far as a configuration uses them, their API, a host with one interface and a
  given link-local address, and two configurations: of a root with one dag, and of a node
  that is no root.
\<close>

datatype lval = Str string | Num nat | Bool bool | Tab "(string \<times> lval) list" | Nil_val

definition lua_of :: "lval \<Rightarrow> lval lua_api" where
  "lua_of conf = \<lparr>lua_newstate_ok = True, lua_run = (\<lambda>_. Some conf),
     lua_istable = (\<lambda>v. case v of Tab _ \<Rightarrow> True | _ \<Rightarrow> False),
     lua_values = (\<lambda>v. case v of Tab kvs \<Rightarrow> map snd kvs | _ \<Rightarrow> []),
     lua_getfield = (\<lambda>v k. case v of Tab kvs \<Rightarrow> Inr (case map_of kvs k of Some x \<Rightarrow> x | None \<Rightarrow> Nil_val) | _ \<Rightarrow> Inl (Exit 1)),
     lua_tostring = (\<lambda>v. case v of Str s \<Rightarrow> Some s | _ \<Rightarrow> None),
     lua_tonumber = (\<lambda>v. case v of Num n \<Rightarrow> Some (real n) | _ \<Rightarrow> None),
     lua_toboolean = (\<lambda>v. case v of Bool b \<Rightarrow> Some b | _ \<Rightarrow> None)\<rparr>"

definition dag_entry :: "string \<Rightarrow> lval" where
  "dag_entry len = Tab [(''dest_prefix'', Str (''fd00::/'' @ len)), (''dodagid'', Str ''fd00::1'')]"

definition root_entry :: "lval list \<Rightarrow> lval" where
  "root_entry ds = Tab [(''ifname'', Str ''wpan0''), (''dodag_root'', Bool True),
     (''rpls'', Tab [(''1'', Tab [(''instance'', Num 7), (''dags'', Tab (map (Pair ''1'') ds))])])]"

definition root_conf :: lval where
  "root_conf = Tab [(''1'', root_entry [dag_entry ''64''])]"

definition leaf_entry :: lval where
  "leaf_entry = Tab [(''ifname'', Str ''wpan0''), (''dodag_root'', Bool False)]"

definition leaf_conf :: lval where
  "leaf_conf = Tab [(''1'', leaf_entry)]"

definition ll_addr_of :: "u8 \<Rightarrow> in6_addr" where
  "ll_addr_of b = ll_prefix @ replicate 8 b"

definition sys_at :: "u8 \<Rightarrow> sys_api" where
  "sys_at b = \<lparr>getifaddrs = \<lambda>_. Some [\<lparr>ifa_name = ''wpan0'', ifa_addr = Some (10, ll_addr_of b)\<rparr>],
     if_nametoindex = \<lambda>_. 3, inet_pton = \<lambda>s. if s = ''fd00::'' then Some (0xfd # replicate 15 0)
       else if s = ''fd00::1'' then Some (addr_of 1) else None,
     link_reply = \<lambda>_. None, sys_random = \<lambda>_ _. 0\<rparr>"

abbreviation sys0 :: sys_api where
  "sys0 \<equiv> sys_at 1"

definition conf_iface_at :: "u8 \<Rightarrow> iface" where
  "conf_iface_at b = zero_iface\<lparr>ifname := ''wpan0'', ifindex := 3, ifaddr := ll_addr_of b,
     ifaddrs := [ll_addr_of b, replicate 16 0], ifaddr_src := Some (ll_addr_of b), ifaddrs_count := 1\<rparr>"

abbreviation conf_iface :: iface where
  "conf_iface \<equiv> conf_iface_at 1"

lemma lua_of_simps [simp]:
  "lua_newstate_ok (lua_of c)" "lua_run (lua_of c) file = Some c"
  "lua_istable (lua_of c) (Tab kvs)" "lua_values (lua_of c) (Tab kvs) = map snd kvs"
  "lua_getfield (lua_of c) (Tab kvs) k = Inr (case map_of kvs k of Some x \<Rightarrow> x | None \<Rightarrow> Nil_val)"
  "lua_tostring (lua_of c) (Str s) = Some s" "lua_tostring (lua_of c) Nil_val = None"
  "lua_tonumber (lua_of c) (Num n) = Some (real n)" "lua_tonumber (lua_of c) Nil_val = None"
  "lua_toboolean (lua_of c) (Bool b) = Some b"
  by (simp_all add: lua_of_def)

lemma sys_at_ok: "sys_ok (sys_at b)"
  by (auto simp: sys_ok_def sys_at_def wf_addr_def addr_of_def)

lemma ll_addr_of_wf [simp]: "wf_addr (ll_addr_of b)" "ll_addr_of a = ll_addr_of b \<longleftrightarrow> a = b"
  by (simp_all add: ll_addr_of_def wf_addr_def ll_prefix_def)

lemma strtoul_64: "strtoul ''64'' = 64"
  by (simp add: strtoul_def is_space_def is_digit_def digits_value_def Let_def)

lemma parse_64: "parse_ipv6_prefix (sys_at b) ''fd00::/64'' = Inr (Some \<lparr>prefix = 0xfd # replicate 15 0, pfx_len = 64\<rparr>)"
  using parse_split [of "''fd00::''" "''64''" "sys_at b"] by (simp add: strtoul_64 sys_at_def)

lemma wpan0_addrs:
  "\<exists>w'. get_iface_addrs env0 (sys_at b) ''wpan0'' w = Inr (1, Some (ll_addr_of b), [ll_addr_of b, replicate 16 0], w')"
  using get_iface_addrs_Inr [OF env0_ok(1), of "sys_at b" "''wpan0''" w]
  by (auto simp: sys_at_def addrs_of_def AF_INET6_def ll_addr_of_def ll_prefix_def qsort_addrs_def Let_def)

lemma wpan0_setup:
  assumes "lua_getfield (lua_of c) v ''ifname'' = Inr (Str ''wpan0'')"
  shows "\<exists>w'. iface_setup env0 (sys_at b) (lua_of c) v w = Inr (Inr (conf_iface_at b), w')"
proof -
  have ll: "\<exists>w'. nl_get_llinfo env0 None 3 ll w = (0, ll, w')" for ll w
    by (simp add: nl_get_llinfo_def Let_def env0_def)
  have var: "\<exists>w'. set_interface_var env0 ''all'' PROC_SYS_IP6_IFACE_FORWARDING 1 w = Inr (0, w')" for w
    by (simp add: set_interface_var_def strdupf_def write_value_def alloc_def env0_def Let_def)
  obtain w1 where w1: "iface_create env0 w = (Some zero_iface, w1)" by (simp add: iface_create_def alloc_def env0_def Let_def)
  obtain w2 where w2: "set_interface_var env0 ''all'' PROC_SYS_IP6_IFACE_FORWARDING 1 w1 = Inr (0, w2)" using var by blast
  obtain w3 where w3: "nl_get_llinfo env0 None 3 (llinfo zero_iface) w2 = (0, llinfo zero_iface, w3)" using ll by blast
  obtain w4 where w4: "get_iface_addrs env0 (sys_at b) ''wpan0'' w3 =
     Inr (1, Some (ll_addr_of b), [ll_addr_of b, replicate 16 0], w4)" using wpan0_addrs by blast
  have l: "lua_tostring (lua_of c) (Str ''wpan0'') = Some ''wpan0''"
    "if_nametoindex (sys_at b) x = 3" "link_reply (sys_at b) y = None" "length ''wpan0'' < IFNAMSIZ" "take IFNAMSIZ ''wpan0'' = ''wpan0''" for x y
    by (simp_all add: sys_at_def IFNAMSIZ_def)
  show ?thesis using l(4) by (simp add: iface_setup_def assms w1 w2 l w3 w4 Let_def conf_iface_at_def)
qed

lemma dag_entry_fields:
  "dag_prefix (sys_at b) (lua_of c) (dag_entry ''64'') w = Inr (Some \<lparr>prefix = 0xfd # replicate 15 0, pfx_len = 64\<rparr>)"
  "dag_trickle (lua_of c) (dag_entry ''64'') = Inr DEFAULT_TICKLE_T" "dag_version (lua_of c) (dag_entry ''64'') = Inr DEFAULT_DAG_VERSION"
  "dag_dodagid (sys_at b) (lua_of c) ll dst (dag_entry ''64'') = Inr (Some (addr_of 1))"
  by (simp_all add: dag_prefix_def dag_trickle_def dag_version_def dag_dodagid_def dag_entry_def parse_64) (simp add: sys_at_def)

lemma root_entry_load:
  "\<exists>i w'. load_iface env0 (sys_at b) (lua_of c) (root_entry [dag_entry ''64'']) w = Inr (Inr i, w') \<and>
     ifaddr_src i = Some (ll_addr_of b)"
proof -
  let ?L = "lua_of c" and ?S = "sys_at b" and ?i = "(conf_iface_at b)\<lparr>dodag_root := True\<rparr>"
  have "lua_getfield ?L (root_entry [dag_entry ''64'']) ''ifname'' = Inr (Str ''wpan0'')" by (simp add: root_entry_def)
  then obtain w1 where w1: "iface_setup env0 ?S ?L (root_entry [dag_entry ''64'']) w = Inr (Inr (conf_iface_at b), w1)"
    using wpan0_setup by blast
  have "keys_inv ?i" "lookup_key ?i (7, addr_of 1) = Inr None"
    by (simp_all add: conf_iface_at_def zero_iface_def keys_inv_def lookup_key_def dag_lookup_def)
  from dag_create_Inr [OF this env0_ok(1), of DEFAULT_TICKLE_T 1 DEFAULT_DAG_VERSION "\<lparr>prefix = 0xfd # replicate 15 0, pfx_len = 64\<rparr>" w1]
  obtain p rs w2 where c: "dag_create env0 ?i 7 (addr_of 1) DEFAULT_TICKLE_T 1 DEFAULT_DAG_VERSION
      (Some \<lparr>prefix = 0xfd # replicate 15 0, pfx_len = 64\<rparr>) w1 = Inr (Some p, ?i\<lparr>rpls := rs\<rparr>, w2)" by blast
  let ?i' = "upd_dag (?i\<lparr>rpls := rs\<rparr>) p (\<lambda>d. d\<lparr>self := addr_of 1\<rparr>)"
  have "load_dags env0 ?S ?L 7 [dag_entry ''64''] ?i w1 = Inr (0, ?i', w2)"
    by (simp add: dag_entry_fields c)
  moreover have "number_to_u8 (real 7) = Inr 7" by (simp add: number_to_u8_def)
  ultimately have "config_load_instances env0 ?S ?L (root_entry [dag_entry ''64'']) ?i w1 = Inr (0, ?i', w2)"
    by (simp add: config_load_instances_def config_load_dags_def root_entry_def del: load_dags.simps)
  moreover have "lua_getfield ?L (root_entry ds) ''dodag_root'' = Inr (Bool True)" for ds by (simp add: root_entry_def)
  moreover have "ifaddr_src ?i' = Some (ll_addr_of b)" by (simp add: conf_iface_at_def)
  ultimately show ?thesis by (simp add: load_iface_def w1 iface_role_def)
qed

lemma leaf_entry_load:
  "\<exists>w'. load_iface env0 (sys_at b) (lua_of c) leaf_entry w = Inr (Inr (conf_iface_at b), w')"
proof -
  have l: "lua_getfield (lua_of c) leaf_entry ''ifname'' = Inr (Str ''wpan0'')"
    "lua_getfield (lua_of c) leaf_entry ''dodag_root'' = Inr (Bool False)" by (simp_all add: leaf_entry_def)
  obtain w1 where "iface_setup env0 (sys_at b) (lua_of c) leaf_entry w = Inr (Inr (conf_iface_at b), w1)"
    using wpan0_setup [OF l(1)] by blast
  moreover have "(conf_iface_at b)\<lparr>dodag_root := False\<rparr> = conf_iface_at b" "\<not> dodag_root (conf_iface_at b)" by (simp_all add: conf_iface_at_def zero_iface_def)
  ultimately show ?thesis by (simp add: load_iface_def iface_role_def l Let_def)
qed

lemma root_conf_loads:
  "\<exists>i w'. config_load env0 (sys_at b) (lua_of root_conf) file [] w = Inr (0, [i], w') \<and> ifaddr_src i = Some (ll_addr_of b)"
  using root_entry_load [of b root_conf w] by (auto simp: config_load_def root_conf_def)

lemma leaf_conf_loads:
  "\<exists>w'. config_load env0 (sys_at b) (lua_of leaf_conf) file [] w = Inr (0, [conf_iface_at b], w')"
  using leaf_entry_load [of b leaf_conf w] by (auto simp: config_load_def leaf_conf_def)

lemma conf_prefixes:
  "v \<in> set (lua_values (lua_of c) root_conf) \<Longrightarrow> prefixes_ok (sys_at b) (lua_of c) v"
  "v \<in> set (lua_values (lua_of c) leaf_conf) \<Longrightarrow> prefixes_ok (sys_at b) (lua_of c) v"
  by (simp_all add: root_conf_def root_entry_def leaf_conf_def leaf_entry_def prefixes_ok_def table_field_def prefix_ok_def
      dag_entry_def parse_64) (simp add: lua_of_def)

lemma root_conf_key:
  "(7, addr_of 1) \<in> configured_keys (sys_at b) (lua_of c) (root_entry [dag_entry ''64''])"
  by (simp add: configured_keys_def table_field_def root_entry_def entry_instance_def number_to_u8_def
      entry_dodagid_def dag_entry_def) (simp add: sys_at_def)

theorem parse_ipv6_prefix_accepts_witness:
  "parse_ipv6_prefix sys0 ''fd00::/64abc'' = Inr (Some \<lparr>prefix = 0xfd # replicate 15 0, pfx_len = 64\<rparr>) \<and>
   parse_ipv6_prefix sys0 ''fd00::/'' = Inr (Some \<lparr>prefix = 0xfd # replicate 15 0, pfx_len = 0\<rparr>)"
proof -
  let ?a = "0xfd # replicate 15 0 :: in6_addr"
  have s: "strtoul ''64abc'' = 64" "strtoul [] = 0"
    using parse_ipv6_prefix_accepts [of sys0 "''fd00::/64abc''" "\<lparr>prefix = ?a, pfx_len = 64\<rparr>" "''64''" "''abc''" Out_of_bounds]
    by (simp_all add: is_digit_def digits_value_def)
  have a: "inet_pton sys0 ''fd00::'' = Some ?a" by (simp add: sys_at_def)
  have "\<exists>ip num. ''fd00::/64abc'' = ip @ CHR ''/'' # num \<and> CHR ''/'' \<notin> set ip \<and> CHR ''/'' \<notin> set num \<and> length ip < 46 \<and>
      inet_pton sys0 ip = Some (prefix \<lparr>prefix = ?a, pfx_len = 64\<rparr>) \<and> strtoul num \<le> 255 \<and>
      unat (pfx_len \<lparr>prefix = ?a, pfx_len = 64\<rparr>) = strtoul num"
    by (rule exI [of _ "''fd00::''"], rule exI [of _ "''64abc''"]) (simp add: s a)
  then have "parse_ipv6_prefix sys0 ''fd00::/64abc'' = Inr (Some \<lparr>prefix = ?a, pfx_len = 64\<rparr>)"
    using parse_ipv6_prefix_accepts [of sys0 "''fd00::/64abc''" "\<lparr>prefix = ?a, pfx_len = 64\<rparr>"] by blast
  moreover have "\<exists>ip num. ''fd00::/'' = ip @ CHR ''/'' # num \<and> CHR ''/'' \<notin> set ip \<and> CHR ''/'' \<notin> set num \<and> length ip < 46 \<and>
      inet_pton sys0 ip = Some (prefix \<lparr>prefix = ?a, pfx_len = 0\<rparr>) \<and> strtoul num \<le> 255 \<and>
      unat (pfx_len \<lparr>prefix = ?a, pfx_len = 0\<rparr>) = strtoul num"
    by (rule exI [of _ "''fd00::''"], rule exI [of _ "[]"]) (simp add: s a)
  then have "parse_ipv6_prefix sys0 ''fd00::/'' = Inr (Some \<lparr>prefix = ?a, pfx_len = 0\<rparr>)"
    using parse_ipv6_prefix_accepts [of sys0 "''fd00::/''" "\<lparr>prefix = ?a, pfx_len = 0\<rparr>"] by blast
  ultimately show ?thesis by blast
qed

end
