(* ===== verification/Dodag.thy ===== *)
theory Dodag
  imports "HOL-Library.Word"
begin

section \<open>The protocol, abstractly: one DODAG on a network\<close>

text \<open>
  What the daemons of a network promise together about one dag, without messages as bytes,
  buffers or lists: every participant has at most one role in the dag, and adverts are in
  the air. A participant advertises the role it has, joins on an advert, and improves on an
  advert that does not have a higher rank than the one it joined on (\<open>Adopt\<close> is a member that is
  not a root and has no parent yet; the invariant excludes it). Adverts are never lost
  from the set, so they may be received in any order, late, again, or never. Theory
  \<open>Network\<close> shows that the daemons implement this machine.
\<close>

subsection \<open>Definitions\<close>

type_synonym dodag_info = "8 word \<times> 8 word \<times> 8 word list"

record role =
  role_parent :: "(8 word list \<times> 16 word) option"
  role_rank :: "16 word"
  role_info :: dodag_info

type_synonym advert = "8 word list \<times> 16 word \<times> dodag_info"

record 'x dodag =
  member :: "'x \<Rightarrow> role option"
  air :: "advert set"

definition advert_of :: "8 word list \<Rightarrow> role \<Rightarrow> advert" where
  "advert_of a ro = (a, role_rank ro, role_info ro)"

inductive dodag_step :: "('x \<Rightarrow> 8 word list) \<Rightarrow> 'x dodag \<Rightarrow> 'x dodag \<Rightarrow> bool" for addr where
  Advertise: "\<forall>adv \<in> A. \<exists>ro. member s x = Some ro \<and> adv = advert_of (addr x) ro \<Longrightarrow>
    dodag_step addr s (s\<lparr>air := air s \<union> A\<rparr>)"
| Join: "member s x = None \<Longrightarrow> (a, r, g) \<in> air s \<Longrightarrow>
    dodag_step addr s (s\<lparr>member := (member s)(x \<mapsto> \<lparr>role_parent = Some (a, r), role_rank = r + 1, role_info = g\<rparr>)\<rparr>)"
| Adopt: "member s x = Some ro \<Longrightarrow> role_rank ro \<noteq> 1 \<Longrightarrow> role_parent ro = None \<Longrightarrow> (a, r, g) \<in> air s \<Longrightarrow>
    dodag_step addr s (s\<lparr>member := (member s)(x \<mapsto> ro\<lparr>role_parent := Some (a, r), role_rank := r + 1\<rparr>)\<rparr>)"
| Improve: "member s x = Some ro \<Longrightarrow> role_rank ro \<noteq> 1 \<Longrightarrow> role_parent ro = Some (a, r) \<Longrightarrow>
    (b, r', g) \<in> air s \<Longrightarrow> r' \<le> r \<Longrightarrow>
    dodag_step addr s (s\<lparr>member := (member s)(x \<mapsto> ro\<lparr>role_parent := Some (a, r'), role_rank := r' + 1\<rparr>)\<rparr>)"

text \<open>The parent pointers: a member and the members that own the address of its parent.\<close>

definition parent_rel :: "('x \<Rightarrow> 8 word list) \<Rightarrow> 'x dodag \<Rightarrow> ('x \<times> 'x) set" where
  "parent_rel addr s = {(x, y). \<exists>ro a r. member s x = Some ro \<and> role_parent ro = Some (a, r) \<and>
     member s y \<noteq> None \<and> addr y = a}"

text \<open>
  The invariant: \<open>g\<close> is what the roots \<open>R\<close> announce, \<open>t\<close> the time at which a member joined.
\<close>

definition role_ok :: "('x \<Rightarrow> 8 word list) \<Rightarrow> 'x set \<Rightarrow> dodag_info \<Rightarrow> ('x \<Rightarrow> nat) \<Rightarrow> 'x dodag \<Rightarrow> 'x \<Rightarrow> role \<Rightarrow> bool" where
  "role_ok addr R g t s x ro \<longleftrightarrow> role_info ro = g \<and>
     (case role_parent ro of
        None \<Rightarrow> x \<in> R \<and> role_rank ro = 1
      | Some (a, r) \<Rightarrow> x \<notin> R \<and> role_rank ro = r + 1 \<and> 1 \<le> unat r \<and> unat r < card (dom (member s)) \<and>
          (\<exists>y. member s y \<noteq> None \<and> addr y = a \<and> t y < t x))"

definition advert_ok :: "('x \<Rightarrow> 8 word list) \<Rightarrow> dodag_info \<Rightarrow> 'x dodag \<Rightarrow> advert \<Rightarrow> bool" where
  "advert_ok addr g s adv \<longleftrightarrow> (case adv of (a, r, i) \<Rightarrow>
     i = g \<and> 1 \<le> unat r \<and> unat r \<le> card (dom (member s)) \<and> (\<exists>y. member s y \<noteq> None \<and> addr y = a))"

definition dodag_inv :: "('x \<Rightarrow> 8 word list) \<Rightarrow> 'x set \<Rightarrow> dodag_info \<Rightarrow> 'x dodag \<Rightarrow> bool" where
  "dodag_inv addr R g s \<longleftrightarrow> R \<subseteq> dom (member s) \<and>
     (\<exists>t. \<forall>x ro. member s x = Some ro \<longrightarrow> role_ok addr R g t s x ro) \<and> (\<forall>adv \<in> air s. advert_ok addr g s adv)"

subsection \<open>Lemmas\<close>

lemma dodag_invI:
  assumes "R \<subseteq> dom (member s)" "\<And>x ro. member s x = Some ro \<Longrightarrow> role_ok addr R g t s x ro"
    "\<And>adv. adv \<in> air s \<Longrightarrow> advert_ok addr g s adv"
  shows "dodag_inv addr R g s"
  using assms unfolding dodag_inv_def by blast

lemma dodag_inv_advert: "dodag_inv addr R g s \<Longrightarrow> adv \<in> air s \<Longrightarrow> advert_ok addr g s adv"
  by (simp add: dodag_inv_def)

lemma dodag_inv_role:
  assumes "dodag_inv addr R g s" "member s x = Some ro"
  obtains t where "role_ok addr R g t s x ro"
  using assms unfolding dodag_inv_def by blast

lemma unat_Suc: "unat r < n \<Longrightarrow> n \<le> 65535 \<Longrightarrow> unat (r + 1 :: 16 word) = unat r + 1"
  by (simp add: unat_word_ariths)

lemma role_rank_bounds:
  assumes "role_ok addr R g t s x ro" "member s x = Some ro" "finite (dom (member s))" "card (dom (member s)) \<le> 65535"
  shows "1 \<le> unat (role_rank ro) \<and> unat (role_rank ro) \<le> card (dom (member s))"
proof (cases "role_parent ro")
  case None
  have "0 < card (dom (member s))" using assms(2,3) by (auto simp: card_gt_0_iff)
  then show ?thesis using None assms(1) by (simp add: role_ok_def)
next
  case (Some p)
  then show ?thesis using assms(1,4) unat_Suc [of "snd p" "card (dom (member s))"]
    by (cases p) (auto simp: role_ok_def)
qed

text \<open>More members never hurt.\<close>

lemma role_ok_mono:
  assumes "role_ok addr R g t s x ro" "card (dom (member s)) \<le> card (dom (member s'))"
    "\<And>y. member s y \<noteq> None \<Longrightarrow> member s' y \<noteq> None \<and> t' y = t y" "t' x = t x"
  shows "role_ok addr R g t' s' x ro"
proof (cases "role_parent ro")
  case (Some p)
  obtain a r where p: "p = (a, r)" by (cases p)
  then obtain y where "member s y \<noteq> None" "addr y = a" "t y < t x" using assms(1) Some by (auto simp: role_ok_def)
  then have "\<exists>y. member s' y \<noteq> None \<and> addr y = a \<and> t' y < t' x" using assms(3,4) by metis
  then show ?thesis using assms(1,2) Some p by (auto simp: role_ok_def)
qed (use assms(1) in \<open>simp add: role_ok_def\<close>)

lemma advert_ok_mono:
  assumes "advert_ok addr g s adv" "card (dom (member s)) \<le> card (dom (member s'))"
    "\<And>y. member s y \<noteq> None \<Longrightarrow> member s' y \<noteq> None"
  shows "advert_ok addr g s' adv"
  using assms by (fastforce simp: advert_ok_def)

lemma advert_of_ok:
  assumes "dodag_inv addr R g s" "member s x = Some ro" "finite (dom (member s))" "card (dom (member s)) \<le> 65535"
  shows "advert_ok addr g s (advert_of (addr x) ro)"
proof -
  from assms(1) obtain t where "\<forall>x ro. member s x = Some ro \<longrightarrow> role_ok addr R g t s x ro"
    unfolding dodag_inv_def by blast
  then have "role_ok addr R g t s x ro" using assms(2) by blast
  with role_rank_bounds [OF this assms(2-4)] assms(2) show ?thesis
    by (auto simp: advert_ok_def advert_of_def role_ok_def)
qed

lemma dodag_step_dom: "dodag_step addr s s' \<Longrightarrow> dom (member s) \<subseteq> dom (member s')"
  by (induction rule: dodag_step.induct) auto

lemma join_keeps_inv:
  assumes inv: "dodag_inv addr R g s" and new: "member s x = None" and adv: "(a, r, i) \<in> air s"
    and fin: "finite (dom (member s))"
  shows "dodag_inv addr R g (s\<lparr>member := (member s)(x \<mapsto> \<lparr>role_parent = Some (a, r), role_rank = r + 1, role_info = i\<rparr>)\<rparr>)"
    (is "dodag_inv addr R g ?s")
proof -
  obtain t where t: "\<And>y ro. member s y = Some ro \<Longrightarrow> role_ok addr R g t s y ro" and R: "R \<subseteq> dom (member s)"
    using inv by (auto simp: dodag_inv_def)
  have a: "i = g" "1 \<le> unat r" "unat r \<le> card (dom (member s))" "\<exists>y. member s y \<noteq> None \<and> addr y = a"
    using inv adv by (auto simp: dodag_inv_def advert_ok_def)
  define t' where "t' = t(x := Suc (Max (t ` dom (member s))))"
  have x: "x \<notin> dom (member s)" using new by auto
  have t': "member s y \<noteq> None \<Longrightarrow> t' y = t y \<and> t y < t' x" for y
    using new fin by (cases "y = x") (auto simp: t'_def domIff less_Suc_eq_le intro!: Max_ge)
  have c: "card (dom (member ?s)) = Suc (card (dom (member s)))" using x fin by simp
  have roles: "role_ok addr R g t' ?s y ro" if "member ?s y = Some ro" for y ro
  proof (cases "y = x")
    case True
    obtain z where z: "member s z \<noteq> None" "addr z = a" using a(4) by blast
    then have "member ?s z \<noteq> None \<and> addr z = a \<and> t' z < t' x" using t' [of z] by auto
    then have "\<exists>z. member ?s z \<noteq> None \<and> addr z = a \<and> t' z < t' x" by blast
    moreover have "x \<notin> R" using x R by blast
    moreover have "unat r < card (dom (member ?s))" using a(3) c by simp
    moreover have "ro = \<lparr>role_parent = Some (a, r), role_rank = r + 1, role_info = i\<rparr>" using that True by simp
    ultimately show ?thesis using True a(1,2) unfolding role_ok_def by simp
  next
    case False
    then have y: "member s y = Some ro" using that by simp
    show ?thesis by (rule role_ok_mono [OF t [OF y]]) (use c t' y in auto)
  qed
  have adverts: "advert_ok addr g ?s adv" if "adv \<in> air s" for adv
    by (rule advert_ok_mono [OF dodag_inv_advert [OF inv that]]) (use c in auto)
  have R': "R \<subseteq> dom (member ?s)" using R by auto
  show ?thesis
  proof (rule dodag_invI [OF R'])
    show "role_ok addr R g t' ?s y ro" if "member ?s y = Some ro" for y ro using that by (rule roles)
    show "advert_ok addr g ?s adv" if "adv \<in> air ?s" for adv using that by (intro adverts) simp
  qed
qed

lemma improve_keeps_inv:
  assumes inv: "dodag_inv addr R g s" and x: "member s x = Some ro" "role_parent ro = Some (a, r)"
    and adv: "(b, r', i) \<in> air s" "r' \<le> r"
  shows "dodag_inv addr R g (s\<lparr>member := (member s)(x \<mapsto> ro\<lparr>role_parent := Some (a, r'), role_rank := r' + 1\<rparr>)\<rparr>)"
    (is "dodag_inv addr R g ?s")
proof -
  obtain t where t: "\<And>y ro. member s y = Some ro \<Longrightarrow> role_ok addr R g t s y ro" and R: "R \<subseteq> dom (member s)"
    using inv by (auto simp: dodag_inv_def)
  have dom: "dom (member ?s) = dom (member s)" using x(1) by auto
  have m: "member ?s y \<noteq> None \<longleftrightarrow> member s y \<noteq> None" for y using x(1) by auto
  have "1 \<le> unat r'" using inv adv(1) by (auto simp: dodag_inv_def advert_ok_def)
  moreover have "unat r' \<le> unat r" using adv(2) by (simp add: word_le_nat_alt)
  ultimately have new: "role_ok addr R g t ?s x (ro\<lparr>role_parent := Some (a, r'), role_rank := r' + 1\<rparr>)"
    using t [OF x(1)] x(2) dom m by (auto simp: role_ok_def)
  have roles: "role_ok addr R g t ?s y ro'" if "member ?s y = Some ro'" for y ro'
  proof (cases "y = x")
    case False
    then have y: "member s y = Some ro'" using that by simp
    show ?thesis by (rule role_ok_mono [OF t [OF y]]) (use dom m in auto)
  qed (use that new in simp)
  have adverts: "advert_ok addr g ?s adv" if "adv \<in> air s" for adv
    by (rule advert_ok_mono [OF dodag_inv_advert [OF inv that]]) (use dom m in auto)
  have R': "R \<subseteq> dom (member ?s)" using R dom by blast
  show ?thesis
  proof (rule dodag_invI [OF R'])
    show "role_ok addr R g t ?s y ro" if "member ?s y = Some ro" for y ro using that by (rule roles)
    show "advert_ok addr g ?s adv" if "adv \<in> air ?s" for adv using that by (intro adverts) simp
  qed
qed

lemma dodag_step_inv:
  assumes "dodag_step addr s s'" "dodag_inv addr R g s" "finite (dom (member s))" "card (dom (member s)) \<le> 65535"
  shows "dodag_inv addr R g s'"
  using assms
proof (induction rule: dodag_step.induct)
  case (Advertise A s x)
  let ?s = "s\<lparr>air := air s \<union> A\<rparr>"
  have old: "advert_ok addr g s adv" if "adv \<in> air s" for adv
    by (rule dodag_inv_advert [OF Advertise.prems(1) that])
  have new: "advert_ok addr g s adv" if "adv \<in> A" for adv
  proof -
    obtain ro where ro: "member s x = Some ro" "adv = advert_of (addr x) ro" using bspec [OF Advertise.hyps \<open>adv \<in> A\<close>] by blast
    show ?thesis using advert_of_ok [OF Advertise.prems(1) ro(1) Advertise.prems(2,3)] ro(2) by simp
  qed
  have m: "member ?s = member s" by (cases s) simp
  have same: "role_ok addr R g t ?s = role_ok addr R g t s" "advert_ok addr g ?s = advert_ok addr g s" for t
    unfolding fun_eq_iff role_ok_def advert_ok_def m by simp_all
  show ?case using Advertise.prems(1) old new unfolding dodag_inv_def same m by auto
next
  case (Join s x a r i)
  then show ?case by (intro join_keeps_inv) auto
next
  case (Adopt s x ro a r i)
  then show ?case using dodag_inv_role [OF Adopt.prems(1) Adopt.hyps(1)] by (auto simp: role_ok_def)
next
  case (Improve s x ro a r b r' i)
  then show ?case by (intro improve_keeps_inv) auto
qed

subsection \<open>What the invariant says about the whole network\<close>

lemma dodag_inv_acyclic:
  assumes "dodag_inv addr R g s" "inj_on addr (dom (member s))"
  shows "acyclic (parent_rel addr s)"
proof -
  obtain t where t: "\<And>y ro. member s y = Some ro \<Longrightarrow> role_ok addr R g t s y ro" using assms(1) by (auto simp: dodag_inv_def)
  show ?thesis
  proof (rule acyclicI_order)
    fix x y assume "(x, y) \<in> parent_rel addr s"
    then obtain ro a r where x: "member s x = Some ro" "role_parent ro = Some (a, r)" "member s y \<noteq> None" "addr y = a"
      by (auto simp: parent_rel_def)
    obtain z where "member s z \<noteq> None" "addr z = a" "t z < t x" using t [OF x(1)] x(2) by (auto simp: role_ok_def)
    moreover from this have "z = y" using x assms(2) by (auto simp: inj_on_def)
    ultimately show "t y < t x" by simp
  qed
qed

lemma dodag_inv_root:
  assumes "dodag_inv addr R g s" "member s x = Some ro"
  shows "\<exists>y \<in> R. (x, y) \<in> (parent_rel addr s)\<^sup>*"
proof -
  obtain t where t: "\<And>y ro. member s y = Some ro \<Longrightarrow> role_ok addr R g t s y ro" using assms(1) by (auto simp: dodag_inv_def)
  show ?thesis using assms(2)
  proof (induction "t x" arbitrary: x ro rule: less_induct)
    case less
    show ?case
    proof (cases "role_parent ro")
      case None
      then show ?thesis using t [OF less.prems] by (auto simp: role_ok_def)
    next
      case (Some p)
      then obtain z where z: "member s z \<noteq> None" "addr z = fst p" "t z < t x"
        using t [OF less.prems] by (cases p) (auto simp: role_ok_def)
      then have "(x, z) \<in> parent_rel addr s" using less.prems Some by (cases p) (auto simp: parent_rel_def)
      with less.hyps [OF z(3)] z(1) show ?thesis by (auto intro: converse_rtrancl_into_rtrancl)
    qed
  qed
qed

end
