(* ===== verification/Network.thy ===== *)
theory Network
  imports Daemon Dodag
begin

section \<open>A network of daemons\<close>

text \<open>
  Several daemons, each with its own state and trace, and the medium between them. A daemon
  takes one step of its event loop at a time; the packets it receives are what some daemon
  of the network has sent, with the sender's source address and with the checksum of the
  ICMPv6 header filled in, or are not RPL messages. Packets are lost, delayed, repeated,
  reordered and delivered to any interface. Every step of such a network is a step of the
  abstract machine of theory \<open>Dodag\<close>, for every dag.
\<close>

subsection \<open>Definitions\<close>

type_synonym dag_name = "u8 \<times> in6_addr"
type_synonym net = "(iface list \<times> world) list"

datatype port = Port (port_node: nat) (port_iface: nat)

definition ports :: "net \<Rightarrow> port set" where
  "ports N = {x. port_node x < length N \<and> port_iface x < length (fst (N ! port_node x))}"

definition iface_at :: "net \<Rightarrow> port \<Rightarrow> iface" where
  "iface_at N x = fst (N ! port_node x) ! port_iface x"

definition src_at :: "net \<Rightarrow> port \<Rightarrow> in6_addr" where
  "src_at N x = the (ifaddr_src (iface_at N x))"

definition dag_at :: "net \<Rightarrow> dag_name \<Rightarrow> port \<Rightarrow> dag option" where
  "dag_at N k x = (if x \<in> ports N then dag_table (iface_at N x) k else None)"

definition dag_info :: "dag \<Rightarrow> dodag_info" where
  "dag_info d = (version d, pfx_len (dest d), take (unat (bits_to_bytes (pfx_len (dest d)))) (prefix (dest d)))"

definition role_of :: "dag \<Rightarrow> role" where
  "role_of d = \<lparr>role_parent = map_option (\<lambda>pe. (peer_addr pe, peer_rank pe)) (parent d), role_rank = my_rank d,
     role_info = dag_info d\<rparr>"

text \<open>The adverts of one dag among the messages of a trace.\<close>

definition adverts :: "dag_name \<Rightarrow> event list \<Rightarrow> advert set" where
  "adverts k es = {(sm_src c, my_rank d, dag_info d) | c d.
     Sendmsg c \<in> set es \<and> wf_dag d \<and> dodagid d = snd k \<and> sm_payload c = dio_message (fst k) d}"

definition dodag_of :: "dag_name \<Rightarrow> net \<Rightarrow> port dodag" where
  "dodag_of k N = \<lparr>member = \<lambda>x. map_option role_of (dag_at N k x), air = (\<Union>s \<in> set N. adverts k (w_trace (snd s)))\<rparr>"

text \<open>What the medium delivers: bytes 2 and 3 of an ICMPv6 message are its checksum.\<close>

definition carries :: "recvmsg_result \<Rightarrow> sendmsg_call \<Rightarrow> bool" where
  "carries r c \<longleftrightarrow> rm_from r = sm_src c \<and> rm_len r = int (min MSG_SIZE_RECV (length (sm_payload c))) \<and>
     take 2 (rm_buf r) = take 2 (sm_payload c) \<and>
     take (nat (rm_len r) - 4) (drop 4 (rm_buf r)) = take (nat (rm_len r) - 4) (drop 4 (sm_payload c))"

definition honest :: "net \<Rightarrow> wakeup \<Rightarrow> bool" where
  "honest N e \<longleftrightarrow> (\<forall>r. e = Packet r \<longrightarrow> rm_buf r ! 0 \<noteq> ND_RPL_MESSAGE \<or>
     (\<exists>(is, w) \<in> set N. \<exists>c. Sendmsg c \<in> set (w_trace w) \<and> carries r c))"

inductive net_step :: "(nat \<Rightarrow> env) \<Rightarrow> net \<Rightarrow> nat \<times> wakeup \<Rightarrow> net \<Rightarrow> bool" for Es where
  Node: "n < length N \<Longrightarrow> honest N e \<Longrightarrow> daemon_step (Es n) (N ! n) e s \<Longrightarrow> net_step Es N (n, e) (N[n := s])"

inductive net_run :: "(nat \<Rightarrow> env) \<Rightarrow> net \<Rightarrow> (nat \<times> wakeup) list \<Rightarrow> net \<Rightarrow> bool" for Es where
  Start: "net_run Es N [] N"
| Then: "net_run Es N es M \<Longrightarrow> net_step Es M e L \<Longrightarrow> net_run Es N (es @ [e]) L"

text \<open>
  What one callback does at one interface, as far as the dag of the network is concerned:
  what it sends as a DIO is the role the interface has, and the roles change only by a DIO
  that was received.
\<close>

definition advertises :: "iface \<Rightarrow> event list \<Rightarrow> bool" where
  "advertises i es \<longleftrightarrow> (\<forall>c. Sendmsg c \<in> set es \<longrightarrow> sm_payload c ! 1 = ND_RPL_DAG_IO \<longrightarrow>
     sm_src c = the (ifaddr_src i) \<and>
     (\<exists>iid d. wf_dag d \<and> sm_payload c = dio_message iid d \<and> dag_table i (iid, dodagid d) = Some d))"

definition dios_only :: "event list \<Rightarrow> bool" where
  "dios_only es \<longleftrightarrow> (\<forall>c. Sendmsg c \<in> set es \<longrightarrow> sm_payload c ! 1 = ND_RPL_DAG_IO \<longrightarrow>
     (\<exists>iid d. wf_dag d \<and> sm_payload c = dio_message iid d))"

definition same_roles :: "iface \<Rightarrow> iface \<Rightarrow> bool" where
  "same_roles i i' \<longleftrightarrow> (\<forall>k. map_option role_of (dag_table i' k) = map_option role_of (dag_table i k))"

definition quiet :: "event list \<Rightarrow> bool" where
  "quiet es \<longleftrightarrow> (\<forall>c. Sendmsg c \<in> set es \<longrightarrow> sm_payload c ! 1 \<noteq> ND_RPL_DAG_IO)"

text \<open>The role of a receiver after it has accepted an advert.\<close>

inductive hears :: "advert \<Rightarrow> role option \<Rightarrow> role \<Rightarrow> bool" where
  Fresh: "hears (a, r, g) None \<lparr>role_parent = Some (a, r), role_rank = r + 1, role_info = g\<rparr>"
| Orphan: "role_rank ro \<noteq> 1 \<Longrightarrow> role_parent ro = None \<Longrightarrow>
    hears (a, r, g) (Some ro) (ro\<lparr>role_parent := Some (a, r), role_rank := r + 1\<rparr>)"
| Better: "role_rank ro \<noteq> 1 \<Longrightarrow> role_parent ro = Some (b, r') \<Longrightarrow> r \<le> r' \<Longrightarrow>
    hears (a, r, g) (Some ro) (ro\<lparr>role_parent := Some (b, r), role_rank := r + 1\<rparr>)"

text \<open>What a wakeup does at the interface it concerns; \<open>S\<close> is what the network has sent.\<close>

definition wakes :: "sendmsg_call set \<Rightarrow> iface \<Rightarrow> event list \<Rightarrow> iface \<Rightarrow> bool" where
  "wakes S i es i' \<longleftrightarrow> ifaddr_src i' = ifaddr_src i \<and> advertises i es \<and> (same_roles i i' \<or>
     quiet es \<and> (\<exists>c \<in> S. \<exists>iid d d'. wf_dag d \<and> sm_payload c = dio_message iid d \<and>
       dag_table i' = (dag_table i)((iid, dodagid d) \<mapsto> d') \<and>
       hears (sm_src c, my_rank d, dag_info d) (map_option role_of (dag_table i (iid, dodagid d))) (role_of d')))"

definition sent :: "net \<Rightarrow> sendmsg_call set" where
  "sent N = {c. \<exists>(is, w) \<in> set N. Sendmsg c \<in> set (w_trace w)}"

definition net_ok :: "net \<Rightarrow> bool" where
  "net_ok N \<longleftrightarrow> (\<forall>(is, w) \<in> set N. state_ok is \<and> dios_only (w_trace w))"

definition envs_ok :: "(nat \<Rightarrow> env) \<Rightarrow> bool" where
  "envs_ok Es \<longleftrightarrow> (\<forall>n. memory_available (Es n) \<and> length (stack_junk (Es n)) = 16)"

text \<open>The configured network: no DIO sent yet, and who has the dag is its root and announces \<open>g\<close>.\<close>

definition parents :: "net \<Rightarrow> dag_name \<Rightarrow> (port \<times> port) set" where
  "parents N k = {(x, y). \<exists>d pe. dag_at N k x = Some d \<and> parent d = Some pe \<and>
     dag_at N k y \<noteq> None \<and> src_at N y = peer_addr pe}"

definition roots :: "net \<Rightarrow> dag_name \<Rightarrow> port set" where
  "roots N k = dom (dag_at N k)"

definition configured :: "net \<Rightarrow> dag_name \<Rightarrow> dodag_info \<Rightarrow> bool" where
  "configured N k g \<longleftrightarrow> (\<forall>(is, w) \<in> set N. state_ok is \<and> quiet (w_trace w)) \<and>
     (\<forall>d \<in> ran (dag_at N k). parent d = None \<and> my_rank d = 1 \<and> dag_info d = g) \<and>
     inj_on (src_at N) (ports N) \<and> card (ports N) \<le> 65535"

subsection \<open>Messages\<close>

lemma message_codes:
  "dao_message iid d ! 1 = ND_RPL_DAO" "dao_ack_message iid d ! 1 = ND_RPL_DAO_ACK" "dis_message ! 1 = ND_RPL_DAG_IS"
  "dio_message iid d ! 1 = ND_RPL_DAG_IO"
  by (simp_all add: dao_message_def dao_ack_message_def dis_message_def dio_message_def icmp6_hdr_bytes_def)

lemma codes_distinct [simp]:
  "ND_RPL_DAO \<noteq> ND_RPL_DAG_IO" "ND_RPL_DAO_ACK \<noteq> ND_RPL_DAG_IO" "ND_RPL_DAG_IS \<noteq> ND_RPL_DAG_IO"
  by (simp_all add: ND_RPL_DAG_IS_def ND_RPL_DAG_IO_def ND_RPL_DAO_def ND_RPL_DAO_ACK_def)

text \<open>A DIO determines the name of its dag and the advert.\<close>

lemma dio_message_inj:
  assumes "wf_dag d" "wf_dag d'" "dio_message iid d = dio_message iid' d'"
  shows "iid' = iid \<and> dodagid d' = dodagid d \<and> my_rank d' = my_rank d \<and> dag_info d' = dag_info d"
proof -
  have h: "dio_of_dag iid d = dio_of_dag iid' d'"
    using dio_message_header [OF assms(1), of _ iid "[]"] dio_message_header [OF assms(2), of _ iid' "[]"] assms(3) by simp
  have "read_destprefix env0 (drop 4 (dio_message iid d)) (length (dio_message iid d) - 28) = Inr (Inr \<lparr>prefix = take (unat (bits_to_bytes (pfx_len (dest d)))) (prefix (dest d)) @
     drop (unat (bits_to_bytes (pfx_len (dest d)))) (stack_junk env0), pfx_len = pfx_len (dest d)\<rparr>)"
    by (rule dio_message_destprefix(1) [OF assms(1), of _ iid "[]"]) simp_all
  moreover have "read_destprefix env0 (drop 4 (dio_message iid d)) (length (dio_message iid d) - 28) = Inr (Inr \<lparr>prefix = take (unat (bits_to_bytes (pfx_len (dest d')))) (prefix (dest d')) @
     drop (unat (bits_to_bytes (pfx_len (dest d')))) (stack_junk env0), pfx_len = pfx_len (dest d')\<rparr>)"
    unfolding assms(3) by (rule dio_message_destprefix(1) [OF assms(2), of _ iid' "[]"]) simp_all
  moreover have "my_rank d = my_rank d'" using arg_cong [OF h, of "\<lambda>x. ntohs (dio_dagrank x)"] by (simp add: dio_of_dag_def)
  ultimately show ?thesis using h by (auto simp: dag_info_def dio_of_dag_def)
qed

lemma quiet_advertises: "quiet es \<Longrightarrow> advertises i es"
  by (simp add: quiet_def advertises_def)

lemma quiet_append [simp]: "quiet (es @ es') \<longleftrightarrow> quiet es \<and> quiet es'"
  by (auto simp: quiet_def)

lemma quiet_other [simp]: "quiet []" "quiet (Ev_timer_start t a b # es) = quiet es" "quiet (Ev_timer_stop t # es) = quiet es"
  "quiet (Netlink m # es) = quiet es"
  by (auto simp: quiet_def)

lemma quiet_sendmsg: "quiet [Sendmsg (icmp_call i src dst p)] \<longleftrightarrow> p ! 1 \<noteq> ND_RPL_DAG_IO"
  by (simp add: quiet_def icmp_call_def)

lemma quiet_netlink: "all_netlink es \<Longrightarrow> quiet es"
  by (auto simp: quiet_def all_netlink_def)

lemma quiet_routes: "routes_for ifi cs es \<Longrightarrow> quiet es"
  by (auto simp: quiet_def routes_for_def list_all2_conv_all_nth in_set_conv_nth)

lemma quiet_dio_timer: "quiet (dio_timer i k)"
  by (simp add: dio_timer_def split: option.splits)

subsection \<open>One callback at one interface\<close>

lemma role_of_simps [simp]:
  "role_rank (role_of d) = my_rank d" "role_info (role_of d) = dag_info d"
  "role_parent (role_of d) = map_option (\<lambda>pe. (peer_addr pe, peer_rank pe)) (parent d)"
  by (simp_all add: role_of_def)

lemma hears_dio:
  assumes wf: "wf_dag d0" and msg: "msg = drop 4 (dio_message iid d0) @ rest" and n: "n = length (dio_message iid d0) - 28"
    and junk: "length (stack_junk E) = 16" and acc: "dio_accepted E i (dio_of_dag iid d0) msg n from1 w d d' i' w'"
  shows "hears (from1, my_rank d0, dag_info d0) (map_option role_of (dag_table i (iid, dodagid d0))) (role_of d')"
proof -
  have sub: "dio_subject E i (dio_of_dag iid d0) msg n d" and ra: "rank_accepted d (my_rank d0)"
    and t: "dag_table i' = (dag_table i)((iid, dodagid d0) \<mapsto> d')"
    using acc by (auto simp: dio_accepted_def dio_key_of_dag) (simp add: dio_of_dag_def)
  obtain a where "dio_result E d from1 (my_rank d0) a d'" using acc by (auto simp: dio_accepted_def) (auto simp: dio_of_dag_def)
  then have ds: "dao_sent E ((join_parent d from1 (my_rank d0))\<lparr>self := a\<rparr>) d'" by (simp add: dio_result_def)
  have ro: "role_of d' = (role_of d)\<lparr>role_parent := Some (case parent d of None \<Rightarrow> from1 | Some pe \<Rightarrow> peer_addr pe, my_rank d0),
      role_rank := my_rank d0 + 1\<rparr>"
    by (simp add: role_of_def dag_info_def dao_sent_simps [OF ds])
  show ?thesis
  proof (cases "dag_table i (iid, dodagid d0)")
    case None
    let ?b = "unat (bits_to_bytes (pfx_len (dest d0)))"
    have d: "d = fresh_dag (dodagid d0) 0xffff (version d0) \<lparr>prefix = take ?b (prefix (dest d0)) @ drop ?b (stack_junk E),
        pfx_len = pfx_len (dest d0)\<rparr>"
      using sub None dio_message_destprefix(1) [OF wf msg junk n]
      by (auto simp: dio_subject_def dio_key_of_dag) (simp add: dio_of_dag_def)
    have "?b \<le> 16" "length (prefix (dest d0)) = 16" using wf ceil8_le_16 by (auto simp: wf_dag_def wf_prefix_def wf_addr_def)
    then have "role_of d' = \<lparr>role_parent = Some (from1, my_rank d0), role_rank = my_rank d0 + 1, role_info = dag_info d0\<rparr>"
      unfolding ro d by (simp add: role_of_def dag_info_def fresh_dag_def)
    then show ?thesis using None hears.Fresh [of from1 "my_rank d0" "dag_info d0"] by simp
  next
    case (Some e)
    then have e: "d = e" "my_rank e \<noteq> 1" using sub by (auto simp: dio_subject_def dio_key_of_dag)
    show ?thesis
    proof (cases "parent e")
      case None
      then show ?thesis using e Some ro hears.Orphan [of "role_of e" from1 "my_rank d0" "dag_info d0"] by simp
    next
      case (Some pe)
      have "my_rank d0 \<le> peer_rank pe" using ra e Some by (simp add: rank_accepted_def)
      then show ?thesis
        using e Some \<open>dag_table i (iid, dodagid d0) = Some e\<close> ro
          hears.Better [of "role_of e" "peer_addr pe" "peer_rank pe" "my_rank d0" from1 "dag_info d0"] by simp
    qed
  qed
qed

lemma dio_effect:
  assumes mem: "memory_available E" and junk: "length (stack_junk E) = 16" and ok: "iface_ok i" and from1: "wf_addr from1"
    and wf: "wf_dag d0" and msg: "msg = drop 4 (dio_message iid d0) @ rest" and len: "len = length (dio_message iid d0) - 4"
    and run: "process_dio E i msg len from1 w = Inr (ex, i', w')"
  shows "ifaddr_src i' = ifaddr_src i \<and> (\<exists>es. w_trace w' = w_trace w @ es \<and> quiet es) \<and>
    (i' = i \<or> (\<exists>d'. dag_table i' = (dag_table i)((iid, dodagid d0) \<mapsto> d') \<and>
       hears (from1, my_rank d0, dag_info d0) (map_option role_of (dag_table i (iid, dodagid d0))) (role_of d')))"
  using process_dio_spec [OF mem junk ok from1 run]
proof (elim disjE conjE exE)
  fix d d'
  have h: "nd_rpl_dio_of (take 24 msg) = dio_of_dag iid d0" by (rule dio_message_header [OF wf msg])
  have n: "len - 24 = length (dio_message iid d0) - 28" using len by simp
  assume "dio_accepted E i (nd_rpl_dio_of (take 24 msg)) msg (len - 24) from1 w d d' i' w'"
  then have acc: "dio_accepted E i (dio_of_dag iid d0) msg (len - 24) from1 w d d' i' w'" by (simp only: h)
  have t: "dag_table i' = (dag_table i)((iid, dodagid d0) \<mapsto> d')" "ifaddr_src i' = ifaddr_src i"
    using acc by (auto simp: dio_accepted_def dio_key_of_dag)
  have "\<exists>es. w_trace w' = w_trace w @ es \<and> quiet es"
    using acc by (auto simp: dio_accepted_def quiet_dio_timer quiet_netlink quiet_sendmsg message_codes simp del: One_nat_def)
  then show ?thesis using t hears_dio [OF wf msg n junk acc] by blast
qed auto

lemma dao_effect:
  assumes ok: "iface_ok i" and from1: "wf_addr from1" and run: "process_dao E i msg len from1 w = Inr (ex, i', w')"
  shows "ifaddr_src i' = ifaddr_src i \<and> (\<exists>es. w_trace w' = w_trace w @ es \<and> quiet es) \<and> same_roles i i'"
proof -
  have inv: "keys_inv i" using ok by (simp add: iface_ok_def)
  have src: "ifaddr_src i' = ifaddr_src i"
    using run by (auto simp: process_dao_def send_dao_ack_def Let_def elim!: bind_resE split: if_splits option.splits)
  have ro: "role_of d' = role_of d" if "may_learn from1 d d'" for d d'
    using that by (auto simp: may_learn_def role_of_def dag_info_def)
  from process_dao_spec [OF ok from1 run]
  have "same_roles i i' \<and> (\<exists>es. w_trace w' = w_trace w @ es \<and> quiet es)"
  proof (elim conjE disjE exE)
    fix p w1 complete d'
    let ?k = "dao_key (nd_rpl_dao_of (take 20 msg))"
    assume p: "lookup_key i ?k = Inr (Some p)" and l: "may_learn from1 (get_dag i p) d'"
      and t: "dag_table i' = (dag_table i)(?k \<mapsto> d')"
      and c: "if complete then ex = Dao_done \<and> (\<exists>es. routes_for (ifindex i) (childs d') es \<and>
         w_trace w' = w_trace w @ es @ [Sendmsg (icmp_call i (the (ifaddr_src i)) from1
           (dao_ack_message (dao_instanceid (nd_rpl_dao_of (take 20 msg))) d'))])
       else ex = Dao_opt_length_mismatch \<and> w_trace w' = w_trace w"
    have "same_roles i i'" unfolding same_roles_def t using ds.present [OF inv p] ro [OF l] by simp
    moreover have "\<exists>es. w_trace w' = w_trace w @ es \<and> quiet es"
      using c by (auto simp: quiet_sendmsg message_codes quiet_routes simp del: One_nat_def split: if_splits)
    ultimately show ?thesis by blast
  qed (simp add: same_roles_def)
  then show ?thesis using src by simp
qed

text \<open>The dags a sweep or the timer advertises.\<close>

lemma advertises_dio_event:
  assumes "iface_ok i" "\<forall>p \<in> set ps. valid_dag i p"
  shows "advertises i (map (dio_event i) ps)"
proof -
  have "wf_dag (get_dag i p) \<and> dag_table i (instance_id (rpls i ! fst p), dodagid (get_dag i p)) = Some (get_dag i p)"
    if "valid_dag i p" for p
  proof -
    have "keys_inv i" using assms(1) by (simp add: iface_ok_def)
    note l = iface_ok_lookupD [OF assms(1) dag_lookup_key [OF this that]]
    show ?thesis using l(1,2) unfolding dag_key_def by simp
  qed
  then have "\<exists>iid d. wf_dag d \<and> dio_message (instance_id (rpls i ! fst p)) (get_dag i p) = dio_message iid d \<and>
      dag_table i (iid, dodagid d) = Some d" if "p \<in> set ps" for p using that assms(2) by blast
  then show ?thesis unfolding advertises_def dio_event_def icmp_call_def by auto
qed

lemma role_bump [simp]: "role_of (bump_dtsn d) = role_of d"
  by (simp add: role_of_def dag_info_def bump_dtsn_def)

lemma send_dios_src: "send_dios E i ps w = Inr (i', w') \<Longrightarrow> ifaddr_src i' = ifaddr_src i"
  by (induction E i ps w rule: send_dios.induct) (auto simp: send_dio_def Let_def elim!: bind_resE split: if_splits)

lemma dis_rpls_src: "dis_rpls E i rs w = Inr (i', w') \<Longrightarrow> ifaddr_src i' = ifaddr_src i"
  by (induction E i rs w rule: dis_rpls.induct) (auto dest: send_dios_src elim!: bind_resE split: if_splits)

lemma dis_effect:
  assumes mem: "memory_available E" and ok: "iface_ok i" and run: "process_dis E i msg len from1 w = Inr (i', w')"
  shows "ifaddr_src i' = ifaddr_src i \<and> (\<exists>es. w_trace w' = w_trace w @ es \<and> advertises i es) \<and> same_roles i i'"
proof -
  have "ifaddr_src i' = ifaddr_src i" using run dis_rpls_src by (simp add: process_dis_def)
  moreover have "advertises i (map (dio_event i) (all_ptrs i))"
    by (rule advertises_dio_event [OF ok]) (simp add: all_ptrs_set)
  ultimately show ?thesis using process_dis_spec [OF mem ok, of msg len from1 w] run
    by (auto simp: same_roles_def option.map_comp o_def simp del: split_paired_All)
qed

lemma trickle_effect:
  assumes mem: "memory_available E" and ok: "iface_ok i" and p: "valid_dag i p" and run: "send_dio E i p w = Inr (i', w')"
  shows "ifaddr_src i' = ifaddr_src i \<and> (\<exists>es. w_trace w' = w_trace w @ es \<and> advertises i es) \<and> same_roles i i'"
proof -
  have inv: "keys_inv i" using ok by (simp add: iface_ok_def)
  have i': "i' = upd_dag i p bump_dtsn" "w_trace w' = w_trace w @ [dio_event i p]"
    using send_dio_step [OF mem ok p, of w] run by auto
  have k: "lookup_key i (dag_key i p) = Inr (Some p)" by (rule dag_lookup_key [OF inv p])
  have "same_roles i i'"
    using dag_table_upd [OF inv k, of bump_dtsn] ds.present [OF inv k] by (simp add: same_roles_def i'(1))
  moreover have "advertises i [dio_event i p]" using advertises_dio_event [OF ok, of "[p]"] p by simp
  ultimately show ?thesis using i' by auto
qed

lemma daoack_effect:
  assumes "keys_inv i" "process_daoack E i msg len from1 w = Inr (ex, i', w')"
  shows "i' = i \<and> (\<exists>es. w_trace w' = w_trace w @ es \<and> quiet es)"
proof -
  have q: "\<exists>es. w_trace (snd (nl_add_route_default E ifi a w)) = w_trace w @ es \<and> quiet es" for ifi a
    by (simp add: nl_request_defs nl_talk_world)
  show ?thesis using process_daoack_evolves [OF assms] assms(2) q
    by (auto simp: process_daoack_def split_def Let_def split: if_splits option.splits elim!: bind_resE)
qed


subsection \<open>One wakeup at one node\<close>

lemma recv_positive: "0 < fst (recv_rs_ra r) \<Longrightarrow> fst (recv_rs_ra r) = rm_len r"
  by (auto simp: recv_rs_ra_def split_def Let_def split: if_splits)

lemma carries_dio:
  assumes "carries r c" "sm_payload c = dio_message iid d" "wf_dag d"
  shows "rm_from r = sm_src c" "nat (rm_len r - 4) = length (dio_message iid d) - 4"
    "\<exists>rest. drop 4 (rm_buf r) = drop 4 (dio_message iid d) @ rest"
proof -
  let ?m = "dio_message iid d"
  have l: "length ?m \<le> 1500" using dio_chunks_message(3) [OF assms(3), of iid] bits_to_bytes_le_32 [of "pfx_len (dest d)"] by simp
  then have len: "rm_len r = int (length ?m)" using assms(1,2) by (simp add: carries_def MSG_SIZE_RECV_def)
  then show "nat (rm_len r - 4) = length ?m - 4" by simp
  have "take (length ?m - 4) (drop 4 (rm_buf r)) = drop 4 ?m" using assms(1,2) len by (simp add: carries_def)
  then show "\<exists>rest. drop 4 (rm_buf r) = drop 4 ?m @ rest" by (metis append_take_drop_id)
  show "rm_from r = sm_src c" using assms(1) by (simp add: carries_def)
qed

lemma carries_code:
  assumes "carries r c" "length (rm_buf r) = 1500"
  shows "rm_buf r ! 1 = sm_payload c ! 1"
proof -
  have "take 2 (rm_buf r) ! 1 = take 2 (sm_payload c) ! 1" using assms(1) by (simp add: carries_def)
  then show ?thesis by simp
qed

lemma wakesI: "ifaddr_src i' = ifaddr_src i \<Longrightarrow> advertises i es \<Longrightarrow> same_roles i i' \<Longrightarrow> wakes S i es i'"
  by (simp add: wakes_def)

lemma same_roles_refl [simp]: "same_roles i i"
  by (simp add: same_roles_def)

lemma packet_effect:
  assumes mem: "memory_available E" and junk: "length (stack_junk E) = 16" and ok: "state_ok is" and wf: "recv_wf r"
    and S: "rm_buf r ! 0 \<noteq> ND_RPL_MESSAGE \<or> (\<exists>c \<in> S. carries r c)"
    and dios: "\<And>c. c \<in> S \<Longrightarrow> sm_payload c ! 1 = ND_RPL_DAG_IO \<Longrightarrow> \<exists>iid d. wf_dag d \<and> sm_payload c = dio_message iid d"
    and run: "process E is (rm_buf r) (rm_len r) (rm_from r) pkt_info w = Inr (ex, is', w')"
  shows "is' = is \<and> w' = w \<or> (\<exists>j i' es. j < length is \<and> is' = is[j := i'] \<and> w_trace w' = w_trace w @ es \<and> wakes S (is ! j) es i')"
  using run
proof (cases rule: process_InrE)
  case (2 j i')
  have from1: "wf_addr (rm_from r)" "length (rm_buf r) = 1500" using wf by (auto simp: recv_wf_def MSG_SIZE_RECV_def)
  have i: "iface_ok (is ! j)" "keys_inv (is ! j)" using ok 2(1) by (auto simp: state_ok_def iface_ok_def)
  have "\<exists>es. w_trace w' = w_trace w @ es \<and> wakes S (is ! j) es i'"
    using 2(5)
  proof (elim disjE exE conjE)
    assume "process_dis E (is ! j) (drop 4 (rm_buf r)) (nat (rm_len r - 4)) (rm_from r) w = Inr (i', w')"
    from dis_effect [OF mem i(1) this] show ?thesis by (auto intro: wakesI)
  next
    fix x assume t: "rm_buf r ! 0 = ND_RPL_MESSAGE" "rm_buf r ! 1 = ND_RPL_DAG_IO"
      and p: "process_dio E (is ! j) (drop 4 (rm_buf r)) (nat (rm_len r - 4)) (rm_from r) w = Inr (x, i', w')"
    obtain c where c: "c \<in> S" "carries r c" using S t(1) by blast
    obtain iid d where d: "wf_dag d" "sm_payload c = dio_message iid d"
      using dios [OF c(1)] carries_code [OF c(2) from1(2)] t(2) by metis
    note cd = carries_dio [OF c(2) d(2,1)]
    obtain rest where m: "drop 4 (rm_buf r) = drop 4 (dio_message iid d) @ rest" using cd(3) by blast
    from dio_effect [OF mem junk i(1) from1(1) d(1) m cd(2) p] show ?thesis
      using c(1) d by (auto simp: wakes_def cd(1) quiet_advertises)
  next
    fix x assume "process_dao E (is ! j) (drop 4 (rm_buf r)) (nat (rm_len r - 4)) (rm_from r) w = Inr (x, i', w')"
    from dao_effect [OF i(1) from1(1) this] show ?thesis by (auto intro: wakesI quiet_advertises)
  next
    fix x assume "process_daoack E (is ! j) (drop 4 (rm_buf r)) (nat (rm_len r - 4)) (rm_from r) w = Inr (x, i', w')"
    from daoack_effect [OF i(2) this] show ?thesis by (auto simp: wakes_def quiet_advertises)
  qed
  then show ?thesis using 2(1,2) by blast
qed simp

lemma dispatch_effect:
  assumes mem: "memory_available E" and junk: "length (stack_junk E) = 16" and ok: "state_ok is" and en: "enabled is e"
    and S: "\<And>r. e = Packet r \<Longrightarrow> rm_buf r ! 0 \<noteq> ND_RPL_MESSAGE \<or> (\<exists>c \<in> S. carries r c)"
    and dios: "\<And>c. c \<in> S \<Longrightarrow> sm_payload c ! 1 = ND_RPL_DAG_IO \<Longrightarrow> \<exists>iid d. wf_dag d \<and> sm_payload c = dio_message iid d"
    and run: "dispatch E is e w = Inr (is', w')"
  shows "is' = is \<and> w' = w \<or> (\<exists>j i' es. j < length is \<and> is' = is[j := i'] \<and> w_trace w' = w_trace w @ es \<and> wakes S (is ! j) es i')"
proof (cases e)
  case (Packet r)
  have wf: "recv_wf r" using en Packet by (simp add: enabled_def)
  show ?thesis
  proof (cases "0 < fst (recv_rs_ra r) \<and> snd (snd (recv_rs_ra r)) \<noteq> None")
    case True
    then obtain ex where "process E is (rm_buf r) (rm_len r) (rm_from r) (snd (snd (recv_rs_ra r))) w = Inr (ex, is', w')"
      using run recv_positive [of r] by (auto simp: Packet dispatch_def icmpv6_cb_def split_def Let_def bind_res_Inr_iff)
    from packet_effect [OF mem junk ok wf S [OF Packet] dios this] show ?thesis .
  next
    case False
    then show ?thesis using run by (auto simp: Packet dispatch_def icmpv6_cb_def split_def Let_def split: if_splits)
  qed
next
  case (Trickle j p)
  then have j: "j < length is" "valid_dag (is ! j) p" using en by (auto simp: enabled_def)
  have i: "iface_ok (is ! j)" using ok j by (simp add: state_ok_def)
  obtain i' where s: "send_dio E (is ! j) p w = Inr (i', w')" "is' = is[j := i']"
    using run by (auto simp: Trickle dispatch_def trickle_cb_def bind_res_Inr_iff)
  from trickle_effect [OF mem i j(2) s(1)] show ?thesis using s(2) j(1) by (auto intro: wakesI)
next
  case (Dis_timer j)
  then have j: "j < length is" using en by (simp add: enabled_def)
  have i: "iface_ok (is ! j)" using ok j by (simp add: state_ok_def)
  then obtain src where src: "ifaddr_src (is ! j) = Some src" by (auto simp: iface_ok_def)
  let ?w = "emit (Ev_timer_stop (Dis_w (ifindex (is ! j)))) w"
  obtain i' where s: "send_dis E (is ! j) ?w = Inr (i', w')" "is' = is[j := i']"
    using run by (auto simp: Dis_timer dispatch_def send_dis_cb_def Let_def bind_res_Inr_iff)
  have "quiet [Ev_timer_stop (Dis_w (ifindex (is ! j))), Sendmsg (icmp_call (is ! j) src all_rpl_addr dis_message)]"
    by (simp add: quiet_sendmsg message_codes del: One_nat_def)
  from quiet_advertises [OF this] have "wakes S (is ! j) [Ev_timer_stop (Dis_w (ifindex (is ! j))),
      Sendmsg (icmp_call (is ! j) src all_rpl_addr dis_message)] (is ! j)" by (simp add: wakes_def)
  then show ?thesis using send_dis_Inr(1) [OF src s(1)] s(2) j by auto
qed


subsection \<open>One step of the network is one step of the protocol\<close>

lemma sent_dios:
  assumes "net_ok N" "c \<in> sent N" "sm_payload c ! 1 = ND_RPL_DAG_IO"
  shows "\<exists>iid d. wf_dag d \<and> sm_payload c = dio_message iid d"
  using assms unfolding net_ok_def sent_def dios_only_def by fastforce

lemma advertises_dios: "advertises i es \<Longrightarrow> dios_only es"
  unfolding advertises_def dios_only_def by blast

lemma dios_only_append [simp]: "dios_only (es @ es') \<longleftrightarrow> dios_only es \<and> dios_only es'"
  unfolding dios_only_def by auto

lemma net_step_cases:
  assumes ok: "net_ok N" and env: "envs_ok Es" and step: "net_step Es N (n, e) N'"
  obtains (idle) "N' = N"
  | (wake) j i' es w' where "n < length N" "j < length (fst (N ! n))" "N' = N[n := ((fst (N ! n))[j := i'], w')]"
      "w_trace w' = w_trace (snd (N ! n)) @ es" "wakes (sent N) (fst (N ! n) ! j) es i'" "net_ok N'"
proof -
  obtain "is" w where nn: "N ! n = (is, w)" by force
  from step obtain is' w' where s: "n < length N" "honest N e" "N' = N[n := (is', w')]" "enabled is e" "dispatch (Es n) is e w = Inr (is', w')"
    by (cases rule: net_step.cases) (auto simp: nn daemon_step.simps)
  have "(is, w) \<in> set N" using s(1) nn by (metis nth_mem)
  then have i: "state_ok is" "dios_only (w_trace w)" using ok by (auto simp: net_ok_def)
  have E: "memory_available (Es n)" "length (stack_junk (Es n)) = 16" using env by (simp_all add: envs_ok_def)
  have h: "rm_buf r ! 0 \<noteq> ND_RPL_MESSAGE \<or> (\<exists>c \<in> sent N. carries r c)" if "e = Packet r" for r
    using s(2) that unfolding honest_def sent_def by blast
  have "is' = is \<and> w' = w \<or> (\<exists>j i' es. j < length is \<and> is' = is[j := i'] \<and> w_trace w' = w_trace w @ es \<and>
      wakes (sent N) (is ! j) es i')"
    by (rule dispatch_effect [OF E i(1) s(4) _ _ s(5)]) (fact h, rule sent_dios [OF ok])
  then show thesis
  proof (elim disjE exE conjE)
    assume "is' = is" "w' = w"
    then show thesis using idle s(3) nn by (metis list_update_id)
  next
    fix j i' es
    assume w: "j < length is" "is' = is[j := i']" "w_trace w' = w_trace w @ es" "wakes (sent N) (is ! j) es i'"
    have "dios_only es" using w(4) advertises_dios by (auto simp: wakes_def)
    then have "state_ok is' \<and> dios_only (w_trace w')" using dispatch_evolves [OF E i(1) s(4,5)] i(2) w(3) by simp
    then have "net_ok N'" using ok s(3) unfolding net_ok_def by (auto dest!: subsetD [OF set_update_subset_insert])
    then show thesis using wake w s(1,3) nn by simp
  qed
qed

lemma adverts_append: "adverts k (es @ es') = adverts k es \<union> adverts k es'"
  unfolding adverts_def by auto

lemma adverts_advertised:
  assumes "advertises i es" "adv \<in> adverts k es"
  shows "\<exists>d. dag_table i k = Some d \<and> adv = advert_of (the (ifaddr_src i)) (role_of d)"
proof -
  obtain c d where c: "adv = (sm_src c, my_rank d, dag_info d)" "Sendmsg c \<in> set es" "wf_dag d" "dodagid d = snd k"
    "sm_payload c = dio_message (fst k) d" using assms(2) by (auto simp: adverts_def)
  then have "sm_payload c ! 1 = ND_RPL_DAG_IO" by (simp add: message_codes del: One_nat_def)
  with assms(1) c(2) obtain iid e where e: "sm_src c = the (ifaddr_src i)" "wf_dag e" "sm_payload c = dio_message iid e"
    "dag_table i (iid, dodagid e) = Some e" unfolding advertises_def by blast
  have "dio_message (fst k) d = dio_message iid e" using c(5) e(3) by simp
  from dio_message_inj [OF c(3) e(2) this] have "(iid, dodagid e) = k" "my_rank e = my_rank d" "dag_info e = dag_info d"
    using c(4) by (simp_all add: prod_eq_iff)
  then show ?thesis using e(1,4) c(1) by (simp add: advert_of_def)
qed

lemma quiet_adverts: "quiet es \<Longrightarrow> adverts k es = {}"
  unfolding quiet_def adverts_def by (auto simp: message_codes simp del: One_nat_def)

lemma update_iface:
  assumes "n < length N" "j < length (fst (N ! n))" and N': "N' = N[n := ((fst (N ! n))[j := i'], w')]"
  shows "ports N' = ports N" "Port n j \<in> ports N" "iface_at N (Port n j) = fst (N ! n) ! j"
    "iface_at N' x = (if x = Port n j then i' else iface_at N x)"
    "dag_at N' k = (dag_at N k)(Port n j := dag_table i' k)"
proof -
  show p: "ports N' = ports N" using assms(1) by (auto simp: ports_def N' nth_list_update_if)
  show q: "Port n j \<in> ports N" using assms by (simp add: ports_def)
  show "iface_at N (Port n j) = fst (N ! n) ! j" by (simp add: iface_at_def)
  have i: "iface_at N' x = (if x = Port n j then i' else iface_at N x)" for x
    using assms by (cases x) (auto simp: iface_at_def nth_list_update_if)
  show "iface_at N' x = (if x = Port n j then i' else iface_at N x)" by (rule i)
  show "dag_at N' k = (dag_at N k)(Port n j := dag_table i' k)" using p q by (auto simp: fun_eq_iff dag_at_def i)
qed

lemma update_air:
  assumes "n < length N" "N' = N[n := (is', w')]" "w_trace w' = w_trace (snd (N ! n)) @ es"
  shows "air (dodag_of k N') = air (dodag_of k N) \<union> adverts k es"
proof -
  have set: "set M = (!) M ` {..<length M}" for M :: net by (auto simp: set_conv_nth)
  have new: "adverts k (w_trace (snd (N' ! m))) = adverts k (w_trace (snd (N ! m))) \<union> (if m = n then adverts k es else {})"
    if "m \<in> {..<length N}" for m
    using that assms by (simp add: nth_list_update_if adverts_append)
  have "air (dodag_of k N') = (\<Union>m \<in> {..<length N}. adverts k (w_trace (snd (N' ! m))))"
    unfolding dodag_of_def set [of N'] by (simp add: assms(2))
  also have "\<dots> = (\<Union>m \<in> {..<length N}. adverts k (w_trace (snd (N ! m)))) \<union> adverts k es"
    using assms(1) by (auto simp: new split: if_splits)
  finally show ?thesis unfolding dodag_of_def set [of N] by simp
qed


lemma hears_step:
  assumes "(a, r, g) \<in> air s" "hears (a, r, g) (member s x) ro"
  shows "dodag_step addr s (s\<lparr>member := (member s)(x \<mapsto> ro)\<rparr>)"
  using assms(2)
proof (cases rule: hears.cases)
  case Fresh
  then show ?thesis using dodag_step.Join [of s x a r g addr] assms(1) by simp
next
  case (Orphan ro')
  then show ?thesis using dodag_step.Adopt [of s x ro' a r g addr] assms(1) by simp
next
  case (Better ro' b r')
  then show ?thesis using dodag_step.Improve [of s x ro' b r' a r g addr] assms(1) by simp
qed

lemma dodag_step_refl: "dodag_step addr s s"
  using dodag_step.Advertise [of "{}" s undefined addr] by simp

lemma dodag_of_eqI: "member (dodag_of k N) = m \<Longrightarrow> air (dodag_of k N) = A \<Longrightarrow> dodag_of k N = \<lparr>member = m, air = A\<rparr>"
  by (cases "dodag_of k N") simp

lemma net_step_refines:
  assumes ok: "net_ok N" and env: "envs_ok Es" and step: "net_step Es N (n, e) N'"
  shows "net_ok N' \<and> ports N' = ports N \<and> src_at N' = src_at N \<and> dodag_step (src_at N) (dodag_of k N) (dodag_of k N')"
  using ok env step
proof (cases rule: net_step_cases)
  case idle
  then show ?thesis using ok dodag_step_refl by metis
next
  case (wake j i' es w')
  let ?x = "Port n j" and ?i = "fst (N ! n) ! j" and ?s = "dodag_of k N" and ?s' = "dodag_of k N'"
  note u = update_iface [OF wake(1-3)] and air = update_air [OF wake(1,3,4), of k]
  have src: "src_at N' = src_at N" using wake(5) u(3) by (auto simp: fun_eq_iff src_at_def u(4) wakes_def)
  have adv: "advertises ?i es" using wake(5) by (simp add: wakes_def)
  have sx: "src_at N ?x = the (ifaddr_src ?i)" by (simp add: src_at_def u(3))
  have mx: "member ?s ?x = map_option role_of (dag_table ?i k)" using u(2,3) by (simp add: dodag_of_def dag_at_def)
  have mem: "member ?s' = (member ?s)(?x := map_option role_of (dag_table i' k))"
    by (auto simp: dodag_of_def u(5) fun_eq_iff)
  have s': "?s' = ?s\<lparr>member := (member ?s)(?x := map_option role_of (dag_table i' k)), air := air ?s \<union> adverts k es\<rparr>"
    using mem air by (cases ?s; cases ?s') simp
  have "dodag_step (src_at N) ?s ?s'"
  proof (cases "map_option role_of (dag_table i' k) = map_option role_of (dag_table ?i k)")
    case True
    have "\<forall>adv \<in> adverts k es. \<exists>ro. member ?s ?x = Some ro \<and> adv = advert_of (src_at N ?x) ro"
    proof
      fix a assume "a \<in> adverts k es"
      from adverts_advertised [OF adv this] mx sx show "\<exists>ro. member ?s ?x = Some ro \<and> a = advert_of (src_at N ?x) ro" by auto
    qed
    from dodag_step.Advertise [of "adverts k es" ?s ?x "src_at N", OF this] show ?thesis
      unfolding s' True mx [symmetric] by (cases ?s) simp
  next
    case False
    then have "\<not> same_roles ?i i'" unfolding same_roles_def by blast
    then obtain c iid d d' where h: "quiet es" "c \<in> sent N" "wf_dag d" "sm_payload c = dio_message iid d"
      "dag_table i' = (dag_table ?i)((iid, dodagid d) \<mapsto> d')"
      "hears (sm_src c, my_rank d, dag_info d) (map_option role_of (dag_table ?i (iid, dodagid d))) (role_of d')"
      using wake(5) by (auto simp: wakes_def)
    have k: "k = (iid, dodagid d)" using False h(5) by (cases "k = (iid, dodagid d)") auto
    obtain q where q: "q \<in> set N" "Sendmsg c \<in> set (w_trace (snd q))" using h(2) by (force simp: sent_def)
    then have "(sm_src c, my_rank d, dag_info d) \<in> adverts k (w_trace (snd q))" using h(3,4) k by (auto simp: adverts_def)
    then have "(sm_src c, my_rank d, dag_info d) \<in> air ?s" using q(1) by (auto simp: dodag_of_def)
    moreover have "hears (sm_src c, my_rank d, dag_info d) (member ?s ?x) (role_of d')" using h(6) mx k by simp
    ultimately have "dodag_step (src_at N) ?s (?s\<lparr>member := (member ?s)(?x \<mapsto> role_of d')\<rparr>)" by (rule hears_step)
    moreover have "?s' = ?s\<lparr>member := (member ?s)(?x \<mapsto> role_of d')\<rparr>"
      using s' h(5) k by (cases ?s) (simp add: quiet_adverts [OF h(1)])
    ultimately show ?thesis by simp
  qed
  then show ?thesis using wake(6) u(1) src by simp
qed


subsection \<open>Runs\<close>

lemma finite_ports [simp]: "finite (ports N)"
proof -
  have "ports N \<subseteq> (\<Union>n < length N. Port n ` {..<length (fst (N ! n))})"
  proof
    fix x assume "x \<in> ports N"
    then show "x \<in> (\<Union>n < length N. Port n ` {..<length (fst (N ! n))})" by (cases x) (auto simp: ports_def)
  qed
  then show ?thesis by (rule finite_subset) simp
qed

lemma dag_at_ports: "dom (dag_at N k) \<subseteq> ports N"
  by (auto simp: dag_at_def split: if_splits)

lemma dom_member [simp]: "dom (member (dodag_of k N)) = dom (dag_at N k)"
  by (auto simp: dodag_of_def dom_def)

lemma parents_member: "parents N k = parent_rel (src_at N) (dodag_of k N)"
  by (auto simp: parents_def parent_rel_def dodag_of_def)

lemma configured_inv:
  assumes "configured N k g"
  shows "net_ok N \<and> dodag_inv (src_at N) (roots N k) g (dodag_of k N)"
proof
  show "net_ok N" using assms by (auto simp: configured_def net_ok_def dios_only_def quiet_def)
  have "air (dodag_of k N) = {}" using assms by (auto simp: configured_def dodag_of_def quiet_adverts)
  moreover have "role_ok (src_at N) (roots N k) g (\<lambda>_. 0) (dodag_of k N) x ro" if m: "member (dodag_of k N) x = Some ro" for x ro
  proof -
    obtain d where "dag_at N k x = Some d" "ro = role_of d" using m by (auto simp: dodag_of_def)
    moreover from this have "parent d = None \<and> my_rank d = 1 \<and> dag_info d = g" using assms by (auto simp: configured_def ran_def)
    ultimately show ?thesis by (auto simp: role_ok_def roots_def)
  qed
  ultimately show "dodag_inv (src_at N) (roots N k) g (dodag_of k N)"
    by (intro dodag_invI [where t = "\<lambda>_. 0"]) (auto simp: roots_def)
qed

lemma net_run_inv:
  assumes "net_run Es N es N'" "envs_ok Es" "configured N k g"
  shows "net_ok N' \<and> ports N' = ports N \<and> src_at N' = src_at N \<and> dodag_inv (src_at N) (roots N k) g (dodag_of k N')"
  using assms
proof (induction rule: net_run.induct)
  case (Start N)
  then show ?case using configured_inv by blast
next
  case (Then N es M e L)
  obtain n ev where e: "e = (n, ev)" by force
  from Then have M: "net_ok M" "ports M = ports N" "src_at M = src_at N" "dodag_inv (src_at N) (roots N k) g (dodag_of k M)" by auto
  from net_step_refines [OF M(1) Then.prems(1) Then.hyps(2) [unfolded e], of k] M(2,3) have L: "net_ok L" "ports L = ports N"
    "src_at L = src_at N" "dodag_step (src_at N) (dodag_of k M) (dodag_of k L)" by auto
  have d: "dom (dag_at M k) \<subseteq> ports N" using dag_at_ports [of M k] M(2) by simp
  have "card (dom (dag_at M k)) \<le> 65535" using card_mono [OF finite_ports d] Then.prems(2) by (simp add: configured_def)
  moreover have "finite (dom (dag_at M k))" using d finite_subset finite_ports by blast
  ultimately show ?case using L dodag_step_inv [OF L(4) M(4)] by simp
qed

lemma roots_stay: "net_run Es N es N' \<Longrightarrow> envs_ok Es \<Longrightarrow> configured N k g \<Longrightarrow> roots N k \<subseteq> dom (dag_at N' k)"
  using net_run_inv [of Es N es N' k g] by (simp add: dodag_inv_def)

lemma network_dags:
  assumes run: "net_run Es N es N'" and env: "envs_ok Es" and conf: "configured N k g" and d: "dag_at N' k x = Some d"
  shows "dag_info d = g" "1 \<le> unat (my_rank d)" "unat (my_rank d) \<le> card (dom (dag_at N' k))"
    "my_rank d = 1 \<longleftrightarrow> x \<in> roots N k" "parent d = None \<longleftrightarrow> x \<in> roots N k"
proof -
  note inv = net_run_inv [OF run env conf]
  have dom: "dom (dag_at N' k) \<subseteq> ports N" using dag_at_ports [of N' k] inv by simp
  have fin: "finite (dom (dag_at N' k))" using finite_subset [OF dom] by simp
  have card: "card (dom (dag_at N' k)) \<le> 65535" using card_mono [OF finite_ports dom] conf by (simp add: configured_def)
  have m: "member (dodag_of k N') x = Some (role_of d)" using d by (simp add: dodag_of_def)
  obtain t where ro: "role_ok (src_at N) (roots N k) g t (dodag_of k N') x (role_of d)" using dodag_inv_role inv m by metis
  then show "dag_info d = g" by (simp add: role_ok_def)
  show b: "1 \<le> unat (my_rank d)" "unat (my_rank d) \<le> card (dom (dag_at N' k))"
    using role_rank_bounds [OF ro m] fin card by simp_all
  have "my_rank d \<noteq> 1" if "parent d = Some pe" for pe
  proof -
    have "my_rank d = peer_rank pe + 1" "1 \<le> unat (peer_rank pe)" "unat (peer_rank pe) < card (dom (dag_at N' k))"
      using ro that by (simp_all add: role_ok_def)
    then have "unat (my_rank d) = unat (peer_rank pe) + 1" using unat_Suc card by simp
    then show ?thesis using \<open>1 \<le> unat (peer_rank pe)\<close> by auto
  qed
  then show "my_rank d = 1 \<longleftrightarrow> x \<in> roots N k" "parent d = None \<longleftrightarrow> x \<in> roots N k"
    using ro by (auto simp: role_ok_def split: option.splits)
qed

lemma network_parents:
  assumes run: "net_run Es N es N'" and env: "envs_ok Es" and conf: "configured N k g"
  shows "acyclic (parents N' k)" "x \<in> dom (dag_at N' k) \<Longrightarrow> \<exists>y \<in> roots N k. (x, y) \<in> (parents N' k)\<^sup>*"
proof -
  note inv = net_run_inv [OF run env conf]
  have dom: "dom (dag_at N' k) \<subseteq> ports N" using dag_at_ports [of N' k] inv by simp
  have p: "parents N' k = parent_rel (src_at N) (dodag_of k N')" using inv by (simp add: parents_member)
  have "inj_on (src_at N) (dom (dag_at N' k))" using conf by (auto simp: configured_def intro: inj_on_subset [OF _ dom])
  then show "acyclic (parents N' k)" unfolding p using dodag_inv_acyclic [of "src_at N" "roots N k" g "dodag_of k N'"] inv by simp
  show "\<exists>y \<in> roots N k. (x, y) \<in> (parents N' k)\<^sup>*" if m: "x \<in> dom (dag_at N' k)"
  proof -
    obtain ro where "member (dodag_of k N') x = Some ro" using m by (auto simp: dodag_of_def)
    then show ?thesis unfolding p using dodag_inv_root [of "src_at N" "roots N k" g "dodag_of k N'"] inv by simp
  qed
qed

end
