(* ===== verification/Example_Net.thy ===== *)
theory Example_Net
  imports Example_Node Network
begin

section \<open>A concrete network\<close>

text \<open>Two nodes, a root and one that has not joined.\<close>

definition example_net :: net where
  "example_net = [([root_node], world0), ([new_node], world0)]"

lemma two_ports: "ports [([i], v), ([j], w)] = {Port 0 0, Port 1 0}"
proof (rule set_eqI)
  fix x show "x \<in> ports [([i], v), ([j], w)] \<longleftrightarrow> x \<in> {Port 0 0, Port 1 0}"
    by (cases x) (auto simp: ports_def less_Suc_eq numeral_2_eq_2)
qed

lemma example_net_configured: "configured example_net (7, addr_of 1) (dag_info root_dag)"
proof -
  have p: "ports example_net = {Port 0 0, Port 1 0}" unfolding example_net_def by (rule two_ports)
  have d: "dag_at example_net (7, addr_of 1) x = (if x = Port 0 0 then Some root_dag else None)" for x
    using p by (auto simp: dag_at_def iface_at_def example_net_def)
  have a: "src_at example_net (Port 0 0) = addr_of 1" "src_at example_net (Port 1 0) = addr_of 2"
    by (simp_all add: src_at_def iface_at_def example_net_def new_node_def root_node_def iface_with_def)
  have "\<forall>(is, w) \<in> set example_net. state_ok is \<and> quiet (w_trace w)"
    by (simp add: example_net_def state_ok_def world0_def)
  moreover have "parent root_dag = None" "my_rank root_dag = 1" by (simp_all add: root_dag_def fresh_dag_def)
  moreover have "inj_on (src_at example_net) (ports example_net)" using a by (auto simp: p inj_on_def)
  ultimately show ?thesis unfolding configured_def by (auto simp: p d ran_def split: if_splits)
qed

text \<open>The root's timer fires.\<close>

lemma example_net_first:
  "\<exists>w1. net_step (\<lambda>_. env0) example_net (0, Trickle 0 (0, 0)) [([upd_dag root_node (0, 0) bump_dtsn], w1), ([new_node], world0)] \<and>
     w_trace w1 = w_trace world0 @ [dio_event root_node (0, 0)]"
proof -
  let ?r = "upd_dag root_node (0, 0) bump_dtsn"
  have v: "valid_dag root_node (0, 0)" by (simp add: valid_dag_def root_node_def iface_with_def)
  obtain w1 where s: "send_dio env0 root_node (0, 0) world0 = Inr (?r, w1)"
    "w_trace w1 = w_trace world0 @ [dio_event root_node (0, 0)]"
    using send_dio_step [of env0 root_node "(0, 0)" world0] v by auto
  have "daemon_step env0 ([root_node], world0) (Trickle 0 (0, 0)) ([?r], w1)"
    using s(1) v by (simp add: daemon_step_iff enabled_def dispatch_def trickle_cb_def)
  then show ?thesis using s(2)
    net_step.Node [of 0 example_net "Trickle 0 (0, 0)" "\<lambda>_. env0" "([?r], w1)"] by (auto simp: honest_def example_net_def)
qed

end
