(* ===== verification/Utlist.thy ===== *)
theory Utlist
  imports Rpld_Prelude
begin

section \<open>utlist.h and list.h: doubly linked lists on the heap\<close>

text \<open>
  The macros of \<open>utlist.h\<close> for doubly linked lists, statement by statement, on an
  explicit heap of list nodes (\<open>struct list\<close> of \<open>list.h\<close>). The heap is a partial map from
  addresses to nodes: an address outside its domain is memory that is not, or no longer,
  allocated. In a list of this library the head's \<open>prev\<close> points to the last element and
  the last element's \<open>next\<close> is \<open>NULL\<close>. The lemmas relate each macro to the operation on
  Isabelle lists that the models of the other components use in its place, and the
  interpretation at the end states that as one contract.
\<close>

type_synonym ptr = nat

record dl_node =
  dl_prev :: "ptr option"
  dl_next :: "ptr option"

type_synonym dl_heap = "ptr \<rightharpoonup> dl_node"

subsection \<open>Loads and stores\<close>

definition load :: "dl_heap \<Rightarrow> ptr option \<Rightarrow> dl_node res" where
  "load h p = (case p of None \<Rightarrow> Inl Null_deref
     | Some a \<Rightarrow> (case h a of None \<Rightarrow> Inl Use_after_free | Some n \<Rightarrow> Inr n))"

definition set_prev :: "dl_heap \<Rightarrow> ptr option \<Rightarrow> ptr option \<Rightarrow> dl_heap res" where
  "set_prev h p v = bind_res (load h p) (\<lambda>n. Inr (h(the p \<mapsto> n\<lparr>dl_prev := v\<rparr>)))"

definition set_next :: "dl_heap \<Rightarrow> ptr option \<Rightarrow> ptr option \<Rightarrow> dl_heap res" where
  "set_next h p v = bind_res (load h p) (\<lambda>n. Inr (h(the p \<mapsto> n\<lparr>dl_next := v\<rparr>)))"

subsection \<open>The macros\<close>

text \<open>Each macro assigns to its argument \<open>head\<close>: the new head is part of the result.\<close>

definition DL_PREPEND :: "ptr option \<Rightarrow> ptr option \<Rightarrow> dl_heap \<Rightarrow> (ptr option \<times> dl_heap) res" where
  "DL_PREPEND head add h =
     bind_res (set_next h add head) (\<lambda>h.
     bind_res (if head \<noteq> None
               then bind_res (load h head) (\<lambda>n.
                    bind_res (set_prev h add (dl_prev n)) (\<lambda>h. set_prev h head add))
               else set_prev h add add) (\<lambda>h.
     Inr (add, h)))"

definition DL_APPEND :: "ptr option \<Rightarrow> ptr option \<Rightarrow> dl_heap \<Rightarrow> (ptr option \<times> dl_heap) res" where
  "DL_APPEND head add h =
     (if head \<noteq> None
      then bind_res (load h head) (\<lambda>n.
           bind_res (set_prev h add (dl_prev n)) (\<lambda>h.
           bind_res (load h head) (\<lambda>n.
           bind_res (set_next h (dl_prev n) add) (\<lambda>h.
           bind_res (set_prev h head add) (\<lambda>h.
           bind_res (set_next h add None) (\<lambda>h. Inr (head, h)))))))
      else bind_res (set_prev h add add) (\<lambda>h.
           bind_res (set_next h add None) (\<lambda>h. Inr (add, h))))"

definition DL_CONCAT :: "ptr option \<Rightarrow> ptr option \<Rightarrow> dl_heap \<Rightarrow> (ptr option \<times> dl_heap) res" where
  "DL_CONCAT head1 head2 h =
     (if head2 \<noteq> None
      then if head1 \<noteq> None
           then bind_res (load h head2) (\<lambda>n2. let tmp = dl_prev n2 in
                bind_res (load h head1) (\<lambda>n1.
                bind_res (set_prev h head2 (dl_prev n1)) (\<lambda>h.
                bind_res (load h head1) (\<lambda>n1.
                bind_res (set_next h (dl_prev n1) head2) (\<lambda>h.
                bind_res (set_prev h head1 tmp) (\<lambda>h. Inr (head1, h)))))))
           else Inr (head2, h)
      else Inr (head1, h))"

definition DL_DELETE :: "ptr option \<Rightarrow> ptr option \<Rightarrow> dl_heap \<Rightarrow> (ptr option \<times> dl_heap) res" where
  "DL_DELETE head del h =
     (if head = None then Inl Assert_failed else
      bind_res (load h del) (\<lambda>d.
      if dl_prev d = None then Inl Assert_failed else
      if dl_prev d = del then Inr (None, h)
      else if del = head
      then bind_res (set_prev h (dl_next d) (dl_prev d)) (\<lambda>h.
           bind_res (load h del) (\<lambda>d. Inr (dl_next d, h)))
      else bind_res (set_next h (dl_prev d) (dl_next d)) (\<lambda>h.
           bind_res (load h del) (\<lambda>d.
           if dl_next d \<noteq> None
           then bind_res (set_prev h (dl_next d) (dl_prev d)) (\<lambda>h. Inr (head, h))
           else bind_res (set_prev h head (dl_prev d)) (\<lambda>h. Inr (head, h))))))"

text \<open>
  \<open>DL_FOREACH\<close> with a body that may leave the loop (\<open>Inl r\<close>, a \<open>return\<close> in the C body) or
  go on with a new loop state. The heap is not changed by the body. The fuel bounds the
  number of elements visited; \<open>None\<close> is a run that has not ended by then.
\<close>

fun DL_FOREACH :: "nat \<Rightarrow> dl_heap \<Rightarrow> (ptr \<Rightarrow> 's \<Rightarrow> 'r + 's) \<Rightarrow> ptr option \<Rightarrow> 's \<Rightarrow> ('r + 's) res option"
where
  "DL_FOREACH fuel h body None s = Some (Inr (Inr s))"
| "DL_FOREACH 0 h body (Some el) s = None"
| "DL_FOREACH (Suc fuel) h body (Some el) s =
     (case body el s of
        Inl r \<Rightarrow> Some (Inr (Inl r))
      | Inr s' \<Rightarrow> (case load h (Some el) of
                    Inl e \<Rightarrow> Some (Inl e)
                  | Inr n \<Rightarrow> DL_FOREACH fuel h body (dl_next n) s'))"

text \<open>
  \<open>DL_FOREACH_SAFE\<close>: the successor is read before the body runs, and the body may change
  the heap and the head.
\<close>

fun DL_FOREACH_SAFE :: "nat \<Rightarrow> (ptr \<Rightarrow> ptr option \<times> dl_heap \<Rightarrow> (ptr option \<times> dl_heap) res)
    \<Rightarrow> ptr option \<Rightarrow> ptr option \<times> dl_heap \<Rightarrow> (ptr option \<times> dl_heap) res option" where
  "DL_FOREACH_SAFE fuel body None s = Some (Inr s)"
| "DL_FOREACH_SAFE 0 body (Some el) s = None"
| "DL_FOREACH_SAFE (Suc fuel) body (Some el) s =
     (case load (snd s) (Some el) of
        Inl e \<Rightarrow> Some (Inl e)
      | Inr n \<Rightarrow> (case body el s of
                    Inl e \<Rightarrow> Some (Inl e)
                  | Inr s' \<Rightarrow> DL_FOREACH_SAFE fuel body (dl_next n) s'))"

definition DL_COUNT :: "nat \<Rightarrow> dl_heap \<Rightarrow> ptr option \<Rightarrow> nat res option" where
  "DL_COUNT fuel h head =
     (case DL_FOREACH fuel h (\<lambda>_ n. Inr (Suc n) :: unit + nat) head 0 of
        None \<Rightarrow> None
      | Some (Inl e) \<Rightarrow> Some (Inl e)
      | Some (Inr (Inl _)) \<Rightarrow> None
      | Some (Inr (Inr n)) \<Rightarrow> Some (Inr n))"

subsection \<open>Lists on the heap\<close>

text \<open>
  \<open>dseg h pv xs nx\<close>: the nodes \<open>xs\<close> are chained in both directions, the first one's \<open>prev\<close>
  is \<open>pv\<close> and the last one's \<open>next\<close> is \<open>nx\<close>. \<open>dlist h head xs\<close>: \<open>head\<close> is a list with the
  elements \<open>xs\<close>, in the representation of \<open>utlist.h\<close>.
\<close>

definition first_or :: "ptr list \<Rightarrow> ptr option \<Rightarrow> ptr option" where
  "first_or xs nx = (case xs of [] \<Rightarrow> nx | x # _ \<Rightarrow> Some x)"

fun dseg :: "dl_heap \<Rightarrow> ptr \<Rightarrow> ptr list \<Rightarrow> ptr option \<Rightarrow> bool" where
  "dseg h pv [] nx \<longleftrightarrow> True"
| "dseg h pv (x # xs) nx \<longleftrightarrow>
     h x = Some \<lparr>dl_prev = Some pv, dl_next = first_or xs nx\<rparr> \<and> dseg h x xs nx"

definition dlist :: "dl_heap \<Rightarrow> ptr option \<Rightarrow> ptr list \<Rightarrow> bool" where
  "dlist h head xs \<longleftrightarrow> distinct xs \<and> head = first_or xs None \<and> (xs \<noteq> [] \<longrightarrow> dseg h (last xs) xs None)"

text \<open>What a \<open>DL_FOREACH\<close> loop computes, on the abstract list.\<close>

fun foreach :: "(ptr \<Rightarrow> 's \<Rightarrow> 'r + 's) \<Rightarrow> ptr list \<Rightarrow> 's \<Rightarrow> 'r + 's" where
  "foreach body [] s = Inr s"
| "foreach body (x # xs) s = (case body x s of Inl r \<Rightarrow> Inl r | Inr s' \<Rightarrow> foreach body xs s')"

subsection \<open>Lemmas on chains\<close>

lemma first_or_simps [simp]:
  "first_or [] nx = nx" "first_or (x # xs) nx = Some x"
  "first_or (xs @ ys) nx = first_or xs (first_or ys nx)"
  by (simp_all add: first_or_def split: list.splits)

lemma first_or_neq_None [simp]: "(first_or xs None = None) = (xs = [])"
  by (cases xs) simp_all

lemma dseg_append [simp]:
  "dseg h pv (xs @ ys) nx \<longleftrightarrow> dseg h pv xs (first_or ys nx) \<and> dseg h (last (pv # xs)) ys nx"
  by (induction xs arbitrary: pv) auto

lemma dseg_upd [simp]: "a \<notin> set xs \<Longrightarrow> dseg (h(a := v)) pv xs nx = dseg h pv xs nx"
  by (induction xs arbitrary: pv) auto

lemma load_Some [simp]: "load h (Some a) = (case h a of None \<Rightarrow> Inl Use_after_free | Some n \<Rightarrow> Inr n)"
  by (simp add: load_def)

lemmas dl_defs = set_prev_def set_next_def

lemma list_cases3:
  obtains "xs = []" | x where "xs = [x]" | x ms l where "xs = x # ms @ [l]"
  by (cases xs; cases "tl xs" rule: rev_cases) auto

lemma dlist_Nil [simp]: "dlist h head [] \<longleftrightarrow> head = None"
  by (auto simp: dlist_def)

subsection \<open>The macros on represented lists\<close>

lemma DL_APPEND_dlist:
  assumes "dlist h head xs" "add \<notin> set xs" "add \<in> dom h"
  shows "\<exists>head' h'. DL_APPEND head (Some add) h = Inr (head', h') \<and> dlist h' head' (xs @ [add]) \<and>
    (\<forall>p. p \<notin> set (xs @ [add]) \<longrightarrow> h' p = h p)"
proof (cases xs rule: list_cases3)
  case 1
  with assms show ?thesis by (auto simp: DL_APPEND_def dl_defs dlist_def)
next
  case (2 x)
  with assms show ?thesis by (auto simp: DL_APPEND_def dl_defs dlist_def)
next
  case (3 x ms l)
  with assms show ?thesis by (auto simp: DL_APPEND_def dl_defs dlist_def)
qed

lemma DL_PREPEND_dlist:
  assumes "dlist h head xs" "add \<notin> set xs" "add \<in> dom h"
  shows "\<exists>head' h'. DL_PREPEND head (Some add) h = Inr (head', h') \<and> dlist h' head' (add # xs) \<and>
    (\<forall>p. p \<notin> set (add # xs) \<longrightarrow> h' p = h p)"
proof (cases xs rule: list_cases3)
  case 1
  with assms show ?thesis by (auto simp: DL_PREPEND_def dl_defs dlist_def)
next
  case (2 x)
  with assms show ?thesis by (auto simp: DL_PREPEND_def dl_defs dlist_def)
next
  case (3 x ms l)
  with assms show ?thesis by (auto simp: DL_PREPEND_def dl_defs dlist_def)
qed

lemma DL_DELETE_dlist:
  assumes "dlist h head (xs @ del # ys)"
  shows "\<exists>head' h'. DL_DELETE head (Some del) h = Inr (head', h') \<and> dlist h' head' (xs @ ys) \<and>
    (\<forall>p. p \<notin> set (xs @ ys) \<longrightarrow> h' p = h p)"
proof (cases xs rule: rev_cases)
  case Nil
  show ?thesis
  proof (cases ys)
    case (Cons y zs)
    with Nil assms show ?thesis by (cases zs rule: rev_cases) (auto simp: DL_DELETE_def dl_defs dlist_def)
  qed (use Nil assms in \<open>auto simp: DL_DELETE_def dl_defs dlist_def\<close>)
next
  case (snoc us p)
  show ?thesis
  proof (cases ys)
    case Nil
    with snoc assms show ?thesis by (cases us) (auto simp: DL_DELETE_def dl_defs dlist_def)
  next
    case (Cons y zs)
    with snoc assms show ?thesis by (cases us; cases zs rule: rev_cases) (auto simp: DL_DELETE_def dl_defs dlist_def)
  qed
qed

lemma DL_CONCAT_dlist:
  assumes "dlist h head1 xs" "dlist h head2 ys" "set xs \<inter> set ys = {}"
  shows "\<exists>head' h'. DL_CONCAT head1 head2 h = Inr (head', h') \<and> dlist h' head' (xs @ ys) \<and>
    (\<forall>p. p \<notin> set (xs @ ys) \<longrightarrow> h' p = h p)"
  using assms
  by (cases xs rule: list_cases3; cases ys rule: list_cases3) (auto simp: DL_CONCAT_def dl_defs dlist_def Let_def)

lemma DL_FOREACH_dseg:
  "dseg h pv xs None \<Longrightarrow> length xs \<le> fuel \<Longrightarrow>
   DL_FOREACH fuel h body (first_or xs None) s = Some (Inr (foreach body xs s))"
proof (induction xs arbitrary: pv fuel s)
  case (Cons x xs)
  then show ?case by (cases fuel) (auto split: sum.splits)
qed simp
lemma DL_FOREACH_dlist:
  "dlist h head xs \<Longrightarrow> length xs \<le> fuel \<Longrightarrow>
   DL_FOREACH fuel h body head s = Some (Inr (foreach body xs s))"
  using DL_FOREACH_dseg [of h "last xs" xs fuel body s] by (cases "xs = []") (simp_all add: dlist_def)

lemma foreach_search:
  "foreach (\<lambda>p s. if P p then Inl p else Inr s) xs s =
   (case find P xs of Some p \<Rightarrow> Inl p | None \<Rightarrow> Inr s)"
  by (induction xs) auto

lemma foreach_count: "foreach (\<lambda>_ n. Inr (Suc n)) xs n = Inr (n + length xs)"
  by (induction xs arbitrary: n) auto

lemma dlist_dom: "dlist h head xs \<Longrightarrow> p \<in> set xs \<Longrightarrow> p \<in> dom h"
proof -
  have "dseg h pv ys nx \<Longrightarrow> p \<in> set ys \<Longrightarrow> p \<in> dom h" for pv ys nx
    by (induction ys arbitrary: pv) auto
  then show "dlist h head xs \<Longrightarrow> p \<in> set xs \<Longrightarrow> p \<in> dom h"
    by (cases xs) (auto simp: dlist_def)
qed

subsection \<open>The interface: a list the daemon can extend and shrink\<close>

text \<open>
  The contract of a linked list for its clients: a representation relation, appending an
  allocated node that is not in the list, and unlinking a node that is. The laws say which
  list results and that other nodes stay as allocated as they were.
\<close>

locale linked_list =
  fixes repr :: "'h \<Rightarrow> 'p option \<Rightarrow> 'p list \<Rightarrow> bool"
    and alive :: "'h \<Rightarrow> 'p \<Rightarrow> bool"
    and append :: "'p option \<Rightarrow> 'p option \<Rightarrow> 'h \<Rightarrow> ('p option \<times> 'h) res"
    and delete :: "'p option \<Rightarrow> 'p option \<Rightarrow> 'h \<Rightarrow> ('p option \<times> 'h) res"
  assumes repr_append: "repr h q xs \<Longrightarrow> a \<notin> set xs \<Longrightarrow> alive h a \<Longrightarrow>
      \<exists>q' h'. append q (Some a) h = Inr (q', h') \<and> repr h' q' (xs @ [a]) \<and>
        (\<forall>p. alive h' p = alive h p)"
    and repr_delete: "repr h q (xs @ d # ys) \<Longrightarrow>
      \<exists>q' h'. delete q (Some d) h = Inr (q', h') \<and> repr h' q' (xs @ ys) \<and>
        (\<forall>p. alive h' p = alive h p)"
begin

text \<open>Appending node after node, as the code that fills a list does.\<close>

lemma append_each:
  assumes "repr h q xs" "distinct (xs @ as)" "\<forall>a \<in> set as. alive h a"
  shows "\<exists>q' h'. foldl (\<lambda>m a. bind_res m (\<lambda>(q, h). append q (Some a) h)) (Inr (q, h)) as = Inr (q', h')
    \<and> repr h' q' (xs @ as) \<and> (\<forall>p. alive h' p = alive h p)"
  using assms
proof (induction as arbitrary: h q xs)
  case (Cons a as)
  obtain q1 h1 where 1: "append q (Some a) h = Inr (q1, h1)" "repr h1 q1 (xs @ [a])"
      "\<forall>p. alive h1 p = alive h p"
    using repr_append [of h q xs a] Cons.prems by auto
  with Cons.IH [of h1 q1 "xs @ [a]"] Cons.prems show ?case by auto
qed auto

lemma append_delete:
  assumes "repr h q xs" "a \<notin> set xs" "alive h a"
  shows "\<exists>q' h'. bind_res (append q (Some a) h) (\<lambda>(q, h). delete q (Some a) h) = Inr (q', h') \<and>
    repr h' q' xs"
proof -
  obtain q1 h1 where 1: "append q (Some a) h = Inr (q1, h1)" "repr h1 q1 (xs @ [a])"
    using repr_append [OF assms] by auto
  with repr_delete [of h1 q1 xs a "[]"] show ?thesis by auto
qed

end

lemma same_alive:
  assumes "dlist h' head' xs" "\<forall>p. p \<notin> set xs \<longrightarrow> h' p = h p" "\<forall>p \<in> set xs. p \<in> dom h"
  shows "(p \<in> dom h') = (p \<in> dom h)"
  using assms dlist_dom [OF assms(1), of p] by (cases "p \<in> set xs") auto

interpretation dl: linked_list dlist "\<lambda>h p. p \<in> dom h" DL_APPEND DL_DELETE
proof unfold_locales
  fix h q xs a
  assume a: "dlist h q xs" "a \<notin> set xs" "a \<in> dom h"
  obtain q' h' where r: "DL_APPEND q (Some a) h = Inr (q', h')" "dlist h' q' (xs @ [a])"
      "\<forall>p. p \<notin> set (xs @ [a]) \<longrightarrow> h' p = h p"
    using DL_APPEND_dlist [OF a] by auto
  show "\<exists>q' h'. DL_APPEND q (Some a) h = Inr (q', h') \<and> dlist h' q' (xs @ [a]) \<and>
      (\<forall>p. (p \<in> dom h') = (p \<in> dom h))"
    using r same_alive [OF r(2,3)] a dlist_dom [OF a(1)] by auto
next
  fix h q xs d ys
  assume a: "dlist h q (xs @ d # ys)"
  obtain q' h' where r: "DL_DELETE q (Some d) h = Inr (q', h')" "dlist h' q' (xs @ ys)"
      "\<forall>p. p \<notin> set (xs @ ys) \<longrightarrow> h' p = h p"
    using DL_DELETE_dlist [OF a] by auto
  show "\<exists>q' h'. DL_DELETE q (Some d) h = Inr (q', h') \<and> dlist h' q' (xs @ ys) \<and>
      (\<forall>p. (p \<in> dom h') = (p \<in> dom h))"
    using r same_alive [OF r(2,3)] dlist_dom [OF a] by auto
qed

subsection \<open>Properties\<close>

text \<open>
  C20: nodes appended one after the other with \<open>DL_APPEND\<close> to an empty list are the list: a
  \<open>DL_FOREACH\<close> over it ends after as many turns as there are nodes and sees exactly them, in
  the order of appending. This is what lets the other theories treat the lists as lists.
\<close>

theorem append_then_foreach:
  assumes "distinct as" "\<forall>a \<in> set as. a \<in> dom h"
  shows "\<exists>q h'. foldl (\<lambda>m a. bind_res m (\<lambda>(q, h). DL_APPEND q (Some a) h)) (Inr (None, h)) as = Inr (q, h') \<and>
    DL_FOREACH (length as) h' (\<lambda>p acc. Inr (acc @ [p]) :: unit + ptr list) q [] = Some (Inr (Inr as))"
proof -
  obtain q h' where r: "foldl (\<lambda>m a. bind_res m (\<lambda>(q, h). DL_APPEND q (Some a) h)) (Inr (None, h)) as = Inr (q, h')"
      "dlist h' q as"
    using dl.append_each [of h None "[]" as] assms by auto
  have "foreach (\<lambda>p acc. Inr (acc @ [p]) :: unit + ptr list) xs acc = Inr (acc @ xs)" for xs acc
    by (induction xs arbitrary: acc) auto
  then show ?thesis using r(1) by (auto simp: DL_FOREACH_dlist [OF r(2) order_refl])
qed

theorem append_then_foreach_witness:
  "\<exists>q h'. foldl (\<lambda>m a. bind_res m (\<lambda>(q, h). DL_APPEND q (Some a) h))
      (Inr (None, [5 \<mapsto> \<lparr>dl_prev = None, dl_next = None\<rparr>, 9 \<mapsto> \<lparr>dl_prev = None, dl_next = None\<rparr>])) [9, 5] = Inr (q, h') \<and>
    DL_FOREACH 2 h' (\<lambda>p acc. Inr (acc @ [p]) :: unit + ptr list) q [] = Some (Inr (Inr [9, 5]))"
  using append_then_foreach [of "[9, 5]" "[5 \<mapsto> \<lparr>dl_prev = None, dl_next = None\<rparr>, 9 \<mapsto> \<lparr>dl_prev = None, dl_next = None\<rparr>]"]
  by (simp add: numeral_2_eq_2)

text \<open>
  A search loop over a list (\<open>DL_FOREACH\<close> with a \<open>return\<close> in its body) returns the first
  node that satisfies the test and falls through when there is none; it ends within as many
  turns as the list has nodes. Every lookup of the daemon is such a loop.
\<close>

lemma foreach_finds_first:
  assumes "dlist h head xs" "length xs \<le> fuel"
  shows "DL_FOREACH fuel h (\<lambda>p s. if P p then Inl p else Inr s) head s =
    Some (Inr (case find P xs of Some p \<Rightarrow> Inl p | None \<Rightarrow> Inr s))"
  by (simp add: DL_FOREACH_dlist [OF assms] foreach_search)

end
