(* ===== verification/Config_Free.thy ===== *)
theory Config_Free
  imports Utlist Config
begin

section \<open>config.c: config_free on the heap\<close>

text \<open>
  \<open>config_free\<close> depends on what \<open>free\<close> does to the list nodes, so it is modelled on the
  explicit heap of theory \<open>Utlist\<close>: the node of an interface is a part of the interface's
  block, and goes with it.
\<close>

definition free_node :: "ptr \<Rightarrow> dl_heap \<Rightarrow> dl_heap" where
  "free_node p h = h(p := None)"

definition config_free :: "nat \<Rightarrow> ptr option \<Rightarrow> dl_heap \<Rightarrow> (ptr option \<times> dl_heap) res option" where
  "config_free fuel head h =
     DL_FOREACH_SAFE fuel (\<lambda>e (head, h). let h = free_node e h in DL_DELETE head (Some e) h) head (head, h)"

subsection \<open>Lemmas\<close>

lemma DL_DELETE_freed: "head \<noteq> None \<Longrightarrow> DL_DELETE head (Some e) (free_node e h) = Inl Use_after_free"
  by (simp add: DL_DELETE_def free_node_def)

lemma dlist_head: "dlist h head (x # xs) \<Longrightarrow> head = Some x \<and> (\<exists>n. h x = Some n)"
  by (auto simp: dlist_def)

lemma config_free_fault:
  "dlist h head (x # xs) \<Longrightarrow> config_free (Suc fuel) head h = Some (Inl Use_after_free)"
  using dlist_head [of h head x xs] by (auto simp: config_free_def DL_DELETE_freed)

subsection \<open>Properties\<close>

text \<open>
  C39: \<open>config_free\<close> frees an interface before it unlinks it, so that it reads freed memory as
  soon as there is one interface, however long the list; only for the empty list does it
  return.
\<close>

theorem config_free_reads_freed:
  assumes "dlist h head xs" "0 < fuel"
  shows "config_free fuel head h = (if xs = [] then Some (Inr (None, h)) else Some (Inl Use_after_free))"
  using assms config_free_fault by (cases xs; cases fuel) (auto simp: config_free_def)

theorem config_free_reads_freed_witness:
  "config_free 5 (Some 4) [4 \<mapsto> \<lparr>dl_prev = Some 4, dl_next = None\<rparr>] = Some (Inl Use_after_free)"
  using config_free_reads_freed [of "[4 \<mapsto> \<lparr>dl_prev = Some 4, dl_next = None\<rparr>]" "Some 4" "[4]" 5]
  by (simp add: dlist_def)

end
