(* ===== verification/Socket.thy ===== *)
theory Socket
  imports Recv
begin

section \<open>socket.c: the raw ICMPv6 socket\<close>

text \<open>
  Opening the socket is a sequence of system calls that each may fail; the first failure
  closes the socket and is reported. The ICMPv6 filter that \<open>open_icmpv6_socket\<close> builds in a
  local variable at its end is never handed to the kernel, so it has no place in the model.
\<close>

definition IPPROTO_RAW :: int where "IPPROTO_RAW = 255"
definition IPV6_CHECKSUM :: int where "IPV6_CHECKSUM = 7"
definition IPV6_UNICAST_HOPS :: int where "IPV6_UNICAST_HOPS = 16"
definition IPV6_MULTICAST_HOPS :: int where "IPV6_MULTICAST_HOPS = 18"
definition IPV6_MULTICAST_LOOP :: int where "IPV6_MULTICAST_LOOP = 19"
definition IPV6_ADD_MEMBERSHIP :: int where "IPV6_ADD_MEMBERSHIP = 20"
definition IPV6_DROP_MEMBERSHIP :: int where "IPV6_DROP_MEMBERSHIP = 21"
definition IPV6_RECVPKTINFO :: int where "IPV6_RECVPKTINFO = 49"
definition IPV6_RECVHOPLIMIT :: int where "IPV6_RECVHOPLIMIT = 51"

definition setsockopt :: "env \<Rightarrow> event \<Rightarrow> world \<Rightarrow> int \<times> world" where
  "setsockopt E call w = (let w = emit call w in (setsockopt_rc E (w_trace w), w))"

fun rpl_multicast_handler :: "env \<Rightarrow> iface list \<Rightarrow> int \<Rightarrow> world \<Rightarrow> int \<times> world" where
  "rpl_multicast_handler E [] optname w = (0, w)"
| "rpl_multicast_handler E (i # is) optname w =
     (let (rc, w) = setsockopt E (Multicast optname (ifindex i) all_rpl_addr) w in
      if rc < 0 then (-1, w) else rpl_multicast_handler E is optname w)"

definition subscribe_rpl_multicast :: "env \<Rightarrow> iface list \<Rightarrow> world \<Rightarrow> int \<times> world" where
  "subscribe_rpl_multicast E is w = rpl_multicast_handler E is IPV6_ADD_MEMBERSHIP w"

definition unsubscribe_rpl_multicast :: "env \<Rightarrow> iface list \<Rightarrow> world \<Rightarrow> world" where
  "unsubscribe_rpl_multicast E is w = snd (rpl_multicast_handler E is IPV6_DROP_MEMBERSHIP w)"

text \<open>The options in the order in which they are set; each failure is handled alike.\<close>

definition icmpv6_options :: "event list" where
  "icmpv6_options =
     [Setsockopt IPPROTO_IPV6 IPV6_RECVPKTINFO 1,
      Setsockopt IPPROTO_RAW IPV6_CHECKSUM 2,
      Setsockopt IPPROTO_IPV6 IPV6_UNICAST_HOPS 255,
      Setsockopt IPPROTO_IPV6 IPV6_MULTICAST_HOPS 1,
      Setsockopt IPPROTO_IPV6 IPV6_MULTICAST_LOOP 0,
      Setsockopt IPPROTO_IPV6 IPV6_RECVHOPLIMIT 1]"

fun set_options :: "env \<Rightarrow> event list \<Rightarrow> world \<Rightarrow> int \<times> world" where
  "set_options E [] w = (0, w)"
| "set_options E (c # cs) w =
     (let (err, w) = setsockopt E c w in if err < 0 then (err, w) else set_options E cs w)"

definition open_icmpv6_socket :: "env \<Rightarrow> iface list \<Rightarrow> world \<Rightarrow> int \<times> world" where
  "open_icmpv6_socket E is w =
     (let w = emit Open_socket w; sock = socket_rc E (w_trace w) in
      if sock < 0 then (-1, w)
      else let (err, w) = set_options E icmpv6_options w in
        if err < 0 then (-1, emit Close_socket w)
        else let (err, w) = subscribe_rpl_multicast E is w in
          if err < 0 then (-1, emit Close_socket w)
          else (sock, w))"

definition close_icmpv6_socket :: "env \<Rightarrow> iface list \<Rightarrow> world \<Rightarrow> world" where
  "close_icmpv6_socket E is w = emit Close_socket (unsubscribe_rpl_multicast E is w)"

text \<open>The request that joins or leaves the group of the protocol on an interface.\<close>

definition membership :: "int \<Rightarrow> iface \<Rightarrow> event" where
  "membership optname i = Multicast optname (ifindex i) all_rpl_addr"

text \<open>All calls between the creation of the socket and its use.\<close>

definition open_calls :: "iface list \<Rightarrow> event list" where
  "open_calls is = icmpv6_options @ map (membership IPV6_ADD_MEMBERSHIP) is"

text \<open>A sequence of calls that stops at the first failure: all of it was made, or a part that ends in a failed call.\<close>

definition calls_made :: "event list \<Rightarrow> int \<times> world \<Rightarrow> world \<Rightarrow> bool" where
  "calls_made cs r w \<longleftrightarrow> (fst r = 0 \<and> w_trace (snd r) = w_trace w @ cs) \<or>
     (fst r < 0 \<and> (\<exists>n < length cs. w_trace (snd r) = w_trace w @ take (Suc n) cs))"

subsection \<open>Lemmas\<close>

lemma calls_made_Cons:
  assumes "w_trace w1 = w_trace w @ [c]" "calls_made cs r w1"
  shows "calls_made (c # cs) r w"
  using assms by (auto simp: calls_made_def intro: exI [of _ "Suc _"])

lemma set_options_calls: "calls_made cs (set_options E cs w) w"
proof (induction cs arbitrary: w)
  case (Cons c cs)
  then show ?case
    using calls_made_Cons [OF _ Cons.IH, of "emit c w" w c]
    by (auto simp: setsockopt_def Let_def) (auto simp: calls_made_def)
qed (simp add: calls_made_def)

lemma multicast_calls:
  "calls_made (map (membership opt) is) (rpl_multicast_handler E is opt w) w"
proof (induction "is" arbitrary: w)
  case (Cons i "is")
  then show ?case
    using calls_made_Cons [OF _ Cons.IH, of "emit (membership opt i) w" w "membership opt i"]
    by (auto simp: setsockopt_def membership_def Let_def) (auto simp: calls_made_def)
qed (simp add: calls_made_def)

lemma multicast_ok:
  "\<forall>t. setsockopt_rc E t = 0 \<Longrightarrow>
   fst (rpl_multicast_handler E is opt w) = 0 \<and>
   w_trace (snd (rpl_multicast_handler E is opt w)) = w_trace w @ map (membership opt) is"
  by (induction "is" arbitrary: w) (auto simp: setsockopt_def membership_def Let_def)

lemma calls_made_append:
  assumes "calls_made as r w" "fst r = 0" "calls_made bs s (snd r)"
  shows "calls_made (as @ bs) s w"
proof -
  from assms(1,2) have t: "w_trace (snd r) = w_trace w @ as" by (auto simp: calls_made_def)
  from assms(3) show ?thesis unfolding calls_made_def
  proof (elim disjE conjE exE)
    fix n assume n: "fst s < 0" "n < length bs" "w_trace (snd s) = w_trace (snd r) @ take (Suc n) bs"
    then have "length as + n < length (as @ bs) \<and> w_trace (snd s) = w_trace w @ take (Suc (length as + n)) (as @ bs)"
      by (simp add: t)
    with n(1) show "fst s = 0 \<and> w_trace (snd s) = w_trace w @ as @ bs \<or>
        fst s < 0 \<and> (\<exists>n<length (as @ bs). w_trace (snd s) = w_trace w @ take (Suc n) (as @ bs))" by blast
  qed (simp add: t)
qed

lemma open_socket_success:
  assumes "open_icmpv6_socket E is w = (sock, w')" "0 \<le> sock"
  shows "w_trace w' = w_trace w @ Open_socket # open_calls is"
proof -
  let ?w = "emit Open_socket w"
  obtain e1 w1 where o: "set_options E icmpv6_options ?w = (e1, w1)" by fastforce
  obtain e2 where m: "rpl_multicast_handler E is IPV6_ADD_MEMBERSHIP w1 = (e2, w')" "0 \<le> e1" "0 \<le> e2"
    using assms o by (auto simp: open_icmpv6_socket_def subscribe_rpl_multicast_def Let_def split: if_splits prod.splits)
  have "calls_made icmpv6_options (e1, w1) ?w" using set_options_calls o by metis
  moreover have "calls_made (map (membership IPV6_ADD_MEMBERSHIP) is) (e2, w') w1" using multicast_calls m(1) by metis
  ultimately show ?thesis using m(2,3) by (auto simp: calls_made_def open_calls_def)
qed

subsection \<open>Properties\<close>

text \<open>
  C36: \<open>open_icmpv6_socket\<close> on every path. It returns the socket after setting all six options
  and joining the group of the protocol on every interface, in order, with the socket left
  open; or it returns -1, and then either there never was a socket, or the calls stopped at
  the first that failed and the socket was closed, once, as the last action.
\<close>

theorem open_icmpv6_socket_paths:
  "let (rc, w') = open_icmpv6_socket E is w; sock = socket_rc E (w_trace w @ [Open_socket]) in
   (rc = sock \<and> 0 \<le> sock \<and> w_trace w' = w_trace w @ Open_socket # open_calls is) \<or>
   (rc = -1 \<and> sock < 0 \<and> w_trace w' = w_trace w @ [Open_socket]) \<or>
   (rc = -1 \<and> 0 \<le> sock \<and>
     (\<exists>n < length (open_calls is). w_trace w' = w_trace w @ Open_socket # take (Suc n) (open_calls is) @ [Close_socket]))"
proof -
  let ?w = "emit Open_socket w"
  obtain e1 w1 where o: "set_options E icmpv6_options ?w = (e1, w1)" by fastforce
  obtain e2 w2 where m: "rpl_multicast_handler E is IPV6_ADD_MEMBERSHIP w1 = (e2, w2)" by fastforce
  have c1: "calls_made icmpv6_options (e1, w1) ?w" using set_options_calls o by metis
  have c2: "calls_made (map (membership IPV6_ADD_MEMBERSHIP) is) (e2, w2) w1" using multicast_calls m by metis
  have c3: "calls_made (open_calls is) (e2, w2) ?w" if "e1 = 0"
    using calls_made_append [OF c1 _ ] c2 that by (simp add: open_calls_def)
  have fail: "\<exists>n < length (open_calls is). w_trace w1 = w_trace w @ Open_socket # take (Suc n) (open_calls is)" if "e1 < 0"
  proof -
    from c1 that obtain n where "n < length icmpv6_options" "w_trace w1 = w_trace ?w @ take (Suc n) icmpv6_options"
      by (auto simp: calls_made_def)
    then show ?thesis by (intro exI [of _ n]) (auto simp: open_calls_def)
  qed
  have "e1 = 0 \<or> e1 < 0" "e1 = 0 \<Longrightarrow> e2 = 0 \<or> e2 < 0" using c1 c3 by (auto simp: calls_made_def)
  then show ?thesis using c3 fail
    by (auto simp: open_icmpv6_socket_def subscribe_rpl_multicast_def o m Let_def calls_made_def)
qed

end
