(* ===== verification/Log.thy ===== *)
theory Log
  imports Rpld_Prelude
begin

section \<open>log.c: where messages go\<close>

text \<open>
  The static variables of \<open>log.c\<close> as a record, with the calls it makes of the C library and
  of syslog as a sequence of outputs. The log file is tracked through its life, since a
  message to a file that was closed, or never opened, is a fault. A message is what
  \<open>vsnprintf\<close> makes of the format and its arguments; the time stamp and the result of
  \<open>fopen\<close> are arguments, and the process id, which every line carries, is left out.
\<close>

definition L_NONE :: int where "L_NONE = 0"
definition L_SYSLOG :: int where "L_SYSLOG = 1"
definition L_STDERR :: int where "L_STDERR = 2"
definition L_STDERR_SYSLOG :: int where "L_STDERR_SYSLOG = 3"
definition L_LOGFILE :: int where "L_LOGFILE = 4"
definition L_STDERR_CLEAN :: int where "L_STDERR_CLEAN = 5"
definition L_UNSPEC :: int where "L_UNSPEC = 6"
definition LOG_DAEMON :: int where "LOG_DAEMON = 24"

lemmas log_methods = L_NONE_def L_SYSLOG_def L_STDERR_def L_STDERR_SYSLOG_def L_LOGFILE_def L_STDERR_CLEAN_def L_UNSPEC_def

datatype file_ptr = Null_file | Open_file string | Closed_file

text \<open>A line as it is printed: with a stamp and the identity in front, bare, or a complaint of the log itself.\<close>

datatype log_line = Stamped string string string | Bare string | Unknown_method string int
  | No_logfile string | Cannot_open string string

datatype log_call =
    Openlog string int
  | Syslog int string
  | Closelog
  | To_stderr log_line
  | To_file string log_line
  | Fopen string
  | Fclose string

record log_state =
  log_method :: int
  log_ident :: string
  log_file :: "string option"
  log_file_fd :: file_ptr
  log_facility :: int
  debug_level :: int
  log_calls :: "log_call list"

definition log0 :: log_state where
  "log0 = \<lparr>log_method = L_NONE, log_ident = [], log_file = None, log_file_fd = Null_file, log_facility = 0,
     debug_level = 0, log_calls = []\<rparr>"

definition out :: "log_call \<Rightarrow> log_state \<Rightarrow> log_state" where
  "out c l = l\<lparr>log_calls := log_calls l @ [c]\<rparr>"

text \<open>The result is the return value and the state.\<close>

definition log_open :: "(string \<Rightarrow> bool) \<Rightarrow> int \<Rightarrow> string \<Rightarrow> string option \<Rightarrow> int \<Rightarrow> log_state \<Rightarrow> int \<times> log_state" where
  "log_open fopen_ok method ident log facility l =
     (let l = l\<lparr>log_method := method, log_ident := ident\<rparr> in
      if method \<in> {L_NONE, L_UNSPEC, L_STDERR} then (0, l)
      else if method \<in> {L_STDERR_CLEAN, L_STDERR_SYSLOG, L_SYSLOG} then
        let l = l\<lparr>log_facility := if facility = -1 then LOG_DAEMON else facility\<rparr>
        in (0, out (Openlog ident (log_facility l)) l)
      else if method = L_LOGFILE then
        (case log of
           None \<Rightarrow> (-1, out (To_stderr (No_logfile ident)) l)
         | Some path \<Rightarrow>
             let l = out (Fopen path) (l\<lparr>log_file := Some path\<rparr>) in
             if fopen_ok path then (0, l\<lparr>log_file_fd := Open_file path\<rparr>)
             else (-1, out (To_stderr (Cannot_open ident path)) (l\<lparr>log_file_fd := Null_file\<rparr>)))
      else (-1, (out (To_stderr (Unknown_method ident method)) l)\<lparr>log_method := L_NONE\<rparr>))"

text \<open>\<open>fprintf\<close> and \<open>fflush\<close> on the log file.\<close>

definition file_print :: "log_line \<Rightarrow> log_state \<Rightarrow> log_state res" where
  "file_print line l =
     (case log_file_fd l of
        Null_file \<Rightarrow> Inl Null_deref
      | Closed_file \<Rightarrow> Inl Use_after_free
      | Open_file path \<Rightarrow> Inr (out (To_file path line) l))"

text \<open>
  \<open>buff\<close> has 1024 bytes with the terminator. \<open>L_STDERR_SYSLOG\<close> falls through to
  \<open>L_STDERR\<close> unless the priority is above the debug level.
\<close>

definition vlog :: "string \<Rightarrow> int \<Rightarrow> string \<Rightarrow> log_state \<Rightarrow> (int \<times> log_state) res" where
  "vlog tstamp prio msg l =
     (let buff = take 1023 msg; m = log_method l; stamped = Stamped tstamp (log_ident l) buff in
      if m \<in> {L_NONE, L_UNSPEC} then Inr (0, l)
      else if m = L_SYSLOG then Inr (0, out (Syslog prio buff) l)
      else if m = L_STDERR_SYSLOG then
        (let l = out (Syslog prio buff) l in
         if debug_level l < prio then Inr (0, l) else Inr (0, out (To_stderr stamped) l))
      else if m = L_STDERR then Inr (0, out (To_stderr stamped) l)
      else if m = L_STDERR_CLEAN then Inr (0, out (To_stderr (Bare buff)) l)
      else if m = L_LOGFILE then bind_res (file_print stamped l) (\<lambda>l. Inr (0, l))
      else Inr (-1, (out (To_stderr (Unknown_method (log_ident l) m)) l)\<lparr>log_method := L_NONE\<rparr>))"

definition dlog :: "string \<Rightarrow> int \<Rightarrow> int \<Rightarrow> string \<Rightarrow> log_state \<Rightarrow> log_state res" where
  "dlog tstamp prio level msg l =
     (if debug_level l < level then Inr l else bind_res (vlog tstamp prio msg l) (\<lambda>(_, l). Inr l))"

definition flog :: "string \<Rightarrow> int \<Rightarrow> string \<Rightarrow> log_state \<Rightarrow> log_state res" where
  "flog tstamp prio msg l = bind_res (vlog tstamp prio msg l) (\<lambda>(_, l). Inr l)"

text \<open>\<open>fclose\<close> of the log file.\<close>

definition file_close :: "log_state \<Rightarrow> log_state res" where
  "file_close l =
     (case log_file_fd l of
        Null_file \<Rightarrow> Inl Null_deref
      | Closed_file \<Rightarrow> Inl Use_after_free
      | Open_file path \<Rightarrow> Inr (out (Fclose path) (l\<lparr>log_file_fd := Closed_file\<rparr>)))"

definition log_close :: "log_state \<Rightarrow> (int \<times> log_state) res" where
  "log_close l =
     (let m = log_method l in
      if m \<in> {L_NONE, L_UNSPEC, L_STDERR} then Inr (0, l)
      else if m \<in> {L_STDERR_SYSLOG, L_SYSLOG} then Inr (0, out Closelog l)
      else if m = L_LOGFILE then bind_res (file_close l) (\<lambda>l. Inr (0, l))
      else Inr (-1, (out (To_stderr (Unknown_method (log_ident l) m)) l)\<lparr>log_method := L_NONE\<rparr>))"

definition set_debuglevel :: "int \<Rightarrow> log_state \<Rightarrow> log_state" where
  "set_debuglevel level l = l\<lparr>debug_level := level\<rparr>"

definition get_debuglevel :: "log_state \<Rightarrow> int" where
  "get_debuglevel l = debug_level l"

text \<open>
  A log that can take messages: the method is known and a log file in use is open. The
  channels on which a message of a priority appears, and what appears there.
\<close>

definition log_ok :: "log_state \<Rightarrow> bool" where
  "log_ok l \<longleftrightarrow> 0 \<le> log_method l \<and> log_method l \<le> 6 \<and>
     (log_method l = L_LOGFILE \<longrightarrow> (\<exists>p. log_file_fd l = Open_file p))"

definition delivered :: "string \<Rightarrow> int \<Rightarrow> string \<Rightarrow> log_state \<Rightarrow> log_call list" where
  "delivered tstamp prio msg l =
     (if log_method l \<in> {L_SYSLOG, L_STDERR_SYSLOG} then [Syslog prio (take 1023 msg)] else []) @
     (if log_method l = L_STDERR \<or> log_method l = L_STDERR_SYSLOG \<and> prio \<le> debug_level l
      then [To_stderr (Stamped tstamp (log_ident l) (take 1023 msg))] else []) @
     (if log_method l = L_STDERR_CLEAN then [To_stderr (Bare (take 1023 msg))] else []) @
     (case log_file_fd l of
        Open_file p \<Rightarrow> if log_method l = L_LOGFILE then [To_file p (Stamped tstamp (log_ident l) (take 1023 msg))] else []
      | _ \<Rightarrow> [])"

subsection \<open>Lemmas\<close>

lemma out_simps [simp]:
  "log_method (out c l) = log_method l" "log_file_fd (out c l) = log_file_fd l" "log_ident (out c l) = log_ident l"
  "debug_level (out c l) = debug_level l" "log_calls (out c l) = log_calls l @ [c]"
  by (simp_all add: out_def)

lemma log_method_cases:
  assumes "log_ok l"
  obtains "log_method l \<in> {L_NONE, L_UNSPEC}" | "log_method l = L_SYSLOG" | "log_method l = L_STDERR_SYSLOG"
    | "log_method l = L_STDERR" | "log_method l = L_STDERR_CLEAN" | p where "log_method l = L_LOGFILE" "log_file_fd l = Open_file p"
proof -
  have "log_method l \<in> {0, 1, 2, 3, 4, 5, 6}" using assms by (auto simp: log_ok_def)
  then show ?thesis using that assms by (auto simp: log_methods log_ok_def)
qed

lemma vlog_ok:
  assumes "log_ok l"
  shows "vlog tstamp prio msg l = Inr (0, l\<lparr>log_calls := log_calls l @ delivered tstamp prio msg l\<rparr>)"
  using assms
proof (cases rule: log_method_cases)
  case (6 p)
  then show ?thesis by (simp add: vlog_def delivered_def file_print_def Let_def out_def log_methods)
qed (auto simp: vlog_def delivered_def Let_def out_def log_methods split: file_ptr.splits)

lemma log_ok_calls [simp]: "log_ok (l\<lparr>log_calls := cs\<rparr>) = log_ok l"
  by (simp add: log_ok_def)

lemma flog_ok:
  "log_ok l \<Longrightarrow> flog tstamp prio msg l = Inr (l\<lparr>log_calls := log_calls l @ delivered tstamp prio msg l\<rparr>)"
  by (simp add: flog_def vlog_ok)

lemma log_open_ok:
  assumes "log_open fo method ident log fac l = (0, l')"
  shows "log_ok l' \<and> log_method l' = method \<and> log_ident l' = ident \<and> debug_level l' = debug_level l"
  using assms by (auto simp: log_open_def log_ok_def log_methods out_def Let_def split: if_splits option.splits)

subsection \<open>Properties\<close>

text \<open>
  C38: from a successful \<open>log_open\<close> on, until \<open>log_close\<close>, every message is delivered: \<open>flog\<close>
  returns, writes the message (cut to 1023 characters) to exactly the channels of the
  chosen method and leaves the log in use; \<open>dlog\<close> does the same for a level up to the debug
  level and nothing above it.
\<close>

theorem messages_delivered:
  assumes "log_open fopen_ok method ident log facility l0 = (0, l1)"
    "foldl (\<lambda>r (s, prio, msg). bind_res r (flog s prio msg)) (Inr l1) msgs = Inr l"
  shows "flog tstamp prio msg l = Inr (l\<lparr>log_calls := log_calls l @ delivered tstamp prio msg l\<rparr>) \<and>
    dlog tstamp prio level msg l =
      (if level \<le> debug_level l0 then flog tstamp prio msg l else Inr l) \<and>
    log_method l = method"
proof -
  have "\<exists>l'. foldl (\<lambda>r (s, prio, msg). bind_res r (flog s prio msg)) (Inr l) ms = Inr l' \<and>
      log_ok l' \<and> log_method l' = log_method l \<and> debug_level l' = debug_level l" if "log_ok l" for ms l
    using that
  proof (induction ms arbitrary: l)
    case (Cons m ms)
    obtain s p x where m: "m = (s, p, x)" by (cases m)
    show ?case using Cons.IH [of "l\<lparr>log_calls := log_calls l @ delivered s p x l\<rparr>"] Cons.prems by (simp add: m flog_ok)
  qed simp
  from this [of l1 msgs] log_open_ok [OF assms(1)] assms(2)
  have "log_ok l" "log_method l = method" "debug_level l = debug_level l0" by auto
  then show ?thesis by (simp add: flog_ok dlog_def flog_def vlog_ok)
qed

theorem messages_delivered_witness:
  "let (rc, l1) = log_open (\<lambda>_. True) L_LOGFILE ''rpld'' (Some ''/var/log/rpld.log'') 24 log0 in
     rc = 0 \<and> flog ''Jan 01'' 6 ''hello'' l1 =
       Inr (l1\<lparr>log_calls := [Fopen ''/var/log/rpld.log'', To_file ''/var/log/rpld.log'' (Stamped ''Jan 01'' ''rpld'' ''hello'')]\<rparr>) \<and>
     dlog ''Jan 01'' 6 4 ''details'' l1 = Inr l1"
proof -
  obtain l1 where l1: "log_open (\<lambda>_. True) L_LOGFILE ''rpld'' (Some ''/var/log/rpld.log'') 24 log0 = (0, l1)"
      "log_calls l1 = [Fopen ''/var/log/rpld.log'']" "log_file_fd l1 = Open_file ''/var/log/rpld.log''"
      "log_ident l1 = ''rpld''"
    by (simp add: log_open_def log_methods out_def log0_def Let_def)
  from messages_delivered [OF l1(1), of "[]" l1 "''Jan 01''" 6 "''hello''"]
    messages_delivered [OF l1(1), of "[]" l1 "''Jan 01''" 6 "''details''" 4] l1
  show ?thesis by (simp add: delivered_def log_methods log0_def)
qed

text \<open>
  The life of the log ends badly in two cases. After \<open>log_close\<close> of a log file the file
  stays the method in use, and the next message is written to the closed file; and
  \<open>log_close\<close> does not know the method \<open>L_STDERR_CLEAN\<close>, complains and returns -1.
\<close>

lemma log_close_faults:
  "log_ok l \<Longrightarrow>
   (log_method l = L_LOGFILE \<longrightarrow>
     (\<exists>l'. log_close l = Inr (0, l') \<and> flog tstamp prio msg l' = Inl Use_after_free)) \<and>
   (log_method l = L_STDERR_CLEAN \<longrightarrow>
     (\<exists>l'. log_close l = Inr (-1, l') \<and> last (log_calls l') = To_stderr (Unknown_method (log_ident l) 5) \<and>
        log_method l' = L_NONE)) \<and>
   (log_method l \<notin> {L_LOGFILE, L_STDERR_CLEAN} \<longrightarrow>
     (\<exists>l'. log_close l = Inr (0, l') \<and> log_ok l' \<and> log_method l' = log_method l))"
proof -
  assume ok: "log_ok l"
  then show ?thesis
  proof (cases rule: log_method_cases)
    case (6 p)
    then show ?thesis
      by (simp add: log_close_def file_close_def flog_def vlog_def file_print_def log_methods Let_def)
  qed (use ok in \<open>auto simp: log_close_def log_methods Let_def log_ok_def\<close>)
qed

end
