(* ===== verification/Rpld_Main.thy ===== *)
theory Rpld_Main
  imports Config_Load Config_Free Socket Log
begin

section \<open>rpld.c: main, from the command line to the end\<close>

text \<open>
  \<open>main\<close> in three parts: the options, the start-up until \<open>ev_run\<close>, and the shut-down after it.
  The loop in between is the step relation of theory \<open>Daemon\<close>, and the SIGINT watcher only
  ends it. \<open>getopt\<close> is the one of the C library for the option string of the source, with
  its permutation of the arguments, so that options behind other arguments are found too.
  An end of the program by \<open>exit\<close> or \<open>return\<close> of \<open>main\<close> is its status.
\<close>

subsection \<open>The command line\<close>

definition takes_arg :: "char \<Rightarrow> bool" where
  "takes_arg c \<longleftrightarrow> c \<in> set ''Cmfld''"

function (sequential) getopt :: "string list \<Rightarrow> (char \<times> string) list"
  and getopt_cluster :: "string \<Rightarrow> string list \<Rightarrow> (char \<times> string) list" where
  "getopt [] = []"
| "getopt (a # as) =
     (if a = ''--'' then [] else if length a > 1 \<and> hd a = CHR ''-'' then getopt_cluster (tl a) as else getopt as)"
| "getopt_cluster [] as = getopt as"
| "getopt_cluster (c # cs) as =
     (if takes_arg c then
        (if cs \<noteq> [] then (c, cs) # getopt as
         else case as of [] \<Rightarrow> [(CHR ''?'', [])] | b # bs \<Rightarrow> (c, b) # getopt bs)
      else if c = CHR ''h'' then (c, []) # getopt_cluster cs as
      else (CHR ''?'', []) # getopt_cluster cs as)"
  by pat_completeness auto

termination
  by (relation "measure (\<lambda>x. case x of Inl as \<Rightarrow> sum_list (map (\<lambda>s. Suc (length s)) as)
      | Inr (cs, as) \<Rightarrow> length cs + sum_list (map (\<lambda>s. Suc (length s)) as) + 1)") auto

text \<open>\<open>atoi\<close>; a number that does not fit into an \<open>int\<close> is undefined behaviour.\<close>

definition atoi :: "string \<Rightarrow> int res" where
  "atoi s =
     (let s = dropWhile is_space s;
          neg = (s \<noteq> [] \<and> hd s = CHR ''-'');
          s = (if s \<noteq> [] \<and> (hd s = CHR ''-'' \<or> hd s = CHR ''+'') then tl s else s);
          n = int (digits_value (takeWhile is_digit s)); v = (if neg then - n else n)
      in if - (2 ^ 31) \<le> v \<and> v < 2 ^ 31 then Inr v else Inl Undefined_conversion)"

record options =
  conf_path :: string
  opt_method :: int
  facility :: int
  logfile :: string

definition default_options :: options where
  "default_options = \<lparr>conf_path = ''/etc/rpld.conf'', opt_method = L_UNSPEC, facility = LOG_DAEMON, logfile = ''/var/log/rpld.log''\<rparr>"

definition log_method_of :: "string \<Rightarrow> int option" where
  "log_method_of s =
     (if s = ''syslog'' then Some L_SYSLOG
      else if s = ''stderr_syslog'' then Some L_STDERR_SYSLOG
      else if s = ''stderr'' then Some L_STDERR
      else if s = ''stderr_clean'' then Some L_STDERR_CLEAN
      else if s = ''logfile'' then Some L_LOGFILE
      else if s = ''none'' then Some L_NONE
      else None)"

text \<open>\<open>Inl n\<close> is \<open>exit(n)\<close>.\<close>

fun option_loop :: "(char \<times> string) list \<Rightarrow> options \<Rightarrow> log_state \<Rightarrow> (int + options \<times> log_state) res" where
  "option_loop [] o1 l = Inr (Inr (o1, l))"
| "option_loop ((c, arg) # os) o1 l =
     (if c = CHR ''C'' then option_loop os (o1\<lparr>conf_path := arg\<rparr>) l
      else if c = CHR ''m'' then
        (case log_method_of arg of None \<Rightarrow> Inr (Inl 1) | Some m \<Rightarrow> option_loop os (o1\<lparr>opt_method := m\<rparr>) l)
      else if c = CHR ''f'' then bind_res (atoi arg) (\<lambda>n. option_loop os (o1\<lparr>facility := n\<rparr>) l)
      else if c = CHR ''l'' then option_loop os (o1\<lparr>logfile := arg\<rparr>) l
      else if c = CHR ''d'' then bind_res (atoi arg) (\<lambda>n. option_loop os o1 (set_debuglevel n l))
      else if c = CHR ''h'' then Inr (Inl 0)
      else Inr (Inl 1))"

subsection \<open>The list of interfaces on the heap\<close>

text \<open>The list head \<open>ifaces\<close> with the nodes of \<open>n\<close> interfaces, as the loop of \<open>config_load\<close> appends them.\<close>

definition ifaces_list :: "nat \<Rightarrow> (ptr option \<times> dl_heap) res" where
  "ifaces_list n =
     foldl (\<lambda>m a. bind_res m (\<lambda>(q, h). DL_APPEND q (Some a) h))
       (Inr (None, \<lambda>a. if a < n then Some \<lparr>dl_prev = None, dl_next = None\<rparr> else None)) [0..<n]"

definition free_ifaces :: "iface list \<Rightarrow> unit res" where
  "free_ifaces is =
     bind_res (ifaces_list (length is)) (\<lambda>(head, h).
     bind_res (the (config_free (length is) head h)) (\<lambda>_. Inr ()))"

subsection \<open>Start and end\<close>

definition LOG_ERR :: int where "LOG_ERR = 3"
definition LOG_INFO :: int where "LOG_INFO = 6"

record running =
  r_sock :: int
  r_ifaces :: "iface list"
  r_world :: world
  r_log :: log_state

text \<open>
  \<open>Inl (n, w)\<close> is an end with status \<open>n\<close>; \<open>now\<close> is the time stamp of the log. From the
  last part to the first: the socket, the network, the options and the log.
\<close>

definition start_socket :: "env \<Rightarrow> string \<Rightarrow> iface list \<Rightarrow> log_state \<Rightarrow> world \<Rightarrow> ((int \<times> world) + running) res" where
  "start_socket E now is l w =
     (let (rc, w) = set_var E PROC_SYS_IP6_MAX_HBH_OPTS_NUM 99 w in
      if rc = -1 then
        bind_res (flog now LOG_ERR ''Failed to set hbh max value'' l) (\<lambda>l. Inr (Inl (-1, w)))
      else
      let (sock, w) = open_icmpv6_socket E is w in
      if sock < 0 then
        let w = netlink_close w in bind_res (free_ifaces is) (\<lambda>_. Inr (Inl (1, w)))
      else Inr (Inr \<lparr>r_sock = sock, r_ifaces = is, r_world = w, r_log = l\<rparr>))"

definition start_network :: "env \<Rightarrow> sys_api \<Rightarrow> 'v lua_api \<Rightarrow> string \<Rightarrow> options \<Rightarrow> log_state \<Rightarrow> world
    \<Rightarrow> ((int \<times> world) + running) res" where
  "start_network E S L now opt l w =
     (let (rc, w) = netlink_open E w in
      if rc = -1 then Inr (Inl (1, w)) else
      bind_res (config_load E S L (conf_path opt) [] w) (\<lambda>(rc, is, w).
      if rc < 0 then
        let w = netlink_close w in
        bind_res (flog now LOG_ERR (''Failed to parse config: '' @ conf_path opt) l) (\<lambda>l. Inr (Inl (1, w)))
      else
      bind_res (rpld_setup E is w) (\<lambda>(rc, w).
      if rc \<noteq> 0 then
        let w = netlink_close w in bind_res (free_ifaces is) (\<lambda>_. Inr (Inl (1, w)))
      else start_socket E now is l w)))"

definition start_up :: "env \<Rightarrow> sys_api \<Rightarrow> 'v lua_api \<Rightarrow> (string \<Rightarrow> bool) \<Rightarrow> string \<Rightarrow> string \<Rightarrow> string list \<Rightarrow> world
    \<Rightarrow> ((int \<times> world) + running) res" where
  "start_up E S L fopen_ok now pname args w =
     bind_res (option_loop (getopt args) default_options log0) (\<lambda>opts.
     case opts of Inl n \<Rightarrow> Inr (Inl (n, w)) | Inr (opt, l) \<Rightarrow>
     let w = init_random_gen E w;
         method = (if opt_method opt = L_UNSPEC then L_STDERR else opt_method opt);
         (rc, l) = log_open fopen_ok method pname (Some (logfile opt)) (facility opt) l in
     if rc < 0 then Inr (Inl (1, w)) else
     bind_res (flog now LOG_INFO ''version 0.0.1 started'' l) (\<lambda>l. start_network E S L now opt l w))"

definition shut_down :: "env \<Rightarrow> string \<Rightarrow> iface list \<Rightarrow> log_state \<Rightarrow> world \<Rightarrow> (int \<times> log_state \<times> world) res" where
  "shut_down E now is l w =
     (let w = netlink_close w; w = close_icmpv6_socket E is w in
      bind_res (free_ifaces is) (\<lambda>_.
      bind_res (log_close l) (\<lambda>(_, l).
      bind_res (flog now LOG_INFO ''exited'' l) (\<lambda>l. Inr (0, l, w)))))"

text \<open>
  The program as a whole: how it can end, after which events. \<open>sigint_cb\<close> ends the loop
  between two events, whenever SIGINT arrives; the shut-down follows.
\<close>

datatype outcome = Status int | Crashed fault

inductive rpld_main :: "env \<Rightarrow> sys_api \<Rightarrow> 'v lua_api \<Rightarrow> (string \<Rightarrow> bool) \<Rightarrow> string \<Rightarrow> string \<Rightarrow> string list \<Rightarrow> world
    \<Rightarrow> wakeup list \<Rightarrow> outcome \<Rightarrow> bool" for E S L fopen_ok now pname args w where
  Start_crash: "start_up E S L fopen_ok now pname args w = Inl f \<Longrightarrow> rpld_main E S L fopen_ok now pname args w [] (Crashed f)"
| Start_ends: "start_up E S L fopen_ok now pname args w = Inr (Inl (n, w')) \<Longrightarrow>
    rpld_main E S L fopen_ok now pname args w [] (Status n)"
| Callback_crash: "start_up E S L fopen_ok now pname args w = Inr (Inr s) \<Longrightarrow>
    daemon_run E (r_ifaces s, r_world s) es (is', w') \<Longrightarrow> enabled is' e \<Longrightarrow> dispatch E is' e w' = Inl f \<Longrightarrow>
    rpld_main E S L fopen_ok now pname args w (es @ [e]) (Crashed f)"
| Sigint: "start_up E S L fopen_ok now pname args w = Inr (Inr s) \<Longrightarrow>
    daemon_run E (r_ifaces s, r_world s) es (is', w') \<Longrightarrow> shut_down E now is' (r_log s) w' = Inr (n, l', w'') \<Longrightarrow>
    rpld_main E S L fopen_ok now pname args w es (Status n)"
| Sigint_crash: "start_up E S L fopen_ok now pname args w = Inr (Inr s) \<Longrightarrow>
    daemon_run E (r_ifaces s, r_world s) es (is', w') \<Longrightarrow> shut_down E now is' (r_log s) w' = Inl f \<Longrightarrow>
    rpld_main E S L fopen_ok now pname args w es (Crashed f)"

inductive_cases rpld_main_StatusE: "rpld_main E S L fopen_ok now pname args w es (Status n)"

text \<open>
  The timers that an interface needs when the loop starts: one for its DIS, and one per dag
  for the DIOs. The timers a sequence of calls starts, and the addresses it asks the kernel
  to add.
\<close>

definition dag_timer :: "iface \<Rightarrow> rpl \<Rightarrow> dag \<Rightarrow> event" where
  "dag_timer i r d = Ev_timer_start (Trickle_w (ifindex i) (instance_id r) (dodagid d)) (trickle_t d) (trickle_t d)"

definition iface_timers :: "iface \<Rightarrow> event list" where
  "iface_timers i = Ev_timer_start (Dis_w (ifindex i)) 1 1 # concat (map (\<lambda>r. map (dag_timer i r) (dags r)) (rpls i))"

definition timers :: "event list \<Rightarrow> event list" where
  "timers es = filter (\<lambda>e. case e of Ev_timer_start _ _ _ \<Rightarrow> True | _ \<Rightarrow> False) es"

definition new_addrs :: "event list \<Rightarrow> in6_addr list" where
  "new_addrs es = concat (map (\<lambda>e. case e of Netlink m \<Rightarrow>
     (if nlmsg_type m = RTM_NEWADDR then (case nlmsg_attrs m of [Nla_bytes _ a] \<Rightarrow> [a] | _ \<Rightarrow> []) else []) | _ \<Rightarrow> []) es)"

subsection \<open>Lemmas\<close>

lemma timers_simps [simp]:
  "timers [] = []" "timers (es @ fs) = timers es @ timers fs"
  "timers (Ev_timer_start x a b # es) = Ev_timer_start x a b # timers es" "timers (Netlink m # es) = timers es"
  by (simp_all add: timers_def)

lemma new_addrs_simps [simp]:
  "new_addrs [] = []" "new_addrs (es @ fs) = new_addrs es @ new_addrs fs"
  "new_addrs (Ev_timer_start x a b # es) = new_addrs es"
  "new_addrs (Netlink (addr_request seq ifi addr) # es) = addr # new_addrs es"
  by (simp_all add: new_addrs_def addr_request_def)

lemma setup_dags_events:
  "\<exists>es. w_trace (setup_dags E i r ds w) = w_trace w @ es \<and> timers es = map (dag_timer i r) ds \<and>
     new_addrs es = (if dodag_root i then map dodagid ds else [])"
proof (induction ds arbitrary: w)
  case (Cons d ds)
  let ?w = "emit (dag_timer i r d) w"
  define w' where "w' = (if dodag_root i then snd (nl_add_addr E (ifindex i) (dodagid d) ?w) else ?w)"
  obtain es where es: "w_trace (setup_dags E i r ds w') = w_trace w' @ es" "timers es = map (dag_timer i r) ds"
      "new_addrs es = (if dodag_root i then map dodagid ds else [])"
    using Cons.IH by blast
  let ?a = "if dodag_root i then [Netlink (addr_request (sys_time E (w_trace ?w)) (ifindex i) (dodagid d))] else []"
  have "w_trace w' = w_trace w @ dag_timer i r d # ?a" by (simp add: w'_def nl_add_addr_def nl_talk_world)
  moreover have "setup_dags E i r (d # ds) w = setup_dags E i r ds w'" by (simp add: w'_def dag_timer_def)
  ultimately have "w_trace (setup_dags E i r (d # ds) w) = w_trace w @ (dag_timer i r d # ?a @ es)"
    using es(1) by simp
  moreover have "timers (dag_timer i r d # ?a @ es) = map (dag_timer i r) (d # ds)"
    "new_addrs (dag_timer i r d # ?a @ es) = (if dodag_root i then map dodagid (d # ds) else [])"
    using es by (simp_all add: dag_timer_def)
  ultimately show ?case by blast
qed simp

lemma setup_rpls_events:
  "\<forall>r \<in> set rs. \<not> rpl_freed r \<Longrightarrow>
   \<exists>w' es. setup_rpls E i rs w = Inr w' \<and> w_trace w' = w_trace w @ es \<and>
     timers es = concat (map (\<lambda>r. map (dag_timer i r) (dags r)) rs) \<and>
     new_addrs es = (if dodag_root i then map dodagid (concat (map dags rs)) else [])"
proof (induction rs arbitrary: w)
  case (Cons r rs)
  obtain es where es: "w_trace (setup_dags E i r (dags r) w) = w_trace w @ es" "timers es = map (dag_timer i r) (dags r)"
      "new_addrs es = (if dodag_root i then map dodagid (dags r) else [])"
    using setup_dags_events by blast
  obtain w' fs where "setup_rpls E i rs (setup_dags E i r (dags r) w) = Inr w'"
      "w_trace w' = w_trace (setup_dags E i r (dags r) w) @ fs"
      "timers fs = concat (map (\<lambda>r. map (dag_timer i r) (dags r)) rs)"
      "new_addrs fs = (if dodag_root i then map dodagid (concat (map dags rs)) else [])"
    using Cons.IH [of "setup_dags E i r (dags r) w"] Cons.prems by auto
  with es Cons.prems show ?case by (intro exI [of _ w'] exI [of _ "es @ fs"]) simp
qed simp

lemma rpld_setup_events:
  "\<forall>i \<in> set is. keys_inv i \<Longrightarrow>
   \<exists>w' es. rpld_setup E is w = Inr (0, w') \<and> w_trace w' = w_trace w @ es \<and>
     timers es = concat (map iface_timers is) \<and>
     new_addrs es = concat (map (\<lambda>i. if dodag_root i then map dodagid (all_dags i) else []) is)"
proof (induction "is" arbitrary: w)
  case (Cons i "is")
  let ?w = "emit (Ev_timer_start (Dis_w (ifindex i)) 1 1) w"
  obtain w1 es where es: "setup_rpls E i (rpls i) ?w = Inr w1" "w_trace w1 = w_trace ?w @ es"
      "timers es = concat (map (\<lambda>r. map (dag_timer i r) (dags r)) (rpls i))"
      "new_addrs es = (if dodag_root i then map dodagid (all_dags i) else [])"
    using setup_rpls_events [of "rpls i" E i ?w] Cons.prems by (auto simp: keys_inv_def all_dags_def)
  obtain w' fs where "rpld_setup E is w1 = Inr (0, w')" "w_trace w' = w_trace w1 @ fs"
     "timers fs = concat (map iface_timers is)"
     "new_addrs fs = concat (map (\<lambda>i. if dodag_root i then map dodagid (all_dags i) else []) is)"
    using Cons.IH [of w1] Cons.prems by auto
  with es show ?case
    by (intro exI [of _ w'] exI [of _ "Ev_timer_start (Dis_w (ifindex i)) 1 1 # es @ fs"]) (simp add: iface_timers_def [of i])
qed simp

lemma ifaces_list_dlist: "\<exists>head h. ifaces_list n = Inr (head, h) \<and> dlist h head [0..<n]"
  unfolding ifaces_list_def
  using dl.append_each [of "\<lambda>a. if a < n then Some \<lparr>dl_prev = None, dl_next = None\<rparr> else None" None "[]" "[0..<n]"]
  by (auto simp: dom_def)

lemma free_ifaces_fault: "free_ifaces is = (if is = [] then Inr () else Inl Use_after_free)"
proof -
  obtain head h where l: "ifaces_list (length is) = Inr (head, h)" "dlist h head [0..<length is]"
    using ifaces_list_dlist by blast
  show ?thesis
  proof (cases "is")
    case Nil
    with l show ?thesis by (simp add: free_ifaces_def config_free_def)
  next
    case (Cons i js)
    with l(2) have "dlist h head (0 # [1..<length is])" by (simp add: upt_conv_Cons del: upt_Suc)
    from config_free_fault [OF this] l(1) Cons show ?thesis by (simp add: free_ifaces_def)
  qed
qed

lemma netlink_open_rc: "netlink_open E w = (rc, w') \<Longrightarrow> rc = 0 \<or> rc = -1"
  by (auto simp: netlink_open_def Let_def split: if_splits)

lemma start_socket_end:
  "start_socket E now is l w = Inr (Inl (n, w')) \<Longrightarrow> n = -1 \<or> n = 1 \<and> last (w_trace w') = Nl_socket_close"
  by (auto simp: start_socket_def netlink_close_def Let_def split: if_splits prod.splits elim!: bind_resE)

lemma start_socket_run:
  "start_socket E now is l w = Inr (Inr s) \<Longrightarrow> \<exists>w1. set_var E PROC_SYS_IP6_MAX_HBH_OPTS_NUM 99 w = (0, w1) \<and>
     open_icmpv6_socket E is w1 = (r_sock s, r_world s) \<and> 0 \<le> r_sock s \<and> r_ifaces s = is \<and> r_log s = l"
  by (auto simp: start_socket_def set_var_def write_value_def Let_def split: if_splits prod.splits elim!: bind_resE)

lemma start_network_end:
  assumes "start_network E S L now opt l w = Inr (Inl (n, w'))"
  shows "n = 1 \<and> netlink_open E w = (-1, w') \<or> n = -1 \<or> n = 1 \<and> last (w_trace w') = Nl_socket_close"
proof -
  obtain rc w1 where nl: "netlink_open E w = (rc, w1)" by fastforce
  then show ?thesis using assms
    by (cases "rc = -1") (auto simp: start_network_def netlink_close_def Let_def dest!: start_socket_end split: if_splits elim!: bind_resE)
qed

lemma start_network_run:
  assumes "start_network E S L now opt l w = Inr (Inr s)"
  shows "\<exists>w1 w2 w3. netlink_open E w = (0, w1) \<and> config_load E S L (conf_path opt) [] w1 = Inr (0, r_ifaces s, w2) \<and>
    rpld_setup E (r_ifaces s) w2 = Inr (0, w3) \<and> start_socket E now (r_ifaces s) l w3 = Inr (Inr s)"
proof -
  obtain rc w1 where nl: "netlink_open E w = (rc, w1)" by fastforce
  with assms have 0: "rc = 0" using netlink_open_rc [OF nl] by (auto simp: start_network_def)
  with assms nl obtain rc' "is" w2 w3 where "config_load E S L (conf_path opt) [] w1 = Inr (rc', is, w2)" "\<not> rc' < 0"
      "rpld_setup E is w2 = Inr (0, w3)" "start_socket E now is l w3 = Inr (Inr s)"
    by (auto simp: start_network_def Let_def split: if_splits elim!: bind_resE)
  moreover from this have "rc' = 0" using config_load_rc by fastforce
  ultimately show ?thesis using nl 0 start_socket_run by blast
qed

lemma start_up_run:
  assumes "start_up E S L fopen_ok now pname args w = Inr (Inr s)"
  shows "\<exists>opt l l'. option_loop (getopt args) default_options log0 = Inr (Inr (opt, l)) \<and> log_ok l' \<and>
    start_network E S L now opt l' (init_random_gen E w) = Inr (Inr s)"
proof -
  from assms obtain opt l where o: "option_loop (getopt args) default_options log0 = Inr (Inr (opt, l))"
    by (auto simp: start_up_def elim!: bind_resE split: sum.splits)
  obtain rc l1 where lo: "log_open fopen_ok (if opt_method opt = L_UNSPEC then L_STDERR else opt_method opt)
      pname (Some (logfile opt)) (facility opt) l = (rc, l1)" by fastforce
  from assms o lo have "\<not> rc < 0" by (auto simp: start_up_def Let_def)
  moreover have "rc = 0 \<or> rc = -1" using lo by (auto simp: log_open_def Let_def split: if_splits option.splits)
  ultimately have "log_ok l1" using log_open_ok lo by auto
  with assms o lo \<open>\<not> rc < 0\<close> show ?thesis
    by (intro exI [of _ opt] exI [of _ l]
        exI [of _ "l1\<lparr>log_calls := log_calls l1 @ delivered now LOG_INFO ''version 0.0.1 started'' l1\<rparr>"])
      (auto simp: start_up_def Let_def flog_ok)
qed

text \<open>The number of interfaces stays what it was after the start.\<close>

lemma dispatch_length: "dispatch E is e w = Inr (is', w') \<Longrightarrow> length is' = length is"
  by (cases e) (auto simp: dispatch_def icmpv6_cb_def trickle_cb_def send_dis_cb_def Let_def
      elim!: bind_resE process_InrE split: prod.splits if_splits)

lemma run_length: "daemon_run E s es t \<Longrightarrow> length (fst t) = length (fst s)"
  by (induction rule: daemon_run.induct) (auto elim!: daemon_step.cases dest!: dispatch_length)

lemma shut_down_crash: "is \<noteq> [] \<Longrightarrow> shut_down E now is l w = Inl Use_after_free"
  by (simp add: shut_down_def free_ifaces_fault Let_def)

lemma state_ok_keys: "state_ok is \<Longrightarrow> \<forall>i \<in> set is. keys_inv i"
  by (simp add: state_ok_def iface_ok_def)

lemma start_up_ifaces:
  assumes "memory_available E" "sys_ok S" "start_up E S L fopen_ok now pname args w = Inr (Inr s)"
  shows "\<exists>file conf. lua_run L file = Some conf \<and>
    list_all2 (iface_loaded S L) (lua_values L conf) (r_ifaces s)"
proof -
  obtain opt l where "start_network E S L now opt l (init_random_gen E w) = Inr (Inr s)"
    using start_up_run [OF assms(3)] by blast
  then obtain w1 w2 where "config_load E S L (conf_path opt) [] w1 = Inr (0, r_ifaces s, w2)"
    using start_network_run by blast
  from config_load_loaded [OF assms(1,2) this] show ?thesis by auto
qed

end
