(* ===== verification/Started_Net.thy ===== *)
theory Started_Net
  imports Rpld_Main Network
begin

section \<open>A network of daemons from their command lines on\<close>

text \<open>
  Before its event loop runs, a daemon talks to its own kernel only: reading the
  configuration, the set-up of timers and addresses and the opening of the sockets send no
  message. So daemons that have started are a configured network, and what theory \<open>Network\<close>
  shows holds from their command lines and configurations on.
\<close>

subsection \<open>Definitions\<close>

definition sent_by :: "world \<Rightarrow> sendmsg_call set" where
  "sent_by w = {c. Sendmsg c \<in> set (w_trace w)}"

text \<open>The daemon with its environment, as a process that has started.\<close>

definition started :: "env \<Rightarrow> sys_api \<Rightarrow> 'v lua_api \<Rightarrow> running \<Rightarrow> bool" where
  "started E S L s \<longleftrightarrow> sys_ok S \<and>
     (\<forall>file conf. lua_run L file = Some conf \<longrightarrow> (\<forall>v \<in> set (lua_values L conf). prefixes_ok S L v)) \<and>
     (\<exists>fopen_ok now pname args w. w_trace w = [] \<and> start_up E S L fopen_ok now pname args w = Inr (Inr s))"

definition net_of :: "running list \<Rightarrow> net" where
  "net_of ss = map (\<lambda>s. (r_ifaces s, r_world s)) ss"

subsection \<open>The start sends nothing\<close>

named_theorems sends_nothing

lemma sent_by_emit [simp]: "(\<And>c. e \<noteq> Sendmsg c) \<Longrightarrow> sent_by (emit e w) = sent_by w"
  by (auto simp: sent_by_def)

lemma sent_by_errno [simp]: "sent_by (w\<lparr>w_errno := n\<rparr>) = sent_by w"
  "sent_by (w\<lparr>w_allocs := a\<rparr>) = sent_by w" "sent_by (w\<lparr>w_live := l\<rparr>) = sent_by w" "sent_by (release w) = sent_by w"
  by (simp_all add: sent_by_def)

lemma alloc_sends [sends_nothing]: "alloc E w = (ok, w') \<Longrightarrow> sent_by w' = sent_by w"
  by (auto simp: alloc_def Let_def)

lemma nl_talk_sends [simp]: "sent_by (snd (nl_talk E m w)) = sent_by w"
  by (simp add: nl_talk_def Let_def)

lemma netlink_open_sends [sends_nothing]: "netlink_open E w = (rc, w') \<Longrightarrow> sent_by w' = sent_by w"
  by (auto simp: netlink_open_def Let_def split: if_splits)

lemma write_value_sends [sends_nothing]: "write_value E path val w = (rc, w') \<Longrightarrow> sent_by w' = sent_by w"
  by (auto simp: write_value_def split: if_splits)

lemma set_interface_var_sends [sends_nothing]: "set_interface_var E i var val w = Inr (rc, w') \<Longrightarrow> sent_by w' = sent_by w"
  by (auto simp: set_interface_var_def strdupf_def alloc_def write_value_def Let_def split: if_splits)

lemma nl_get_llinfo_sends [sends_nothing]: "nl_get_llinfo E reply ifi ll w = (rc, ll', w') \<Longrightarrow> sent_by w' = sent_by w"
  by (auto simp: nl_get_llinfo_def data_cb_def alloc_def Let_def split: if_splits option.splits)

lemma grow_array_sends [sends_nothing]: "grow_array E b w = Inr w' \<Longrightarrow> sent_by w' = sent_by w"
  by (auto simp: grow_array_def Let_def split: if_splits)

lemma addrs_loop_sends [sends_nothing]: "addrs_loop E es name acc ll w = Inr (as, a, w') \<Longrightarrow> sent_by w' = sent_by w"
  by (induction E es name acc ll w rule: addrs_loop.induct)
    (auto split: option.splits if_splits elim!: bind_resE dest!: grow_array_sends)

lemma get_iface_addrs_sends [sends_nothing]: "get_iface_addrs E S name w = Inr (rc, a, as, w') \<Longrightarrow> sent_by w' = sent_by w"
  by (auto simp: get_iface_addrs_def split: option.splits elim!: bind_resE dest!: grow_array_sends addrs_loop_sends)

lemma dag_create_sends [sends_nothing]: "dag_create E i iid did t rank ver dst w = Inr (p, i', w') \<Longrightarrow> sent_by w' = sent_by w"
  by (auto simp: dag_create_def dag_rpl_create_def dag_init_def dag_init_timer_def Let_def dest!: alloc_sends
      split: option.splits if_splits prod.splits elim!: bind_resE)

lemma load_dags_sends [sends_nothing]: "load_dags E S L iid vs i w = Inr (rc, i', w') \<Longrightarrow> sent_by w' = sent_by w"
  by (induction vs arbitrary: i w) (fastforce elim!: bind_resE split: option.splits dest!: dag_create_sends)+

lemma load_instances_sends [sends_nothing]: "load_instances E S L vs i w = Inr (rc, i', w') \<Longrightarrow> sent_by w' = sent_by w"
  by (induction vs arbitrary: i w)
    (fastforce simp: config_load_dags_def elim!: bind_resE split: option.splits if_splits dest!: load_dags_sends)+

lemma iface_setup_sends [sends_nothing]:
  assumes "iface_setup E S L v w = Inr (Inr i, w')"
  shows "sent_by w' = sent_by w"
proof -
  obtain ip w0 where c: "iface_create E w = (ip, w0)" by fastforce
  obtain name rc w1 rc1 ll w2 rc2 a as where "set_interface_var E ''all'' PROC_SYS_IP6_IFACE_FORWARDING 1 w0 = Inr (rc, w1)"
    "nl_get_llinfo E (link_reply S (if_nametoindex S name)) (if_nametoindex S name) (llinfo (the ip)) w1 = (rc1, ll, w2)"
    "get_iface_addrs E S name w2 = Inr (rc2, a, as, w')"
    using assms c by (auto simp: iface_setup_def Let_def split: option.splits if_splits prod.splits elim!: bind_resE)
  moreover have "sent_by w0 = sent_by w" using c by (auto simp: iface_create_def alloc_def Let_def split: if_splits)
  ultimately show ?thesis using set_interface_var_sends nl_get_llinfo_sends get_iface_addrs_sends by metis
qed

lemma iface_role_sends [sends_nothing]: "iface_role E S L v i w = Inr (r, w') \<Longrightarrow> sent_by w' = sent_by w"
  by (auto simp: iface_role_def config_load_instances_def Let_def iface_free_def
      elim!: bind_resE split: option.splits if_splits dest!: load_instances_sends)

lemma load_iface_sends [sends_nothing]: "load_iface E S L v w = Inr (Inr i, w') \<Longrightarrow> sent_by w' = sent_by w"
  by (auto simp: load_iface_def elim!: bind_resE split: sum.splits dest!: iface_setup_sends iface_role_sends)

lemma config_load_sends [sends_nothing]: "config_load E S L file is w = Inr (0, is', w') \<Longrightarrow> sent_by w' = sent_by w"
proof -
  have "load_ifaces E S L vs is w = Inr (0, is', w') \<Longrightarrow> sent_by w' = sent_by w" for vs
    by (induction vs arbitrary: "is" w) (fastforce elim!: bind_resE split: sum.splits dest: load_iface_rc load_iface_sends)+
  then show "config_load E S L file is w = Inr (0, is', w') \<Longrightarrow> sent_by w' = sent_by w"
    by (auto simp: config_load_def split: if_splits option.splits)
qed

lemma setup_dags_sends [simp]: "sent_by (setup_dags E i r ds w) = sent_by w"
  by (induction ds arbitrary: w) (simp_all add: nl_add_addr_def Let_def)

lemma setup_rpls_sends [sends_nothing]: "setup_rpls E i rs w = Inr w' \<Longrightarrow> sent_by w' = sent_by w"
  by (induction rs arbitrary: w) (fastforce split: if_splits)+

lemma rpld_setup_sends [sends_nothing]: "rpld_setup E is w = Inr (rc, w') \<Longrightarrow> sent_by w' = sent_by w"
  by (induction "is" arbitrary: w) (fastforce elim!: bind_resE dest!: setup_rpls_sends)+

lemma open_socket_sends [sends_nothing]: "open_icmpv6_socket E is w = (rc, w') \<Longrightarrow> sent_by w' = sent_by w"
proof -
  have o: "sent_by (snd (set_options E cs w)) = sent_by w" if "\<forall>c. Sendmsg c \<notin> set cs" for cs w
    using that by (induction cs arbitrary: w) (simp_all add: setsockopt_def Let_def, metis sent_by_emit)
  have m: "sent_by (snd (rpl_multicast_handler E is opt w)) = sent_by w" for opt w
    by (induction "is" arbitrary: w) (auto simp: setsockopt_def Let_def)
  have "\<forall>c. Sendmsg c \<notin> set icmpv6_options" by (simp add: icmpv6_options_def)
  note o' = o [OF this, of "emit Open_socket w"]
  show "open_icmpv6_socket E is w = (rc, w') \<Longrightarrow> sent_by w' = sent_by w"
    using o' m [of IPV6_ADD_MEMBERSHIP "snd (set_options E icmpv6_options (emit Open_socket w))"]
    by (auto simp: open_icmpv6_socket_def subscribe_rpl_multicast_def Let_def split_def split: if_splits)
qed

lemma start_up_sends:
  assumes "start_up E S L fopen_ok now pname args w = Inr (Inr s)"
  shows "sent_by (r_world s) = sent_by w"
proof -
  obtain opt l where "start_network E S L now opt l (init_random_gen E w) = Inr (Inr s)" using start_up_run [OF assms] by blast
  then obtain w1 w2 w3 where n: "netlink_open E (init_random_gen E w) = (0, w1)" "config_load E S L (conf_path opt) [] w1 = Inr (0, r_ifaces s, w2)"
    "rpld_setup E (r_ifaces s) w2 = Inr (0, w3)" "start_socket E now (r_ifaces s) l w3 = Inr (Inr s)"
    using start_network_run by blast
  obtain w4 where k: "set_var E PROC_SYS_IP6_MAX_HBH_OPTS_NUM 99 w3 = (0, w4)" "open_icmpv6_socket E (r_ifaces s) w4 = (r_sock s, r_world s)"
    using start_socket_run [OF n(4)] by blast
  have "sent_by (init_random_gen E w) = sent_by w" by (simp add: init_random_gen_def)
  then show ?thesis using n(1-3) k by (auto simp: set_var_def dest!: sends_nothing)
qed

subsection \<open>Started daemons are a configured network\<close>

lemma started_node:
  assumes "started E S L s" "memory_available E"
  shows "state_ok (r_ifaces s) \<and> quiet (w_trace (r_world s)) \<and>
    (\<forall>i \<in> set (r_ifaces s). \<forall>d \<in> ran (dag_table i). parent d = None \<and> my_rank d = 1)"
proof -
  obtain fopen_ok now pname args w where s: "start_up E S L fopen_ok now pname args w = Inr (Inr s)" "w_trace w = []"
    and c: "sys_ok S" "\<And>file conf v. lua_run L file = Some conf \<Longrightarrow> v \<in> set (lua_values L conf) \<Longrightarrow> prefixes_ok S L v"
    using assms(1) by (auto simp: started_def)
  obtain path v where v: "lua_run L path = Some v" and l: "list_all2 (iface_loaded S L) (lua_values L v) (r_ifaces s)"
    using start_up_ifaces [OF assms(2) c(1) s(1)] by blast
  have ok: "state_ok (r_ifaces s)" using loaded_short [OF l] c(2) [OF v] by blast
  have "\<forall>i \<in> set (r_ifaces s). loaded i"
    using l by (auto simp: list_all2_conv_all_nth in_set_conv_nth iface_loaded_def)
  moreover have "quiet (w_trace (r_world s))"
    using start_up_sends [OF s(1)] s(2) by (auto simp: sent_by_def quiet_def)
  ultimately show ?thesis using ok by (auto simp: loaded_def root_of_itself_def)
qed

lemma started_configured:
  assumes "envs_ok Es" "\<forall>n < length ss. started (Es n) (Ss n) (Ls n) (ss ! n)"
    "inj_on (src_at (net_of ss)) (ports (net_of ss))" "card (ports (net_of ss)) \<le> 65535"
    "\<forall>d \<in> ran (dag_at (net_of ss) k). dag_info d = g"
  shows "configured (net_of ss) k g"
proof -
  have n: "state_ok (r_ifaces s) \<and> quiet (w_trace (r_world s)) \<and>
      (\<forall>i \<in> set (r_ifaces s). \<forall>d \<in> ran (dag_table i). parent d = None \<and> my_rank d = 1)" if member: "s \<in> set ss" for s
    proof -
    obtain m where m: "m < length ss" "s = ss ! m" using member by (auto simp: in_set_conv_nth)
    then show ?thesis using started_node [of "Es m" "Ss m" "Ls m" s] assms(1,2) by (simp add: envs_ok_def)
  qed
  have "parent d = None \<and> my_rank d = 1" if "dag_at (net_of ss) k x = Some d" for x d
  proof -
    have x: "port_node x < length ss" "port_iface x < length (r_ifaces (ss ! port_node x))"
      "dag_table (r_ifaces (ss ! port_node x) ! port_iface x) k = Some d"
      using that by (auto simp: dag_at_def ports_def net_of_def iface_at_def split: if_splits)
    have "d \<in> ran (dag_table (r_ifaces (ss ! port_node x) ! port_iface x))" using x(3) by (rule ranI)
    then show ?thesis using n [OF nth_mem [OF x(1)]] nth_mem [OF x(2)] by blast
  qed
  then show ?thesis using n assms(3-5) by (auto simp: configured_def net_of_def ran_def)
qed

end
