(* ===== verification/Network_Join.thy ===== *)
theory Network_Join
  imports Network
begin

section \<open>Joining a dag takes two turns\<close>

text \<open>
  What the network can always do next: a member announces its dag when its timer fires, and
  an interface that receives the announcement and does not know the dag joins it below the
  sender.
\<close>

text \<open>A message as \<open>recvmsg\<close> delivers it from an address on an interface.\<close>

definition delivered_as :: "in6_addr \<Rightarrow> u32 \<Rightarrow> bytes \<Rightarrow> recvmsg_result" where
  "delivered_as a ifi m = \<lparr>rm_len = int (length m), rm_buf = m @ replicate (MSG_SIZE_RECV - length m) 0, rm_from = a,
     rm_cmsgs = [\<lparr>cmsg_level = IPPROTO_IPV6, cmsg_type = IPV6_PKTINFO, cmsg_len = CMSG_LEN 20, cmsg_int = 0, cmsg_ifindex = ifi\<rparr>]\<rparr>"

lemma delivered_as_wf: "length m \<le> MSG_SIZE_RECV \<Longrightarrow> wf_addr a \<Longrightarrow> recv_wf (delivered_as a ifi m)"
  by (simp add: recv_wf_def delivered_as_def)

lemma delivered_as_carries:
  "length m \<le> MSG_SIZE_RECV \<Longrightarrow> 4 \<le> length m \<Longrightarrow> carries (delivered_as a ifi m) (icmp_call i a dst m)"
  by (simp add: carries_def delivered_as_def icmp_call_def)

lemma delivered_as_received: "ifi \<noteq> 0 \<Longrightarrow> recv_rs_ra (delivered_as a ifi m) = (int (length m), Some 255, Some ifi)"
  by (simp add: recv_rs_ra_def delivered_as_def IPPROTO_IPV6_def IPV6_PKTINFO_def IPV6_HOPLIMIT_def CMSG_LEN_def)

lemma dio_length: "wf_dag d \<Longrightarrow> 36 \<le> length (dio_message iid d) \<and> length (dio_message iid d) \<le> 52"
  using dio_chunks_message(3) [of d iid] ceil8_le_16 [of "pfx_len (dest d)"] by (simp add: wf_dag_def)

lemma find_unique: "distinct (map ifindex is) \<Longrightarrow> k < length is \<Longrightarrow> iface_find_by_ifindex is (ifindex (is ! k)) = Some k"
  by (induction "is" arbitrary: k) (auto simp: nth_Cons split: nat.splits)

text \<open>One announcement and one join, each as a turn of a daemon.\<close>

lemma announce_turn:
  assumes "memory_available E" "state_ok is" "n < length is" "dag_table (is ! n) k = Some d"
  shows "\<exists>p w'. daemon_step E (is, w) (Trickle n p) (is[n := upd_dag (is ! n) p bump_dtsn], w') \<and>
    Sendmsg (icmp_call (is ! n) (the (ifaddr_src (is ! n))) all_rpl_addr (dio_message (fst k) d)) \<in> set (w_trace w') \<and>
    wf_dag d \<and> dodagid d = snd k \<and> dag_table (upd_dag (is ! n) p bump_dtsn) = (dag_table (is ! n))(k \<mapsto> bump_dtsn d)"
proof -
  have ok: "iface_ok (is ! n)" using assms(2,3) by (simp add: state_ok_def)
  then have inv: "keys_inv (is ! n)" by (simp add: iface_ok_def)
  obtain p where p: "lookup_key (is ! n) k = Inr (Some p)" "get_dag (is ! n) p = d" using ds.presentE [OF inv assms(4)] by blast
  note l = iface_ok_lookupD [OF ok p(1)]
  obtain w' where s: "send_dio E (is ! n) p w = Inr (upd_dag (is ! n) p bump_dtsn, w')" "w_trace w' = w_trace w @ [dio_event (is ! n) p]"
    using send_dio_step [OF assms(1) ok l(4)] by blast
  have "daemon_step E (is, w) (Trickle n p) (is[n := upd_dag (is ! n) p bump_dtsn], w')"
    using s(1) l(4) assms(3) by (simp add: daemon_step_iff enabled_def dispatch_def trickle_cb_def)
  moreover have "Sendmsg (icmp_call (is ! n) (the (ifaddr_src (is ! n))) all_rpl_addr (dio_message (fst k) d)) \<in> set (w_trace w')"
    using l(7) p(2) by (simp add: s(2) dio_event_def)
  moreover have "wf_dag d" "dodagid d = snd k" using l(2,8) p(2) by simp_all
  moreover have "dag_table (upd_dag (is ! n) p bump_dtsn) = (dag_table (is ! n))(k \<mapsto> bump_dtsn d)"
    using ds.upd_store [OF inv p(1), of bump_dtsn] p(2) by (simp add: bump_dtsn_def)
  ultimately show ?thesis by blast
qed

lemma join_turn:
  assumes env: "memory_available E" "length (stack_junk E) = 16" and ok: "state_ok is" "n < length is" "wf_addr a" "wf_dag d"
    and ifi: "distinct (map ifindex is)" "ifindex (is ! n) \<noteq> 0"
    and new: "dag_table (is ! n) (iid, dodagid d) = None" "\<forall>e \<in> ran (dag_table (is ! n)). dao_fits e"
  shows "\<exists>i' d' w'. daemon_step E (is, w) (Packet (delivered_as a (ifindex (is ! n)) (dio_message iid d))) (is[n := i'], w') \<and>
    dag_table i' = (dag_table (is ! n))((iid, dodagid d) \<mapsto> d') \<and> joined_dag d a d' \<and>
    ifindex i' = ifindex (is ! n) \<and> ifaddr_src i' = ifaddr_src (is ! n)"
proof -
  let ?m = "dio_message iid d" and ?r = "delivered_as a (ifindex (is ! n)) (dio_message iid d)"
  have l: "36 \<le> length ?m" "length ?m \<le> MSG_SIZE_RECV" using dio_length [OF ok(4), of iid] by (auto simp: MSG_SIZE_RECV_def)
  have i: "iface_ok (is ! n)" using ok(1,2) by (simp add: state_ok_def)
  obtain i' w' d' where p: "process_dio E (is ! n) (drop 4 ?m @ replicate (MSG_SIZE_RECV - length ?m) 0) (length ?m - 4) a w
      = Inr (Dio_done, i', w')" "joined_dag d a d'" "dag_table i' = (dag_table (is ! n))((iid, dodagid d) \<mapsto> d')" "ifindex i' = ifindex (is ! n)"
    using dio_delivery [OF env i ok(3,4) new, of "replicate (MSG_SIZE_RECV - length ?m) 0" w] by blast
  have m: "mem_u8 (rm_buf ?r) 0 = Inr ND_RPL_MESSAGE" "mem_u8 (rm_buf ?r) 1 = Inr ND_RPL_DAG_IO"
    by (simp_all add: delivered_as_def mem_u8_def dio_message_def icmp6_hdr_bytes_def)
  have b: "drop 4 (rm_buf ?r) = drop 4 ?m @ replicate (MSG_SIZE_RECV - length ?m) 0" "rm_from ?r = a"
    using l by (simp_all add: delivered_as_def)
  have "nat (int (length ?m) - 4) = length ?m - 4" by simp
  then have "process E is (rm_buf ?r) (int (length ?m)) a (Some (ifindex (is ! n))) w = Inr (Pkt_dio Dio_done, is[n := i'], w')"
    using p(1) m b(1) l find_unique [OF ifi(1) ok(2)] by (simp add: process_def ND_RPL_DAG_IO_def ND_RPL_DAG_IS_def)
  then have "dispatch E is (Packet ?r) w = Inr (is[n := i'], w')"
    using delivered_as_received [OF ifi(2), of a ?m] b(2) l(1) by (auto simp: dispatch_def icmpv6_cb_def)
  then have "daemon_step E (is, w) (Packet ?r) (is[n := i'], w')"
    using delivered_as_wf [OF l(2) ok(3)] by (simp add: daemon_step_iff enabled_def)
  moreover have "ifaddr_src i' = ifaddr_src (is ! n)" using dio_effect [OF env i ok(3,4) refl refl p(1)] by blast
  ultimately show ?thesis using p(2-4) by blast
qed

text \<open>
  What joining needs of the interfaces: usable source addresses and indices, and room for
  the DAO of every dag that an interface has.
\<close>

definition can_join :: "net \<Rightarrow> bool" where
  "can_join N \<longleftrightarrow> (\<forall>s \<in> set N. distinct (map ifindex (fst s))) \<and> (\<forall>x \<in> ports N. wf_addr (src_at N x) \<and>
     ifindex (iface_at N x) \<noteq> 0 \<and> (\<forall>d \<in> ran (dag_table (iface_at N x)). dao_fits d))"

lemma can_join_update:
  assumes x: "x \<in> ports N" "N ! port_node x = (is, w)" and j: "can_join N"
    and i: "ifindex i = ifindex (iface_at N x)" "ifaddr_src i = ifaddr_src (iface_at N x)" "\<forall>d \<in> ran (dag_table i). dao_fits d"
    and N': "N' = N[port_node x := (is[port_iface x := i], w')]"
  shows "can_join N'" "ports N' = ports N" "iface_at N' y = (if y = x then i else iface_at N y)"
    "dag_at N' k = (dag_at N k)(x := dag_table i k)"
proof -
  have p: "port_node x < length N" "port_iface x < length (fst (N ! port_node x))" using x by (simp_all add: ports_def)
  have "N' = N[port_node x := ((fst (N ! port_node x))[port_iface x := i], w')]" using x(2) by (simp add: N')
  note u = update_iface [OF p this]
  show u': "ports N' = ports N" "iface_at N' y = (if y = x then i else iface_at N y)"
    "dag_at N' k = (dag_at N k)(x := dag_table i k)" for y using u by simp_all
  have "map ifindex (is[port_iface x := i]) = map ifindex is"
    using i(1) x(2) p(2) list_update_id [of "map ifindex is" "port_iface x"] by (simp add: map_update iface_at_def)
  moreover have "distinct (map ifindex is)" using j nth_mem [OF p(1)] x(2) by (auto simp: can_join_def)
  ultimately have "\<forall>s \<in> set N'. distinct (map ifindex (fst s))"
    using j set_update_subset_insert [of N "port_node x"] by (fastforce simp: N' can_join_def)
  moreover have "src_at N' y = src_at N y" for y using i(2) by (simp add: src_at_def u'(2))
  ultimately show "can_join N'" using j i x(1) by (auto simp: can_join_def u'(1,2))
qed

text \<open>The two turns in a network.\<close>

lemma network_join:
  assumes env: "envs_ok Es" and ok: "net_ok N" "can_join N" and x: "dag_at N k x = Some d" and y: "y \<in> ports N" "dag_at N k y = None"
  shows "\<exists>p N' d'. net_run Es N [(port_node x, Trickle (port_iface x) p),
      (port_node y, Packet (delivered_as (src_at N x) (ifindex (iface_at N y)) (dio_message (fst k) d)))] N' \<and>
    can_join N' \<and> dom (dag_at N' k) = insert y (dom (dag_at N k)) \<and>
    dag_at N' k y = Some d' \<and> joined_dag d (src_at N x) d'"
proof -
  obtain isx wx where nx: "N ! port_node x = (isx, wx)" by fastforce
  have x': "x \<in> ports N" "dag_table (iface_at N x) k = Some d" using x by (auto simp: dag_at_def split: if_splits)
  then have px: "port_node x < length N" "port_iface x < length isx" "isx ! port_iface x = iface_at N x"
    using nx by (auto simp: ports_def iface_at_def)
  have okx: "state_ok isx" using ok nx nth_mem [OF px(1)] by (auto simp: net_ok_def)
  have m: "memory_available (Es n)" "length (stack_junk (Es n)) = 16" for n using env by (simp_all add: envs_ok_def)
  obtain p w1 where s1: "daemon_step (Es (port_node x)) (isx, wx) (Trickle (port_iface x) p)
      (isx[port_iface x := upd_dag (iface_at N x) p bump_dtsn], w1)" and d: "wf_dag d" "dodagid d = snd k"
    and p: "dag_table (upd_dag (iface_at N x) p bump_dtsn) = (dag_table (iface_at N x))(k \<mapsto> bump_dtsn d)"
    and t: "Sendmsg (icmp_call (iface_at N x) (src_at N x) all_rpl_addr (dio_message (fst k) d)) \<in> set (w_trace w1)"
    using announce_turn [OF m(1) okx px(2), of k d "port_node x" wx] px(3) x'(2) by (auto simp: src_at_def)
  define N1 where "N1 = N[port_node x := (isx[port_iface x := upd_dag (iface_at N x) p bump_dtsn], w1)]"
  have n1: "net_step Es N (port_node x, Trickle (port_iface x) p) N1"
    unfolding N1_def using net_step.Node [OF px(1), of "Trickle (port_iface x) p"] s1 nx by (simp add: honest_def)
  have ok1: "net_ok N1" using net_step_refines [OF ok(1) env n1] by blast
  have "dao_fits (bump_dtsn d)" using ok(2) x' ranI [of "dag_table (iface_at N x)" k d] by (simp add: can_join_def dao_fits_def bump_dtsn_def)
  then have "\<forall>e \<in> ran (dag_table (upd_dag (iface_at N x) p bump_dtsn)). dao_fits e"
    using ok(2) x'(1) by (auto simp: can_join_def p ran_def simp del: split_paired_Ex)
  note u1 = can_join_update [OF x'(1) nx ok(2) _ _ this N1_def, simplified]
  obtain isy wy where ny: "N1 ! port_node y = (isy, wy)" by fastforce
  have diff: "x \<noteq> y" using x y(2) by auto
  have "y \<in> ports N1" "iface_at N1 y = iface_at N y" using u1(2) u1(3) [of y] y(1) diff by simp_all
  then have py: "port_node y < length N1" "port_iface y < length isy" "isy ! port_iface y = iface_at N y" "y \<in> ports N1"
    using ny by (simp_all add: ports_def iface_at_def)
  have oky: "state_ok isy" using ok1 ny nth_mem [OF py(1)] by (auto simp: net_ok_def)
  have dist: "distinct (map ifindex isy)" using u1(1) ny nth_mem [OF py(1)] by (auto simp: can_join_def)
  have y': "wf_addr (src_at N x)" "ifindex (iface_at N y) \<noteq> 0" "dag_table (iface_at N y) k = None"
      "\<forall>e \<in> ran (dag_table (iface_at N y)). dao_fits e"
    using ok(2) x'(1) y by (auto simp: can_join_def dag_at_def)
  let ?r = "delivered_as (src_at N x) (ifindex (iface_at N y)) (dio_message (fst k) d)"
  obtain i' d' w' where s2: "daemon_step (Es (port_node y)) (isy, wy) (Packet ?r) (isy[port_iface y := i'], w')"
      "dag_table i' = (dag_table (iface_at N y))(k \<mapsto> d')" "joined_dag d (src_at N x) d'"
      "ifindex i' = ifindex (iface_at N1 y)" "ifaddr_src i' = ifaddr_src (iface_at N1 y)"
    using join_turn [where iid = "fst k" and w = wy, OF m [of "port_node y"] oky py(2) y'(1) d(1) dist] py(3) d(2) y' u1(3) [of y] diff by auto
  define N2 where "N2 = N1[port_node y := (isy[port_iface y := i'], w')]"
  have "honest N1 (Packet ?r)"
  proof -
    have l: "36 \<le> length (dio_message (fst k) d)" "length (dio_message (fst k) d) \<le> 52" using dio_length [OF d(1)] by auto
    have "carries ?r (icmp_call (iface_at N x) (src_at N x) all_rpl_addr (dio_message (fst k) d))"
      using l by (intro delivered_as_carries) (auto simp: MSG_SIZE_RECV_def)
    moreover have "(isx[port_iface x := upd_dag (iface_at N x) p bump_dtsn], w1) \<in> set N1"
      using px(1) by (auto simp: N1_def set_update_memI)
    ultimately show ?thesis using t unfolding honest_def by blast
  qed
  then have n2: "net_step Es N1 (port_node y, Packet ?r) N2"
    unfolding N2_def using net_step.Node [OF py(1)] s2(1) ny by simp
  have "dao_fits d'" using s2(3) by (simp add: joined_dag_def dao_fits_def)
  then have "\<forall>e \<in> ran (dag_table i'). dao_fits e" using y'(3,4) by (simp add: s2(2))
  note u2 = can_join_update [OF py(4) ny u1(1) s2(4,5) this N2_def]
  have "dag_at N2 k y = Some d'" "dom (dag_at N2 k) = insert y (dom (dag_at N k))"
    using x by (auto simp: u2(4) u1(4) s2(2) p)
  then show ?thesis using net_run.Then [OF net_run.Then [OF net_run.Start n1] n2] s2(3) u2(1) by fastforce
qed

text \<open>
  From a network with a member, the others can join one after the other: each non-member
  costs two turns.
\<close>

lemma net_run_append: "net_run Es M fs L \<Longrightarrow> net_run Es N es M \<Longrightarrow> net_run Es N (es @ fs) L"
  by (induction rule: net_run.induct) (auto intro: net_run.Then simp flip: append_assoc)

lemma net_run_ok: "net_run Es N es N' \<Longrightarrow> envs_ok Es \<Longrightarrow> net_ok N \<Longrightarrow> net_ok N' \<and> ports N' = ports N"
  by (induction rule: net_run.induct) (auto dest: net_step_refines simp del: split_paired_All)

lemma network_completes:
  assumes env: "envs_ok Es" and ok: "net_ok N" "can_join N" and x: "dag_at N k x \<noteq> None"
  shows "\<exists>es N'. net_run Es N es N' \<and> length es = 2 * card (ports N - dom (dag_at N k)) \<and> dom (dag_at N' k) = ports N"
  using ok x
proof (induction "card (ports N - dom (dag_at N k))" arbitrary: N x)
  case 0
  then have "dom (dag_at N k) = ports N" using dag_at_ports [of N k] by auto
  then show ?case using net_run.Start [of Es N] by auto
next
  case (Suc n)
  then obtain y where y: "y \<in> ports N" "dag_at N k y = None" by (metis Diff_iff card.empty domIff equals0I nat.distinct(1))
  obtain d where d: "dag_at N k x = Some d" using Suc.prems(3) by blast
  obtain e1 e2 M where M: "net_run Es N [e1, e2] M" "can_join M" "dom (dag_at M k) = insert y (dom (dag_at N k))"
    using network_join [OF env Suc.prems(1,2) d y] by blast
  have okM: "net_ok M" "ports M = ports N" using net_run_ok [OF M(1) env Suc.prems(1)] by auto
  have c: "card (ports N - dom (dag_at N k)) = Suc (card (ports M - dom (dag_at M k)))"
  proof -
    have "ports N - dom (dag_at N k) = insert y (ports M - dom (dag_at M k))" "y \<notin> ports M - dom (dag_at M k)"
      using y M(3) okM(2) by auto
    then show ?thesis by simp
  qed
  have "dag_at M k y \<noteq> None" using M(3) by blast
  then obtain es N' where "net_run Es M es N'" "length es = 2 * card (ports M - dom (dag_at M k))" "dom (dag_at N' k) = ports M"
    using Suc.hyps(1) [of M y] Suc.hyps(2) okM(1) M(2) c by auto
  then show ?case using net_run_append [OF _ M(1)] c okM(2) by (intro exI [of _ "[e1, e2] @ es"] exI [of _ N']) simp
qed

end
