(* ===== verification/Example_Start.thy ===== *)
theory Example_Start
  imports Example_Config Example_Net Started_Net Network_Join
begin

section \<open>Daemons that start, alone and as a network\<close>

text \<open>
  The start of the daemon with the configurations of theory \<open>Example_Config\<close>, and the network
  of a root and a node that is no root, from their command lines to the join.
\<close>

lemma open_socket_env0:
  "open_icmpv6_socket env0 is w = (3, snd (open_icmpv6_socket env0 is w))"
proof -
  have o: "fst (set_options env0 cs w) = 0" for cs w
    by (induction cs arbitrary: w) (auto simp: setsockopt_def env0_def Let_def)
  have m: "fst (rpl_multicast_handler env0 is opt w) = 0" for opt w
    using multicast_ok [of env0 "is" opt w] by (simp add: env0_def)
  have "socket_rc env0 t = 3" for t by (simp add: env0_def)
  then have "fst (open_icmpv6_socket env0 is w) = 3"
    using o [of icmpv6_options "emit Open_socket w"] m
    by (auto simp: open_icmpv6_socket_def subscribe_rpl_multicast_def Let_def split_def)
  then show ?thesis by (simp add: prod_eq_iff)
qed

lemma conf_starts:
  assumes "lua_run L ''/etc/rpld.conf'' = Some conf" "sys_ok S" "\<And>v. v \<in> set (lua_values L conf) \<Longrightarrow> prefixes_ok S L v"
    "\<And>w. \<exists>is w'. config_load env0 S L ''/etc/rpld.conf'' [] w = Inr (0, is, w') \<and> Q is"
  shows "\<exists>s. start_up env0 S L (\<lambda>_. True) now ''rpld'' [] world0 = Inr (Inr s) \<and> Q (r_ifaces s)"
proof -
  let ?w = "emit Nl_socket_bind (emit Nl_socket_open (init_random_gen env0 world0))"
  obtain "is" w2 where c: "config_load env0 S L ''/etc/rpld.conf'' [] ?w = Inr (0, is, w2)" and q: "Q is" using assms(4) by blast
  have "list_all2 (iface_loaded S L) (lua_values L conf) is"
    using config_load_loaded [OF env0_ok(1) assms(2) c] assms(1) by auto
  then have "state_ok is" by (rule loaded_short) (simp add: assms(3))
  then obtain w3 where r: "rpld_setup env0 is w2 = Inr (0, w3)" using rpld_setup_events state_ok_keys by blast
  obtain w4 where v: "set_var env0 PROC_SYS_IP6_MAX_HBH_OPTS_NUM 99 w3 = (0, w4)"
    by (simp add: set_var_def write_value_def env0_def)
  obtain w5 where o: "open_icmpv6_socket env0 is w4 = (3, w5)" using open_socket_env0 by blast
  have n: "netlink_open env0 (init_random_gen env0 world0) = (0, ?w)" by (simp add: netlink_open_def env0_def Let_def)
  have l: "log_open (\<lambda>_. True) L_STDERR ''rpld'' (Some x) f log0 = (0, log0\<lparr>log_method := L_STDERR, log_ident := ''rpld''\<rparr>)" for x f
    by (simp add: log_open_def)
  have ok: "log_ok (log0\<lparr>log_method := L_STDERR, log_ident := ''rpld''\<rparr>)" by (simp add: log_ok_def log_methods)
  show ?thesis using q
    by (simp add: start_up_def default_options_def l flog_ok [OF ok] start_network_def n c r start_socket_def v o Let_def
        del: rpld_setup.simps)
qed

lemma root_conf_starts_at:
  "\<exists>s i. start_up env0 (sys_at b) (lua_of root_conf) (\<lambda>_. True) now ''rpld'' [] world0 = Inr (Inr s) \<and> r_ifaces s = [i] \<and>
     ifaddr_src i = Some (ll_addr_of b)"
  using conf_starts [of "lua_of root_conf" root_conf "sys_at b" "\<lambda>is. \<exists>i. is = [i] \<and> ifaddr_src i = Some (ll_addr_of b)" now]
    sys_at_ok conf_prefixes(1) root_conf_loads by fastforce

lemma root_conf_starts:
  "\<exists>s. start_up env0 sys0 (lua_of root_conf) (\<lambda>_. True) now ''rpld'' [] world0 = Inr (Inr s) \<and> length (r_ifaces s) = 1"
  using root_conf_starts_at [of 1 now] by force

lemma leaf_conf_starts:
  "\<exists>s. start_up env0 (sys_at b) (lua_of leaf_conf) (\<lambda>_. True) now ''rpld'' [] world0 = Inr (Inr s) \<and> r_ifaces s = [conf_iface_at b]"
  using conf_starts [of "lua_of leaf_conf" leaf_conf "sys_at b" "\<lambda>is. is = [conf_iface_at b]" now]
    sys_at_ok conf_prefixes(2) leaf_conf_loads by fastforce

subsection \<open>A root and a node that is no root\<close>

definition example_sys :: "nat \<Rightarrow> sys_api" where
  "example_sys n = sys_at (if n = 0 then 1 else 2)"

definition example_lua :: "nat \<Rightarrow> lval lua_api" where
  "example_lua n = lua_of (if n = 0 then root_conf else leaf_conf)"

lemma two_can_join:
  assumes "\<forall>x \<in> {i, j}. ifindex x \<noteq> 0 \<and> wf_addr (the (ifaddr_src x)) \<and> (\<forall>d \<in> ran (dag_table x). dao_fits d)"
  shows "can_join [([i], v), ([j], w)]"
proof -
  have "iface_at [([i], v), ([j], w)] (Port 0 0) = i" "iface_at [([i], v), ([j], w)] (Port 1 0) = j"
    by (simp_all add: iface_at_def)
  then show ?thesis using assms unfolding can_join_def two_ports src_at_def by auto
qed

lemma example_net_can_join: "can_join example_net"
proof -
  have "\<forall>d \<in> ran (dag_table root_node). dao_fits d" using example_fits by (simp add: state_fits_def)
  moreover have "ran (dag_table new_node) = {}" by (simp add: ran_def)
  ultimately show ?thesis unfolding example_net_def by (intro two_can_join) (auto simp: example_node_defs)
qed

lemma example_net_started:
  "\<exists>r l. \<forall>n < 2. started env0 (example_sys n) (example_lua n) ([r, l] ! n) \<and>
     (\<exists>i d. r_ifaces r = [i] \<and> ifaddr_src i = Some (ll_addr_of 1) \<and> dag_table i (7, addr_of 1) = Some d \<and>
        ifindex i \<noteq> 0 \<and> (\<forall>e \<in> ran (dag_table i). dao_fits e)) \<and>
     r_ifaces l = [conf_iface_at 2]"
proof -
  obtain r i where r: "start_up env0 (sys_at 1) (lua_of root_conf) (\<lambda>_. True) ''now'' ''rpld'' [] world0 = Inr (Inr r)" "r_ifaces r = [i]"
    "ifaddr_src i = Some (ll_addr_of 1)" using root_conf_starts_at by blast
  obtain l where l: "start_up env0 (sys_at 2) (lua_of leaf_conf) (\<lambda>_. True) ''now'' ''rpld'' [] world0 = Inr (Inr l)"
    "r_ifaces l = [conf_iface_at 2]" using leaf_conf_starts by blast
  have s: "started env0 (example_sys n) (example_lua n) ([r, l] ! n)" if "n < 2" for n
  proof -
    have "w_trace world0 = []" by (simp add: world0_def)
    then show ?thesis using that r(1) l(1) conf_prefixes sys_at_ok
      by (auto simp: started_def example_sys_def example_lua_def less_2_cases_iff) blast+
  qed
  obtain conf where "lua_run (lua_of root_conf) conf = Some root_conf"
    "list_all2 (iface_loaded sys0 (lua_of root_conf)) (lua_values (lua_of root_conf) root_conf) [i]"
    using start_up_ifaces [OF env0_ok(1) sys_at_ok r(1)] r(2) by auto
  then have i: "iface_loaded sys0 (lua_of root_conf) (root_entry [dag_entry ''64'']) i" by (simp add: root_conf_def)
  then have "dodag_root i" by (auto simp: iface_loaded_def root_entry_def)
  then obtain d where "dag_table i (7, addr_of 1) = Some d"
    using i root_conf_key [of 1 root_conf] by (auto simp: iface_loaded_def dag_keys_def)
  moreover have "ifindex i \<noteq> 0" "\<forall>e \<in> ran (dag_table i). dao_fits e"
    using i by (auto simp: iface_loaded_def loaded_def root_of_itself_def dao_fits_def)
  ultimately show ?thesis using s r(2,3) l(2) by blast
qed

lemma example_started_net_joins:
  "\<exists>r l es N' d. (\<forall>n < length [r, l]. started env0 (example_sys n) (example_lua n) ([r, l] ! n)) \<and>
     inj_on (src_at (net_of [r, l])) (ports (net_of [r, l])) \<and> card (ports (net_of [r, l])) \<le> 65535 \<and>
     (\<exists>g. \<forall>e \<in> ran (dag_at (net_of [r, l]) (7, addr_of 1)). dag_info e = g) \<and>
     net_run (\<lambda>_. env0) (net_of [r, l]) es N' \<and> dag_at N' (7, addr_of 1) (Port 1 0) = Some d \<and> parent d \<noteq> None"
proof -
  let ?k = "(7 :: u8, addr_of 1)" and ?l = "conf_iface_at 2"
  obtain r l i d where s: "\<forall>n < 2. started env0 (example_sys n) (example_lua n) ([r, l] ! n)" and r: "r_ifaces r = [i]" "ifaddr_src i = Some (ll_addr_of 1)"
      "dag_table i ?k = Some d" "ifindex i \<noteq> 0" "\<forall>e \<in> ran (dag_table i). dao_fits e" and l: "r_ifaces l = [?l]" using example_net_started by (metis zero_less_numeral)
  let ?N = "net_of [r, l]"
  have N: "?N = [([i], r_world r), ([?l], r_world l)]" by (simp add: net_of_def r l)
  have p: "ports ?N = {Port 0 0, Port 1 0}" unfolding N by (rule two_ports)
  have at: "iface_at ?N (Port 0 0) = i" "iface_at ?N (Port (Suc 0) 0) = ?l" by (simp_all add: iface_at_def N)
  have leaf: "dag_table ?l k = None" "ifindex ?l = 3" "ifaddr_src ?l = Some (ll_addr_of 2)" for k
    by (simp_all add: conf_iface_at_def zero_iface_def dag_table_def lookup_key_def dag_lookup_def)
  have d: "dag_at ?N ?k x = (if x = Port 0 0 then Some d else None)" for x
    using p at r(3) leaf(1) by (auto simp: dag_at_def)
  have inj: "inj_on (src_at ?N) (ports ?N)" by (simp add: p src_at_def at r(2) leaf(3))
  have info: "\<forall>e \<in> ran (dag_at ?N ?k). dag_info e = dag_info d" by (auto simp: ran_def d)
  have env: "envs_ok (\<lambda>_. env0)" by (simp add: envs_ok_def)
  have st: "\<forall>n < length [r, l]. started env0 (example_sys n) (example_lua n) ([r, l] ! n)" using s by (simp add: numeral_2_eq_2)
  have conf: "configured ?N ?k (dag_info d)"
    by (rule started_configured [OF env _ inj _ info]) (use st p in auto)
  have "ran (dag_table ?l) = {}" by (simp add: ran_def leaf(1))
  then have join: "can_join ?N" unfolding N using r leaf(2,3) by (intro two_can_join) auto
  have ok: "net_ok ?N" using configured_inv [OF conf] by blast
  have x: "dag_at ?N ?k (Port 0 0) = Some d" "Port 1 0 \<in> ports ?N" "dag_at ?N ?k (Port 1 0) = None" by (simp_all add: d p)
  obtain es N' d' where run: "net_run (\<lambda>_. env0) ?N es N'" "dag_at N' ?k (Port 1 0) = Some d'" "joined_dag d (src_at ?N (Port 0 0)) d'"
    using network_join [OF env ok join x] by blast
  have "parent d' \<noteq> None" using run(3) by (simp add: joined_dag_def)
  moreover have "card (ports ?N) \<le> 65535" by (simp add: p)
  ultimately show ?thesis using st inj info run(1,2) by blast
qed

end
