(* ===== verification/Large_Dao.thy ===== *)
theory Large_Dao
  imports Network_Join Example_Node
begin

section \<open>A DAO that does not fit into the receiver's buffer\<close>

text \<open>
  The sender's buffer grows up to 64 KiB, the receiver's has 1500 bytes, and \<open>recv_rs_ra\<close> does
  not look whether the kernel has cut the message off. With 73 children a DAO is cut off
  within its last target, which the receiver reads all the same.
\<close>

declare dao_options.simps [simp del]

text \<open>The whole message, cut off at the size of the buffer.\<close>

lemma cut_off_message:
  assumes "wf_dag d" "73 \<le> length (childs d)"
  shows "\<exists>as b. take (MSG_SIZE_RECV - 4) (drop 4 (dao_message iid d)) =
      nd_rpl_daoack_bytes (dao_of_dag iid d) @ concat (map target_bytes as) @ take 16 (target_bytes b) \<and>
    length as = 73 \<and> (\<forall>a \<in> set as. wf_addr a) \<and> wf_addr b"
proof -
  let ?ts = "self d # map child_addr (childs d)"
  have wf: "\<forall>a \<in> set ?ts. wf_addr a" using assms(1) by (auto simp: wf_dag_def wf_child_def)
  define as b where ab: "as = take 73 ?ts" "b = ?ts ! 73"
  have lt: "73 < length ?ts" using assms(2) by simp
  have "?ts = as @ b # drop 74 ?ts" using id_take_nth_drop [OF lt] by (simp add: ab)
  then have "concat (map target_bytes ?ts) = concat (map target_bytes as) @ target_bytes b @ concat (map target_bytes (drop 74 ?ts))"
    by (metis concat.simps(2) concat_append list.simps(9) map_append)
  then have m: "drop 4 (dao_message iid d) = nd_rpl_daoack_bytes (dao_of_dag iid d) @ concat (map target_bytes as) @
      target_bytes b @ concat (map target_bytes (drop 74 ?ts))"
    unfolding dao_message_def by simp
  have as: "length as = 73" "\<forall>a \<in> set as. wf_addr a" "wf_addr b"
    using lt wf in_set_takeD [of _ 73 ?ts] nth_mem [OF lt] by (auto simp: ab simp del: list.set)
  have l: "length (nd_rpl_daoack_bytes (dao_of_dag iid d)) = 20" by (rule daoack.length_enc [OF dao_of_dag_wf [OF assms(1)]])
  have "length (target_bytes b) = 20" using as(3) by (simp add: target_bytes_def wf_addr_def)
  then have "take (MSG_SIZE_RECV - 4) (drop 4 (dao_message iid d)) =
      nd_rpl_daoack_bytes (dao_of_dag iid d) @ concat (map target_bytes as) @ take 16 (target_bytes b)"
    using l concat_targets_length [OF as(2)] as(1) unfolding m by (simp add: MSG_SIZE_RECV_def)
  then show ?thesis using as by blast
qed

lemma process_dao_cut_off:
  assumes "keys_inv i" "wf_dag d" "dag_table i (iid, dodagid d) = Some dr" "73 \<le> length (childs d)"
  shows "process_dao E i (take (MSG_SIZE_RECV - 4) (drop 4 (dao_message iid d))) (MSG_SIZE_RECV - 4) a w = Inl Out_of_bounds"
proof -
  let ?msg = "take (MSG_SIZE_RECV - 4) (drop 4 (dao_message iid d))" and ?h = "nd_rpl_daoack_bytes (dao_of_dag iid d)"
  obtain as b where m: "?msg = ?h @ concat (map target_bytes as) @ take 16 (target_bytes b)"
    and as: "length as = 73" "\<forall>a \<in> set as. wf_addr a" "wf_addr b"
    using cut_off_message [OF assms(2,4), of iid] by blast
  have h: "length ?h = 20" by (rule daoack.length_enc [OF dao_of_dag_wf [OF assms(2)]])
  have "take 20 (drop 4 (dao_message iid d) @ []) = ?h" using h by (simp add: dao_message_def)
  then have k: "dag_table i (dao_key (nd_rpl_dao_of ?h)) = Some dr"
    using dao_message_header [OF assms(2) refl, of iid "[]"] assms(3) by metis
  have b: "take 16 (target_bytes b) = [RPL_DAO_RPLTARGET, 18] @ drop 2 (take 16 (target_bytes b))"
    by (simp add: target_bytes_def)
  have "length (drop 2 (take 16 (target_bytes b))) < 18" by simp
  from dao_options_last_target(1) [OF as(2) _ _ _ this, of 16 18 ?msg ?h] m b as(1) h
  have "dao_options E ?msg a 20 (int (MSG_SIZE_RECV - 4 - 20)) dr w = Inl Out_of_bounds" by (simp add: MSG_SIZE_RECV_def)
  from process_dao_of_options(1) [OF assms(1) h k m _ this] show ?thesis by (simp add: MSG_SIZE_RECV_def)
qed

lemma cut_off_carries: "4 \<le> length m \<Longrightarrow> carries (delivered_as a ifi (take MSG_SIZE_RECV m)) (icmp_call i a dst m)"
  by (auto simp: carries_def delivered_as_def icmp_call_def MSG_SIZE_RECV_def min_def drop_take)

text \<open>What a packet that carries such a message leaves in the buffer.\<close>

lemma carries_large_dao:
  assumes "recv_wf r" "carries r (icmp_call j a dst (dao_message iid d))" "wf_dag d" "73 \<le> length (childs d)"
  shows "rm_len r = int MSG_SIZE_RECV" "drop 4 (rm_buf r) = take (MSG_SIZE_RECV - 4) (drop 4 (dao_message iid d))"
    "mem_u8 (rm_buf r) 0 = Inr ND_RPL_MESSAGE" "mem_u8 (rm_buf r) 1 = Inr ND_RPL_DAO"
proof -
  let ?m = "dao_message iid d"
  have "length ?m = 44 + 20 * length (childs d)"
    using assms(3) daoack.length_enc [OF dao_of_dag_wf [OF assms(3), of iid]]
      concat_targets_length [of "self d # map child_addr (childs d)"]
    by (auto simp: dao_message_def wf_dag_def wf_child_def)
  then show len: "rm_len r = int MSG_SIZE_RECV"
    using assms(2,4) by (simp add: carries_def icmp_call_def MSG_SIZE_RECV_def)
  then show "drop 4 (rm_buf r) = take (MSG_SIZE_RECV - 4) (drop 4 ?m)"
    using assms(1,2) by (simp add: carries_def icmp_call_def recv_wf_def)
  have "take 2 (rm_buf r) = [ND_RPL_MESSAGE, ND_RPL_DAO]"
    using assms(2) by (simp add: carries_def icmp_call_def dao_message_def)
  then have "take 2 (rm_buf r) ! 0 = ND_RPL_MESSAGE" "take 2 (rm_buf r) ! 1 = ND_RPL_DAO" by simp_all
  then show "mem_u8 (rm_buf r) 0 = Inr ND_RPL_MESSAGE" "mem_u8 (rm_buf r) 1 = Inr ND_RPL_DAO"
    using assms(1) by (simp_all add: mem_u8_def recv_wf_def MSG_SIZE_RECV_def)
qed

text \<open>
  C16: the DAO of a dag with 73 or more children is longer than the receiver's buffer of 1500
  bytes. The kernel cuts it off, \<open>recv_rs_ra\<close> does not look for that, and whatever node knows
  the dag reads beyond its buffer when the message arrives.
\<close>

theorem large_dao_overruns:
  assumes "state_ok is" "n < length is" "distinct (map ifindex is)" "dag_table (is ! n) (iid, dodagid d) = Some dr"
    "wf_dag d" "73 \<le> length (childs d)" "recv_wf r" "carries r (icmp_call j a dst (dao_message iid d))"
    "recv_rs_ra r = (rm_len r, h, Some (ifindex (is ! n)))"
  shows "icmpv6_cb E is r w = Inl Out_of_bounds"
proof -
  note r = carries_large_dao [OF assms(7,8,5,6)]
  have "keys_inv (is ! n)" using assms(1,2) by (simp add: state_ok_def iface_ok_def)
  note d = process_dao_cut_off [OF this assms(5,4,6), of E "rm_from r" w]
  have "process E is (rm_buf r) (rm_len r) (rm_from r) (Some (ifindex (is ! n))) w = Inl Out_of_bounds"
    using r d find_unique [OF assms(3,2)]
    by (simp add: process_def ND_RPL_DAO_def ND_RPL_DAG_IO_def ND_RPL_DAG_IS_def MSG_SIZE_RECV_def)
  then show ?thesis using assms(9) r(1) by (simp add: icmpv6_cb_def MSG_SIZE_RECV_def)
qed

theorem large_dao_overruns_witness:
  "icmpv6_cb env0 [root_node] (delivered_as (addr_of 3) 3 (take MSG_SIZE_RECV (dao_message 7 crowded_dag))) world0 =
     Inl Out_of_bounds"
proof -
  let ?m = "dao_message 7 crowded_dag" and ?r = "delivered_as (addr_of 3) 3 (take MSG_SIZE_RECV (dao_message 7 crowded_dag))"
  have "carries ?r (icmp_call crowded_node (addr_of 3) (addr_of 1) ?m)"
    by (rule cut_off_carries) (simp add: dao_message_def)
  moreover have "recv_wf ?r" by (simp add: delivered_as_wf)
  moreover have "recv_rs_ra ?r = (rm_len ?r, Some 255, Some 3)"
    using delivered_as_received [of 3 "addr_of 3" "take MSG_SIZE_RECV ?m"] by (simp add: delivered_as_def)
  moreover have "dag_table root_node (7, dodagid crowded_dag) = Some root_dag"
    by (simp add: crowded_dag_def leaf_dag_def fresh_dag_def)
  moreover have "state_ok [root_node]" by (simp add: state_ok_def)
  moreover have "ifindex root_node = 3" by (simp add: example_node_defs)
  ultimately show ?thesis
    using large_dao_overruns [of "[root_node]" 0 7 crowded_dag root_dag ?r crowded_node "addr_of 3" "addr_of 1" "Some 255" env0 world0]
      crowded_dag_wf by simp
qed

end
