(* ===== verification/Memory.thy ===== *)
theory Memory
  imports Daemon
begin

section \<open>The memory of the event loop\<close>

text \<open>
  The objects that hang off the interfaces (instances, dags, peers, children, pending
  acknowledgements), and that the callbacks keep the books: whatever a callback allocates and
  does not free is one of these objects, so buffers and other temporary memory never leak.
\<close>

subsection \<open>Definitions\<close>

definition dag_objects :: "dag \<Rightarrow> int" where
  "dag_objects d = 1 + (if parent d = None then 0 else 1) + int (length (childs d)) + int (length (pending_acks d))"

definition rpl_objects :: "rpl \<Rightarrow> int" where
  "rpl_objects r = 1 + sum_list (map dag_objects (dags r))"

definition iface_objects :: "iface \<Rightarrow> int" where
  "iface_objects i = sum_list (map rpl_objects (rpls i))"

definition objects :: "iface list \<Rightarrow> int" where
  "objects is = sum_list (map iface_objects is)"

text \<open>A piece of code that takes an interface and the world to new ones and keeps the books.\<close>

definition keeps_books :: "iface \<Rightarrow> world \<Rightarrow> iface \<Rightarrow> world \<Rightarrow> bool" where
  "keeps_books i w i' w' \<longleftrightarrow> w_live w' - iface_objects i' = w_live w - iface_objects i"

subsection \<open>Counting\<close>

lemma sum_list_upd: "k < length xs \<Longrightarrow> sum_list (map f (xs[k := x])) = sum_list (map f xs) + f x - (f (xs ! k) :: int)"
  by (induction xs arbitrary: k) (auto split: nat.splits)

lemma iface_objects_upd:
  assumes "valid_dag i p"
  shows "iface_objects (upd_dag i p f) = iface_objects i + dag_objects (f (get_dag i p)) - dag_objects (get_dag i p)"
  using assms by (simp add: iface_objects_def upd_dag_def valid_dag_def sum_list_upd rpl_objects_def get_dag_def)

lemma objects_upd: "k < length is \<Longrightarrow> objects (is[k := i]) = objects is + iface_objects i - iface_objects (is ! k)"
  by (simp add: objects_def sum_list_upd)

lemma keeps_books_refl [simp]: "keeps_books i w i w"
  by (simp add: keeps_books_def)

lemma keeps_books_trans: "keeps_books i w j v \<Longrightarrow> keeps_books j v k u \<Longrightarrow> keeps_books i w k u"
  by (simp add: keeps_books_def)

subsection \<open>The handlers\<close>

declare dao_options.simps [simp del]

lemma dag_create_books:
  assumes "keys_inv i" "dag_create E i iid did t rank ver (Some dst) w = Inr (Some p, i', w')"
  shows "keeps_books i w i' w'"
proof (cases "index_of instance_id (rpls i) iid")
  case None
  then have "dag_lookup_rpl (rpls i) iid = Inr None" using assms(1) rpl_list.lookup_live [of "rpls i" iid] by (simp add: keys_inv_def)
  then show ?thesis using assms(2)
    by (auto simp: dag_create_def dag_rpl_create_def dag_init_def dag_init_timer_def alloc_def Let_def keeps_books_def
        iface_objects_def rpl_objects_def dag_objects_def split: if_splits)
next
  case (Some k)
  have k: "k < length (rpls i)" using index_of_SomeD [OF Some] by blast
  have "dag_lookup_rpl (rpls i) iid = Inr (Some k)" using Some assms(1) rpl_list.lookup_live [of "rpls i" iid] by (simp add: keys_inv_def)
  then show ?thesis using assms(2) k
    by (auto simp: dag_create_def dag_init_def dag_init_timer_def alloc_def Let_def keeps_books_def
        iface_objects_def rpl_objects_def dag_objects_def sum_list_upd split: if_splits)
qed

lemma dio_find_books:
  assumes "memory_available E" "keys_inv i" "dio_find_dag E i dio msg n w = Inr (r, i', w')"
  shows "keeps_books i w i' w'"
  using dio_find_dag_spec [OF assms]
proof (elim disjE exE conjE)
  fix p assume r: "r = Inr p"
  show ?thesis using assms(3) r
    by (auto simp: dio_find_dag_def elim!: bind_resE split: option.splits if_splits sum.splits dest!: dag_create_books [OF assms(2)])
qed simp

lemma process_dio_books:
  assumes mem: "memory_available E" and junk: "length (stack_junk E) = 16" and ok: "iface_ok i"
    and from1: "wf_addr from1" and run: "process_dio E i msg len from1 w = Inr (ex, i', w')"
  shows "keeps_books i w i' w'"
  using run
proof (cases rule: process_dio_InrE)
  case (2 f i1 w1)
  let ?dio = "nd_rpl_dio_of (take 24 msg)"
  have inv: "keys_inv i" "ll_ok i" and src: "ifaddr_src i = Some (the (ifaddr_src i))"
    using ok by (auto simp: iface_ok_def)
  have b: "keeps_books i w i1 w1" by (rule dio_find_books [OF mem inv(1) 2(3)])
  show ?thesis
  proof (cases f)
    case (Inl a)
    then show ?thesis using 2(4) b by simp
  next
    case (Inr p)
    with dio_find_dag_spec [OF mem inv(1) 2(3)] have fd: "dio_found E i ?dio msg (len - 24) w p i1 w1" by auto
    have upd: "dio_update_dag E i1 p (ntohs (dio_dagrank ?dio)) from1 w1 = Inr (ex, i', w')" using 2(4) Inr by simp
    have k: "keys_inv i1" "lookup_key i1 (dio_key ?dio) = Inr (Some p)" using fd by (simp_all add: dio_found_def)
    then have p: "valid_dag i1 p" by (simp add: lookup_key_iff)
    have "keeps_books i1 w1 i' w'"
    proof (cases "ex = Dio_done")
      case False
      then show ?thesis using dio_update_not_done [OF mem p upd] by simp
    next
      case True
      have acc: "rank_accepted (get_dag i1 p) (ntohs (dio_dagrank ?dio))"
        using dio_update_rejected [of i1 p _ E from1 w1] upd True by force
      have "wf_addr (dio_dagid ?dio)" using 2(1) by (simp add: nd_rpl_dio_of_def wf_addr_def)
      then have wf: "wf_dag (get_dag i1 p)" using fd dio_subject_wf [OF _ junk ok] by (auto simp: dio_found_def)
      have ll: "ll_ok i1" "ifaddr_src i1 = Some (the (ifaddr_src i))" using inv(2) src dio_found_frame [OF fd] by (simp_all add: ll_ok_def)
      obtain a d' where d: "dio_result E (get_dag i1 p) from1 (ntohs (dio_dagrank ?dio)) a d'" "i' = upd_dag i1 p (\<lambda>_. d')"
        "w_live w' = w_live w1 + (if parent (get_dag i1 p) = None then 1 else 0) +
           (int (length (pending_acks d')) - int (length (pending_acks (get_dag i1 p))))"
        using dio_update_done [OF acc k wf from1 ll upd [unfolded True]] by blast
      have "parent d' \<noteq> None" "childs d' = childs (get_dag i1 p)"
        using d(1) by (auto simp: dio_result_def dao_sent_simps)
      then show ?thesis using d(2,3) p by (simp add: keeps_books_def iface_objects_upd dag_objects_def)
    qed
    then show ?thesis using b keeps_books_trans by blast
  qed
qed simp

lemma child_or_create_books:
  "dag_lookup_child_or_create E d addr from1 w = (c, d', w') \<Longrightarrow> w_live w' - dag_objects d' = w_live w - dag_objects d"
  by (auto simp: dag_lookup_child_or_create_def dag_child_create_def alloc_def dag_objects_def Let_def
      split: option.splits if_splits)

lemma dao_options_books:
  "dao_options E msg from1 off optlen d w = Inr (c, d', w') \<Longrightarrow> w_live w' - dag_objects d' = w_live w - dag_objects d"
proof (induction "nat optlen" arbitrary: off optlen d w rule: less_induct)
  case less
  show ?case
  proof (cases "2 \<le> optlen")
    case True
    then obtain o2 where o2: "mem_read msg off 2 = Inr o2"
      using less.prems by (auto simp: dao_options_step bind_res_Inr_iff)
    let ?off = "off + (2 + unat (opt_len (nd_rpl_opt_of o2)))" and ?len = "optlen - (2 + int (unat (opt_len (nd_rpl_opt_of o2))))"
    have lt: "nat ?len < nat optlen" using True by (simp del: of_nat_unat)
    show ?thesis
    proof (cases "opt_type (nd_rpl_opt_of o2) = RPL_DAO_RPLTARGET")
      case t: True
      from less.prems True t obtain addr where addr: "mem_read msg (off + 4) 16 = Inr addr"
        by (auto simp: dao_options_step o2 Let_def bind_res_Inr_iff simp del: of_nat_unat)
      obtain c1 d1 w1 where l: "dag_lookup_child_or_create E d addr from1 w = (c1, d1, w1)" by (metis prod_cases3)
      have "dao_options E msg from1 ?off ?len d1 w1 = Inr (c, d', w')"
        using less.prems True t addr l by (simp add: dao_options_step o2 Let_def)
      from less.hyps [OF lt this] child_or_create_books [OF l] show ?thesis by simp
    next
      case False
      then have "dao_options E msg from1 ?off ?len d w = Inr (c, d', w')"
        using less.prems True by (simp add: dao_options_step o2 Let_def)
      from less.hyps [OF lt this] show ?thesis .
    qed
  next
    case False
    then show ?thesis using less.prems by (cases "0 < optlen") (auto simp: dao_options_step)
  qed
qed

lemma process_dao_books:
  assumes ok: "iface_ok i" and from1: "wf_addr from1" and run: "process_dao E i msg len from1 w = Inr (ex, i', w')"
  shows "keeps_books i w i' w'"
proof (cases "20 \<le> len")
  case True
  let ?k = "dao_key (nd_rpl_dao_of (take 20 msg))"
  have inv: "keys_inv i" and src: "ifaddr_src i = Some (the (ifaddr_src i))" using ok by (auto simp: iface_ok_def)
  obtain f where f: "lookup_key i ?k = Inr f" using lookup_key_no_fault [OF inv] by blast
  from run True have rd: "mem_read msg 0 20 = Inr (take 20 msg)" by (auto simp: process_dao_def mem_read_def Let_def split: if_splits)
  show ?thesis
  proof (cases f)
    case None
    then show ?thesis using run True rd f by (simp add: process_dao_def Let_def lookup_key_def dao_key_def)
  next
    case (Some p)
    with f have k: "lookup_key i ?k = Inr (Some p)" by simp
    note kk = iface_ok_lookupD [OF ok k]
    let ?i = "\<lambda>d'. upd_dag i p (\<lambda>_. d')"
    have dl: "dag_lookup i (dao_instanceid (nd_rpl_dao_of (take 20 msg))) (dao_dagid (nd_rpl_dao_of (take 20 msg))) = Inr (Some p)"
      using k by (simp add: lookup_key_def dao_key_def)
    from run True rd dl obtain complete d' w1 where o: "dao_options E msg from1 20 (int (len - 20)) (get_dag i p) w = Inr (complete, d', w1)"
      and rest: "(if \<not> complete then Inr (Dao_opt_length_mismatch, ?i d', w1)
         else bind_res (send_dao_ack E (?i d') from1 p (add_child_routes E (ifindex i) (childs d') w1))
           (\<lambda>(i, w). Inr (Dao_done, i, w))) = Inr (ex, i', w')"
      unfolding process_dao_def Let_def by (auto elim!: bind_resE cong: if_cong)
    have b: "keeps_books i w (?i d') w1" using dao_options_books [OF o] kk(4) by (simp add: keeps_books_def iface_objects_upd)
    have "wf_dag d'" using dao_options_may_learn [OF o] wf_may_learn [OF _ kk(2) from1] by blast
    then have wf: "wf_addr (dodagid (get_dag (?i d') p))" using kk(4) by (simp add: wf_dag_def)
    have live: "\<not> rpl_freed (rpls (?i d') ! fst p)" "ifaddr_src (?i d') = Some (the (ifaddr_src i))" using kk(6) src by simp_all
    have w: "w_live (add_child_routes E (ifindex i) (childs d') w1) = w_live w1" using add_child_routes_trace by blast
    show ?thesis
    proof (cases complete)
      case True
      then have "send_dao_ack E (?i d') from1 p (add_child_routes E (ifindex i) (childs d') w1) = Inr (i', w')"
        using rest by (auto elim!: bind_resE)
      from send_dao_ack_InrD [OF this wf live] show ?thesis using b w by (simp add: keeps_books_def)
    qed (use rest b in simp)
  qed
qed (use run in \<open>simp add: process_dao_def\<close>)

lemma process_daoack_books:
  assumes "keys_inv i" "process_daoack E i msg len from1 w = Inr (ex, i', w')"
  shows "keeps_books i w i' w'"
  using assms nl_talk_world
  by (auto simp: process_daoack_def nl_add_route_default_def keeps_books_def split_def Let_def split: if_splits option.splits elim!: bind_resE)

lemma send_dio_books:
  assumes "memory_available E" "iface_ok i" "valid_dag i p" "send_dio E i p w = Inr (i', w')"
  shows "keeps_books i w i' w' \<and> iface_ok i' \<and> (\<forall>q. valid_dag i' q = valid_dag i q)"
proof -
  have inv: "keys_inv i" and src: "ifaddr_src i = Some (the (ifaddr_src i))" using assms(2) by (auto simp: iface_ok_def)
  note kk = iface_ok_lookupD [OF assms(2) dag_lookup_key [OF inv assms(3)]]
  have "i' = upd_dag i p bump_dtsn" "iface_ok i'" using send_dio_step [OF assms(1-3), of w] assms(4) by auto
  then show ?thesis using send_dio_InrD [OF assms(4) kk(2,6) src] assms(3)
    by (simp add: keeps_books_def iface_objects_upd dag_objects_def bump_dtsn_def)
qed

lemma send_dios_books:
  assumes "memory_available E"
  shows "send_dios E i ps w = Inr (i', w') \<Longrightarrow> iface_ok i \<Longrightarrow> \<forall>p \<in> set ps. valid_dag i p \<Longrightarrow> keeps_books i w i' w'"
proof (induction ps arbitrary: i w)
  case (Cons p ps)
  then obtain i1 w1 where "send_dio E i p w = Inr (i1, w1)" "send_dios E i1 ps w1 = Inr (i', w')" by (auto elim!: bind_resE)
  moreover from this(1) have b: "keeps_books i w i1 w1" "iface_ok i1" "\<forall>q. valid_dag i1 q = valid_dag i q"
    using send_dio_books [OF assms Cons.prems(2)] Cons.prems(3) by (meson list.set_intros(1))+
  moreover have "\<forall>q \<in> set ps. valid_dag i1 q" using Cons.prems(3) b(3) by (metis list.set_intros(2))
  ultimately have "keeps_books i1 w1 i' w'" using Cons.IH by blast
  then show ?case using b(1) keeps_books_trans by blast
qed simp

lemma process_dis_books:
  assumes "memory_available E" "iface_ok i" "process_dis E i msg len from1 w = Inr (i', w')"
  shows "keeps_books i w i' w'"
proof -
  have "send_dios E i (all_ptrs i) w = Inr (i', w')"
    using assms(3) dis_rpls_send_dios [OF assms(1,2)] by (simp add: process_dis_def all_ptrs_def)
  then show ?thesis by (rule send_dios_books [OF assms(1) _ assms(2)]) (simp add: all_ptrs_set)
qed

subsection \<open>The callbacks\<close>

lemma dispatch_books:
  assumes mem: "memory_available E" and junk: "length (stack_junk E) = 16" and ok: "state_ok is" and en: "enabled is e"
    and run: "dispatch E is e w = Inr (is', w')"
  shows "w_live w' - objects is' = w_live w - objects is"
proof -
  have i: "iface_ok (is ! k)" if "k < length is" for k using ok that by (simp add: state_ok_def)
  have fin: ?thesis if "k < length is" "is' = is[k := i']" "keeps_books (is ! k) w i' w'" for k i'
    using that by (simp add: keeps_books_def objects_upd)
  show ?thesis
  proof (cases e)
    case (Packet r)
    have from1: "wf_addr (rm_from r)" using en Packet by (simp add: enabled_def recv_wf_def)
    show ?thesis
    proof (cases "fst (recv_rs_ra r) > 0 \<and> snd (snd (recv_rs_ra r)) \<noteq> None")
      case True
      then obtain ex where "process E is (rm_buf r) (fst (recv_rs_ra r)) (rm_from r) (snd (snd (recv_rs_ra r))) w = Inr (ex, is', w')"
        using run Packet by (auto simp: dispatch_def icmpv6_cb_def split_def Let_def elim!: bind_resE)
      then show ?thesis
      proof (cases rule: process_InrE)
        case (2 k i')
        have "keeps_books (is ! k) w i' w'"
          using 2(5) process_dis_books [OF mem i [OF 2(1)]] process_dio_books [OF mem junk i [OF 2(1)] from1]
            process_dao_books [OF i [OF 2(1)] from1] process_daoack_books i [OF 2(1)] by (auto simp: iface_ok_def)
        then show ?thesis using fin 2(1,2) by blast
      qed simp
    next
      case False
      then show ?thesis using run Packet by (auto simp: dispatch_def icmpv6_cb_def split_def Let_def)
    qed
  next
    case (Trickle k p)
    then have k: "k < length is" "valid_dag (is ! k) p" using en by (auto simp: enabled_def)
    obtain i' where s: "send_dio E (is ! k) p w = Inr (i', w')" "is' = is[k := i']"
      using run Trickle by (auto simp: dispatch_def trickle_cb_def elim!: bind_resE)
    show ?thesis using fin [OF k(1) s(2)] send_dio_books [OF mem i [OF k(1)] k(2) s(1)] by blast
  next
    case (Dis_timer k)
    then have k: "k < length is" using en by (auto simp: enabled_def)
    let ?w = "emit (Ev_timer_stop (Dis_w (ifindex (is ! k)))) w"
    obtain i' where s: "send_dis E (is ! k) ?w = Inr (i', w')" "is' = is[k := i']"
      using run Dis_timer by (auto simp: dispatch_def send_dis_cb_def Let_def elim!: bind_resE)
    obtain src where "ifaddr_src (is ! k) = Some src" using i [OF k] by (auto simp: iface_ok_def)
    then show ?thesis using send_dis_Inr(1) [OF _ s(1)] fin [OF k s(2)] by (simp add: keeps_books_def)
  qed
qed

lemma run_books:
  assumes "daemon_run E s es t" "memory_available E" "length (stack_junk E) = 16" "state_ok (fst s)"
  shows "w_live (snd t) - objects (fst t) = w_live (snd s) - objects (fst s)"
  using assms
proof (induction rule: daemon_run.induct)
  case (Turn s es t e u)
  obtain "is" w is' w' where tu: "t = (is, w)" "u = (is', w')" by (metis surj_pair)
  have "state_ok is" using run_evolves [OF Turn.hyps(1) Turn.prems] tu by simp
  moreover have "enabled is e" "dispatch E is e w = Inr (is', w')" using Turn.hyps(2) tu by (auto simp: daemon_step_iff)
  ultimately have "w_live w' - objects is' = w_live w - objects is" by (rule dispatch_books [OF Turn.prems(1,2)])
  then show ?case using Turn tu by simp
qed simp

end
