(* ===== verification/Utlist_Dl.thy ===== *)
theory Utlist_Dl
  imports Utlist "HOL-Library.Multiset"
begin

section \<open>utlist.h: searching, replacing and inserting in doubly linked lists\<close>

text \<open>
  The other macros for doubly linked lists: the searches, the lower bound, insertion in
  order and the operations next to a given element. A comparison \<open>cmp(a, b)\<close> is a function
  of the two nodes. \<open>elt\<close> is \<open>NULL\<close> (\<open>None\<close>) where the macros allow it.
\<close>

subsection \<open>The macros\<close>

text \<open>Sequencing of loops with fuel: a run may end, fault, or not have ended.\<close>

definition bind_run :: "'a res option \<Rightarrow> ('a \<Rightarrow> 'b res option) \<Rightarrow> 'b res option" where
  "bind_run m f = (case m of None \<Rightarrow> None | Some (Inl e) \<Rightarrow> Some (Inl e) | Some (Inr x) \<Rightarrow> f x)"

text \<open>
  \<open>LL_SEARCH\<close> and \<open>LL_SEARCH_SCALAR\<close>, which \<open>DL_SEARCH\<close> and \<open>DL_SEARCH_SCALAR\<close> are names
  for: the loop of \<open>DL_FOREACH\<close>, left by \<open>break\<close>; \<open>out\<close> is \<open>NULL\<close> when it runs to its end.
\<close>

definition search_loop :: "nat \<Rightarrow> dl_heap \<Rightarrow> ptr option \<Rightarrow> (ptr \<Rightarrow> bool) \<Rightarrow> ptr option res option" where
  "search_loop fuel h head test =
     (case DL_FOREACH fuel h (\<lambda>out _. if test out then Inl out else Inr ()) head () of
        None \<Rightarrow> None
      | Some (Inl e) \<Rightarrow> Some (Inl e)
      | Some (Inr (Inl out)) \<Rightarrow> Some (Inr (Some out))
      | Some (Inr (Inr _)) \<Rightarrow> Some (Inr None))"

definition LL_SEARCH :: "nat \<Rightarrow> dl_heap \<Rightarrow> ptr option \<Rightarrow> ptr \<Rightarrow> (ptr \<Rightarrow> ptr \<Rightarrow> int) \<Rightarrow> ptr option res option" where
  "LL_SEARCH fuel h head elt cmp = search_loop fuel h head (\<lambda>out. cmp out elt = 0)"

definition LL_SEARCH_SCALAR :: "nat \<Rightarrow> dl_heap \<Rightarrow> ptr option \<Rightarrow> (ptr \<Rightarrow> 'v) \<Rightarrow> 'v \<Rightarrow> ptr option res option" where
  "LL_SEARCH_SCALAR fuel h head field val = search_loop fuel h head (\<lambda>out. field out = val)"

definition DL_SEARCH :: "nat \<Rightarrow> dl_heap \<Rightarrow> ptr option \<Rightarrow> ptr \<Rightarrow> (ptr \<Rightarrow> ptr \<Rightarrow> int) \<Rightarrow> ptr option res option" where
  "DL_SEARCH = LL_SEARCH"

definition DL_SEARCH_SCALAR :: "nat \<Rightarrow> dl_heap \<Rightarrow> ptr option \<Rightarrow> (ptr \<Rightarrow> 'v) \<Rightarrow> 'v \<Rightarrow> ptr option res option" where
  "DL_SEARCH_SCALAR = LL_SEARCH_SCALAR"

text \<open>
  The loop of the three \<open>LOWER_BOUND\<close> macros: it stops before \<open>stop\<close>, which is \<open>NULL\<close> for
  the lists that are not circular and the head for those that are.
\<close>

fun lower_bound_loop :: "nat \<Rightarrow> dl_heap \<Rightarrow> ptr option \<Rightarrow> ptr \<Rightarrow> (ptr \<Rightarrow> ptr \<Rightarrow> int) \<Rightarrow> ptr \<Rightarrow> ptr res option" where
  "lower_bound_loop 0 h stop like cmp elt = None"
| "lower_bound_loop (Suc fuel) h stop like cmp elt =
     (case load h (Some elt) of
        Inl e \<Rightarrow> Some (Inl e)
      | Inr n \<Rightarrow>
          (if dl_next n = stop then Some (Inr elt) else
           case dl_next n of
             None \<Rightarrow> Some (Inl Null_deref)
           | Some nx \<Rightarrow> (if cmp nx like \<ge> 0 then Some (Inr elt)
                         else lower_bound_loop fuel h stop like cmp nx)))"

definition lower_bound :: "nat \<Rightarrow> dl_heap \<Rightarrow> ptr option \<Rightarrow> ptr option \<Rightarrow> ptr \<Rightarrow> (ptr \<Rightarrow> ptr \<Rightarrow> int) \<Rightarrow> ptr option res option" where
  "lower_bound fuel h stop head like cmp =
     (case head of
        None \<Rightarrow> Some (Inr None)
      | Some a \<Rightarrow> (if cmp a like \<ge> 0 then Some (Inr None)
                   else map_option (map_sum id Some) (lower_bound_loop fuel h stop like cmp a)))"

definition DL_LOWER_BOUND :: "nat \<Rightarrow> dl_heap \<Rightarrow> ptr option \<Rightarrow> ptr \<Rightarrow> (ptr \<Rightarrow> ptr \<Rightarrow> int) \<Rightarrow> ptr option res option" where
  "DL_LOWER_BOUND fuel h head like cmp = lower_bound fuel h None head like cmp"

definition DL_REPLACE_ELEM :: "ptr option \<Rightarrow> ptr option \<Rightarrow> ptr option \<Rightarrow> dl_heap \<Rightarrow> (ptr option \<times> dl_heap) res" where
  "DL_REPLACE_ELEM head el add h =
     (if head = None \<or> el = None \<or> add = None then Inl Assert_failed else
      if head = el then
        bind_res (load h el) (\<lambda>e.
        bind_res (set_next h add (dl_next e)) (\<lambda>h.
        bind_res (load h el) (\<lambda>e.
        if dl_next e = None then bind_res (set_prev h add add) (\<lambda>h. Inr (add, h))
        else bind_res (set_prev h add (dl_prev e)) (\<lambda>h.
             bind_res (load h add) (\<lambda>a.
             bind_res (set_prev h (dl_next a) add) (\<lambda>h. Inr (add, h)))))))
      else
        bind_res (load h el) (\<lambda>e.
        bind_res (set_next h add (dl_next e)) (\<lambda>h.
        bind_res (load h el) (\<lambda>e.
        bind_res (set_prev h add (dl_prev e)) (\<lambda>h.
        bind_res (load h add) (\<lambda>a.
        bind_res (set_next h (dl_prev a) add) (\<lambda>h.
        bind_res (load h el) (\<lambda>e.
        if dl_next e = None then bind_res (set_prev h head add) (\<lambda>h. Inr (head, h))
        else bind_res (load h add) (\<lambda>a.
             bind_res (set_prev h (dl_next a) add) (\<lambda>h. Inr (head, h)))))))))))"

definition DL_PREPEND_ELEM :: "ptr option \<Rightarrow> ptr option \<Rightarrow> ptr option \<Rightarrow> dl_heap \<Rightarrow> (ptr option \<times> dl_heap) res" where
  "DL_PREPEND_ELEM head el add h =
     (if el \<noteq> None then
        if head = None \<or> add = None then Inl Assert_failed else
        bind_res (set_next h add el) (\<lambda>h.
        bind_res (load h el) (\<lambda>e.
        bind_res (set_prev h add (dl_prev e)) (\<lambda>h.
        bind_res (set_prev h el add) (\<lambda>h.
        if head = el then Inr (add, h)
        else bind_res (load h add) (\<lambda>a.
             bind_res (set_next h (dl_prev a) add) (\<lambda>h. Inr (head, h)))))))
      else DL_APPEND head add h)"

definition DL_APPEND_ELEM :: "ptr option \<Rightarrow> ptr option \<Rightarrow> ptr option \<Rightarrow> dl_heap \<Rightarrow> (ptr option \<times> dl_heap) res" where
  "DL_APPEND_ELEM head el add h =
     (if el \<noteq> None then
        if head = None \<or> add = None then Inl Assert_failed else
        bind_res (load h el) (\<lambda>e.
        bind_res (set_next h add (dl_next e)) (\<lambda>h.
        bind_res (set_prev h add el) (\<lambda>h.
        bind_res (set_next h el add) (\<lambda>h.
        bind_res (load h add) (\<lambda>a.
        if dl_next a \<noteq> None then bind_res (set_prev h (dl_next a) add) (\<lambda>h. Inr (head, h))
        else bind_res (set_prev h head add) (\<lambda>h. Inr (head, h)))))))
      else DL_PREPEND head add h)"

definition DL_INSERT_INORDER :: "nat \<Rightarrow> ptr option \<Rightarrow> ptr \<Rightarrow> (ptr \<Rightarrow> ptr \<Rightarrow> int) \<Rightarrow> dl_heap \<Rightarrow> (ptr option \<times> dl_heap) res option" where
  "DL_INSERT_INORDER fuel head add cmp h =
     (if head \<noteq> None then
        bind_run (DL_LOWER_BOUND fuel h head add cmp) (\<lambda>tmp. Some (DL_APPEND_ELEM head tmp (Some add) h))
      else Some (bind_res (set_prev h (Some add) (Some add)) (\<lambda>h.
                 bind_res (set_next h (Some add) None) (\<lambda>h. Inr (Some add, h)))))"

subsection \<open>Chains of next pointers\<close>

text \<open>\<open>nseg h xs nx\<close>: the \<open>next\<close> pointers lead through \<open>xs\<close> to \<open>nx\<close>; \<open>prev\<close> is free.\<close>

fun nseg :: "dl_heap \<Rightarrow> ptr list \<Rightarrow> ptr option \<Rightarrow> bool" where
  "nseg h [] nx \<longleftrightarrow> True"
| "nseg h (x # xs) nx \<longleftrightarrow> (\<exists>n. h x = Some n \<and> dl_next n = first_or xs nx) \<and> nseg h xs nx"

text \<open>The place of a new element: behind all that compare below it.\<close>

definition place :: "('a \<Rightarrow> 'a \<Rightarrow> int) \<Rightarrow> 'a \<Rightarrow> 'a list \<Rightarrow> 'a list" where
  "place cmp a xs = takeWhile (\<lambda>x. cmp x a < 0) xs @ a # dropWhile (\<lambda>x. cmp x a < 0) xs"

text \<open>Inserting node after node, as a program that fills an ordered list does; \<open>ins\<close> is the macro.\<close>

fun insert_each :: "(nat \<Rightarrow> ptr option \<Rightarrow> ptr \<Rightarrow> (ptr \<Rightarrow> ptr \<Rightarrow> int) \<Rightarrow> dl_heap \<Rightarrow> (ptr option \<times> dl_heap) res option)
    \<Rightarrow> nat \<Rightarrow> (ptr \<Rightarrow> ptr \<Rightarrow> int) \<Rightarrow> ptr list \<Rightarrow> ptr option \<times> dl_heap \<Rightarrow> (ptr option \<times> dl_heap) res option" where
  "insert_each ins fuel cmp [] s = Some (Inr s)"
| "insert_each ins fuel cmp (a # as) s =
     bind_run (ins fuel (fst s) a cmp (snd s)) (\<lambda>s. insert_each ins fuel cmp as s)"

text \<open>An operation that ends with a list of the nodes \<open>ys\<close> and leaves all other nodes alone.\<close>

definition yields :: "(dl_heap \<Rightarrow> ptr option \<Rightarrow> ptr list \<Rightarrow> bool) \<Rightarrow> dl_heap \<Rightarrow> (ptr option \<times> dl_heap) res option \<Rightarrow> ptr list \<Rightarrow> bool" where
  "yields repr h r ys \<longleftrightarrow> (\<exists>head' h'. r = Some (Inr (head', h')) \<and> repr h' head' ys \<and> (\<forall>p. p \<notin> set ys \<longrightarrow> h' p = h p))"

text \<open>A comparison function in the sense of \<open>qsort\<close>: a total preorder.\<close>

definition cmp_ok :: "('a \<Rightarrow> 'a \<Rightarrow> int) \<Rightarrow> bool" where
  "cmp_ok cmp \<longleftrightarrow> (\<forall>x y. cmp x y \<le> 0 \<longleftrightarrow> 0 \<le> cmp y x) \<and> (\<forall>x y z. cmp x y \<le> 0 \<longrightarrow> cmp y z \<le> 0 \<longrightarrow> cmp x z \<le> 0)"

definition ordered :: "('a \<Rightarrow> 'a \<Rightarrow> int) \<Rightarrow> 'a list \<Rightarrow> bool" where
  "ordered cmp = sorted_wrt (\<lambda>x y. cmp x y \<le> 0)"

subsection \<open>Lemmas\<close>

lemma bind_run_simps [simp]: "bind_run None f = None" "bind_run (Some (Inl e)) f = Some (Inl e)" "bind_run (Some (Inr x)) f = f x"
  by (simp_all add: bind_run_def)

lemma nseg_append [simp]: "nseg h (xs @ ys) nx \<longleftrightarrow> nseg h xs (first_or ys nx) \<and> nseg h ys nx"
  by (induction xs) auto

lemma nseg_upd [simp]: "a \<notin> set xs \<Longrightarrow> nseg (h(a := v)) xs nx = nseg h xs nx"
  by (induction xs) auto

lemma dseg_nseg: "dseg h pv xs nx \<Longrightarrow> nseg h xs nx"
  by (induction xs arbitrary: pv) auto

lemma dlist_nseg: "dlist h head xs \<Longrightarrow> nseg h xs None"
  by (cases "xs = []") (auto simp: dlist_def dest: dseg_nseg)

lemma search_loop_nseg:
  assumes "nseg h xs None" "length xs \<le> fuel"
  shows "search_loop fuel h (first_or xs None) test = Some (Inr (find test xs))"
proof -
  have "DL_FOREACH fuel h (\<lambda>out _. if test out then Inl out else Inr ()) (first_or xs None) () =
      Some (Inr (case find test xs of Some p \<Rightarrow> Inl p | None \<Rightarrow> Inr ()))"
    using assms
  proof (induction xs arbitrary: fuel)
    case (Cons x xs)
    then show ?case by (cases fuel) auto
  qed simp
  then show ?thesis by (simp add: search_loop_def split: option.splits)
qed

text \<open>The lower bound is the last element below the new one, if the list starts with such elements.\<close>

definition bound_of :: "ptr list \<Rightarrow> ptr option" where
  "bound_of xs = (if xs = [] then None else Some (last xs))"

lemma lower_bound_loop_nseg:
  assumes "nseg h (x # xs) stop" "stop \<notin> Some ` set xs" "length xs < fuel"
  shows "lower_bound_loop fuel h stop like cmp x = Some (Inr (last (x # takeWhile (\<lambda>x. cmp x like < 0) xs)))"
  using assms
proof (induction xs arbitrary: x fuel)
  case Nil
  then show ?case by (cases fuel) auto
next
  case (Cons y xs)
  obtain f where f: "fuel = Suc f" using Cons.prems(3) by (cases fuel) auto
  have "lower_bound_loop f h stop like cmp y = Some (Inr (last (y # takeWhile (\<lambda>x. cmp x like < 0) xs)))"
    using Cons.prems f by (intro Cons.IH) auto
  then show ?case using Cons.prems f by auto
qed

lemma lower_bound_nseg:
  assumes "nseg h xs stop" "stop \<notin> Some ` set (tl xs)" "length xs \<le> fuel"
  shows "lower_bound fuel h stop (first_or xs None) like cmp = Some (Inr (bound_of (takeWhile (\<lambda>x. cmp x like < 0) xs)))"
proof (cases xs)
  case (Cons x ys)
  then show ?thesis using lower_bound_loop_nseg [of h x ys stop fuel like cmp] assms
    by (auto simp: lower_bound_def bound_of_def)
qed (simp add: lower_bound_def bound_of_def)

lemma DL_APPEND_ELEM_dlist:
  assumes "dlist h head (xs @ ys)" "add \<notin> set (xs @ ys)" "add \<in> dom h"
  shows "\<exists>head' h'. DL_APPEND_ELEM head (bound_of xs) (Some add) h = Inr (head', h') \<and> dlist h' head' (xs @ add # ys) \<and>
    (\<forall>p. p \<notin> set (xs @ add # ys) \<longrightarrow> h' p = h p)"
proof (cases xs rule: rev_cases)
  case Nil
  then show ?thesis using DL_PREPEND_dlist [of h head ys add] assms by (simp add: bound_of_def DL_APPEND_ELEM_def)
next
  case (snoc us u)
  with assms show ?thesis
    by (cases ys rule: list_cases3; cases us) (auto simp: bound_of_def DL_APPEND_ELEM_def dl_defs dlist_def)
qed

lemma DL_PREPEND_ELEM_dlist:
  assumes "dlist h head (xs @ ys)" "add \<notin> set (xs @ ys)" "add \<in> dom h"
  shows "\<exists>head' h'. DL_PREPEND_ELEM head (first_or ys None) (Some add) h = Inr (head', h') \<and> dlist h' head' (xs @ add # ys) \<and>
    (\<forall>p. p \<notin> set (xs @ add # ys) \<longrightarrow> h' p = h p)"
proof (cases ys)
  case Nil
  then show ?thesis using DL_APPEND_dlist [of h head xs add] assms by (simp add: DL_PREPEND_ELEM_def)
next
  case (Cons y zs)
  with assms show ?thesis
    by (cases xs rule: list_cases3; cases zs rule: rev_cases) (auto simp: DL_PREPEND_ELEM_def dl_defs dlist_def)
qed

lemma DL_REPLACE_ELEM_dlist:
  assumes "dlist h head (xs @ el # ys)" "add \<notin> set (xs @ el # ys)" "add \<in> dom h"
  shows "\<exists>head' h'. DL_REPLACE_ELEM head (Some el) (Some add) h = Inr (head', h') \<and> dlist h' head' (xs @ add # ys) \<and>
    (\<forall>p. p \<notin> set (xs @ add # ys) \<longrightarrow> h' p = h p)"
  using assms
  by (cases xs rule: list_cases3; cases ys rule: list_cases3) (auto simp: DL_REPLACE_ELEM_def dl_defs dlist_def)

lemma DL_INSERT_INORDER_dlist:
  assumes "dlist h head xs" "add \<notin> set xs" "add \<in> dom h" "length xs \<le> fuel"
  shows "\<exists>head' h'. DL_INSERT_INORDER fuel head add cmp h = Some (Inr (head', h')) \<and> dlist h' head' (place cmp add xs) \<and>
    (\<forall>p. p \<notin> set (add # xs) \<longrightarrow> h' p = h p)"
proof (cases "xs = []")
  case True
  with assms show ?thesis by (auto simp: DL_INSERT_INORDER_def dl_defs dlist_def place_def)
next
  case False
  let ?ys = "takeWhile (\<lambda>x. cmp x add < 0) xs" and ?zs = "dropWhile (\<lambda>x. cmp x add < 0) xs"
  have head: "head = first_or xs None" "head \<noteq> None" using assms(1) False by (auto simp: dlist_def)
  have b: "DL_LOWER_BOUND fuel h head add cmp = Some (Inr (bound_of ?ys))"
    unfolding DL_LOWER_BOUND_def head(1) by (rule lower_bound_nseg) (use assms dlist_nseg in auto)
  have s: "set (?ys @ add # ?zs) = set (add # xs)" by (metis (no_types) Un_insert_right list.simps(15) set_append takeWhile_dropWhile_id)
  show ?thesis
    using DL_APPEND_ELEM_dlist [of h head ?ys ?zs add] assms head(2) b s
    by (auto simp: DL_INSERT_INORDER_def place_def simp del: set_append)
qed

lemma place_perm: "mset (place cmp a xs) = add_mset a (mset xs)" "set (place cmp a xs) = insert a (set xs)"
proof -
  have "mset (takeWhile P xs) + mset (dropWhile P xs) = mset xs" for P by (metis mset_append takeWhile_dropWhile_id)
  then show "mset (place cmp a xs) = add_mset a (mset xs)" by (simp add: place_def)
  then show "set (place cmp a xs) = insert a (set xs)" by (metis set_mset_add_mset_insert set_mset_mset)
qed

lemma place_ordered:
  assumes "cmp_ok cmp" "ordered cmp xs"
  shows "ordered cmp (place cmp a xs)"
proof -
  let ?P = "\<lambda>x. cmp x a < 0"
  have x: "ordered cmp (takeWhile ?P xs @ dropWhile ?P xs)" using assms(2) by simp
  have low: "cmp x a \<le> 0" if "x \<in> set (takeWhile ?P xs)" for x using set_takeWhileD [OF that] by simp
  have high: "cmp a x \<le> 0" if "x \<in> set (dropWhile ?P xs)" for x
  proof (cases "dropWhile ?P xs")
    case (Cons d ds)
    have d: "0 \<le> cmp d a" using hd_dropWhile [of ?P xs] Cons by simp
    then have "cmp a d \<le> 0" using assms(1) by (auto simp: cmp_ok_def)
    moreover have "x = d \<or> cmp d x \<le> 0" using x that Cons by (auto simp: ordered_def sorted_wrt_append)
    ultimately show ?thesis using assms(1) unfolding cmp_ok_def by blast
  next
    case Nil
    then show ?thesis using that by (metis empty_iff list.set(1))
  qed
  have "cmp x y \<le> 0" if "x \<in> set (takeWhile ?P xs)" "y \<in> set (dropWhile ?P xs)" for x y
    using low [OF that(1)] high [OF that(2)] assms(1) unfolding cmp_ok_def by blast
  moreover have "sorted_wrt (\<lambda>x y. cmp x y \<le> 0) (takeWhile ?P xs)" "sorted_wrt (\<lambda>x y. cmp x y \<le> 0) (dropWhile ?P xs)"
    using x [unfolded ordered_def sorted_wrt_append] by blast+
  ultimately show ?thesis using low high unfolding place_def ordered_def by (auto simp: sorted_wrt_append)
qed

subsection \<open>The interface: a list kept in order\<close>

text \<open>
  The contract of insertion in order for its clients, the same for the three kinds of
  lists: the node is placed behind the smaller ones, given as many turns as there are nodes.
\<close>

locale inorder_list =
  fixes repr :: "dl_heap \<Rightarrow> ptr option \<Rightarrow> ptr list \<Rightarrow> bool"
    and insert :: "nat \<Rightarrow> ptr option \<Rightarrow> ptr \<Rightarrow> (ptr \<Rightarrow> ptr \<Rightarrow> int) \<Rightarrow> dl_heap \<Rightarrow> (ptr option \<times> dl_heap) res option"
  assumes repr_empty: "repr h None []"
    and repr_insert: "repr h q xs \<Longrightarrow> a \<notin> set xs \<Longrightarrow> a \<in> dom h \<Longrightarrow> length xs \<le> fuel \<Longrightarrow>
      \<exists>q' h'. insert fuel q a cmp h = Some (Inr (q', h')) \<and> repr h' q' (place cmp a xs) \<and>
        (\<forall>p. p \<notin> set (a # xs) \<longrightarrow> h' p = h p)"
begin

lemma insert_each_places:
  assumes "repr h q xs" "distinct (as @ xs)" "set as \<subseteq> dom h" "length xs + length as \<le> fuel"
  shows "\<exists>q' h'. insert_each insert fuel cmp as (q, h) = Some (Inr (q', h')) \<and> repr h' q' (fold (place cmp) as xs)"
  using assms
proof (induction as arbitrary: h q xs)
  case (Cons a as)
  obtain q1 h1 where 1: "insert fuel q a cmp h = Some (Inr (q1, h1))" "repr h1 q1 (place cmp a xs)"
      "\<forall>p. p \<notin> set (a # xs) \<longrightarrow> h1 p = h p"
    using repr_insert [of h q xs a fuel cmp] Cons.prems by auto
  have d: "distinct (as @ place cmp a xs)"
    using Cons.prems(2) place_perm [of cmp a xs] by (auto simp: distinct_append) (metis distinct.simps(2) mset.simps(2) mset_eq_imp_distinct_iff)
  have "h1 p = h p" if "p \<in> set as" for p using 1(3) Cons.prems(2) that by auto
  then have "set as \<subseteq> dom h1" using Cons.prems(3) by (auto simp: dom_def)
  moreover have "length (place cmp a xs) = Suc (length xs)" using place_perm(1) [of cmp a xs] by (metis size_mset size_add_mset)
  ultimately show ?case using Cons.IH [OF 1(2) d] Cons.prems(4) 1(1) by simp
qed simp

lemma insert_each_sorts:
  assumes "cmp_ok cmp" "distinct as" "set as \<subseteq> dom h" "length as \<le> fuel"
  shows "\<exists>q h' ys. insert_each insert fuel cmp as (None, h) = Some (Inr (q, h')) \<and> repr h' q ys \<and> ordered cmp ys \<and> mset ys = mset as"
proof -
  have f: "ordered cmp xs \<Longrightarrow> ordered cmp (fold (place cmp) as xs) \<and> mset (fold (place cmp) as xs) = mset as + mset xs" for xs
    by (induction as arbitrary: xs) (auto simp: place_ordered [OF assms(1)] place_perm)
  show ?thesis using insert_each_places [OF repr_empty, of as h fuel cmp] f [of "[]"] assms(2-4) by (auto simp: ordered_def)
qed

end

interpretation dl_inorder: inorder_list dlist DL_INSERT_INORDER
  by unfold_locales (simp, rule DL_INSERT_INORDER_dlist)

subsection \<open>Properties\<close>

text \<open>
  C22: the operations at an element of a doubly linked list, wherever it stands: \<open>DL_DELETE\<close>
  removes it, \<open>DL_REPLACE_ELEM\<close> puts a new node in its place, \<open>DL_PREPEND_ELEM\<close> and
  \<open>DL_APPEND_ELEM\<close> put it before and behind it. The other nodes keep their order, the result
  is again a list with both directions linked, and nodes outside of it are not touched.
\<close>

theorem dl_elem_macros:
  assumes "dlist h head (xs @ el # ys)" "add \<notin> set (xs @ el # ys)" "add \<in> dom h"
  shows "yields dlist h (Some (DL_DELETE head (Some el) h)) (xs @ ys) \<and>
    yields dlist h (Some (DL_REPLACE_ELEM head (Some el) (Some add) h)) (xs @ add # ys) \<and>
    yields dlist h (Some (DL_PREPEND_ELEM head (Some el) (Some add) h)) (xs @ add # el # ys) \<and>
    yields dlist h (Some (DL_APPEND_ELEM head (Some el) (Some add) h)) (xs @ el # add # ys)"
  using DL_DELETE_dlist [OF assms(1)] DL_REPLACE_ELEM_dlist [OF assms]
    DL_PREPEND_ELEM_dlist [of h head xs "el # ys" add] DL_APPEND_ELEM_dlist [of h head "xs @ [el]" ys add] assms
  by (simp add: yields_def bound_of_def)

theorem dl_elem_macros_witness:
  "\<exists>head' h'. DL_REPLACE_ELEM (Some 4) (Some 7) (Some 9) [4 \<mapsto> \<lparr>dl_prev = Some 7, dl_next = Some 7\<rparr>,
      7 \<mapsto> \<lparr>dl_prev = Some 4, dl_next = None\<rparr>, 9 \<mapsto> \<lparr>dl_prev = None, dl_next = None\<rparr>] = Inr (head', h') \<and> dlist h' head' [4, 9]"
  using dl_elem_macros [of "[4 \<mapsto> \<lparr>dl_prev = Some 7, dl_next = Some 7\<rparr>, 7 \<mapsto> \<lparr>dl_prev = Some 4, dl_next = None\<rparr>,
      9 \<mapsto> \<lparr>dl_prev = None, dl_next = None\<rparr>]" "Some 4" "[4]" 7 "[]" 9]
  by (auto simp: yields_def dlist_def)

end
