(* ===== verification/Utlist_Ll.thy ===== *)
theory Utlist_Ll
  imports Utlist_Dl
begin

section \<open>utlist.h: singly linked lists\<close>

text \<open>
  The macros for singly linked lists, on the same heap: only \<open>next\<close> is read and written, and
  \<open>prev\<close> of a node is whatever it is. The list ends with \<open>NULL\<close>; its last element, or the
  element before a given one, is found by walking from the head, for which the fuel is.
\<close>

subsection \<open>The macros\<close>

definition LL_PREPEND :: "ptr option \<Rightarrow> ptr option \<Rightarrow> dl_heap \<Rightarrow> (ptr option \<times> dl_heap) res" where
  "LL_PREPEND head add h = bind_res (set_next h add head) (\<lambda>h. Inr (add, h))"

text \<open>\<open>while (_tmp->next) { _tmp = _tmp->next; }\<close>\<close>

fun ll_last :: "nat \<Rightarrow> dl_heap \<Rightarrow> ptr \<Rightarrow> ptr res option" where
  "ll_last 0 h tmp = None"
| "ll_last (Suc fuel) h tmp =
     (case load h (Some tmp) of
        Inl e \<Rightarrow> Some (Inl e)
      | Inr n \<Rightarrow> (case dl_next n of None \<Rightarrow> Some (Inr tmp) | Some nx \<Rightarrow> ll_last fuel h nx))"

text \<open>\<open>while (_tmp->next && (_tmp->next != (el))) { _tmp = _tmp->next; }\<close>\<close>

fun ll_before :: "nat \<Rightarrow> dl_heap \<Rightarrow> ptr option \<Rightarrow> ptr \<Rightarrow> ptr res option" where
  "ll_before 0 h el tmp = None"
| "ll_before (Suc fuel) h el tmp =
     (case load h (Some tmp) of
        Inl e \<Rightarrow> Some (Inl e)
      | Inr n \<Rightarrow> (case dl_next n of
                    None \<Rightarrow> Some (Inr tmp)
                  | Some nx \<Rightarrow> (if Some nx \<noteq> el then ll_before fuel h el nx else Some (Inr tmp))))"

definition LL_CONCAT :: "nat \<Rightarrow> ptr option \<Rightarrow> ptr option \<Rightarrow> dl_heap \<Rightarrow> (ptr option \<times> dl_heap) res option" where
  "LL_CONCAT fuel head1 head2 h =
     (case head1 of
        Some a \<Rightarrow> bind_run (ll_last fuel h a) (\<lambda>tmp. Some (bind_res (set_next h (Some tmp) head2) (\<lambda>h. Inr (head1, h))))
      | None \<Rightarrow> Some (Inr (head2, h)))"

definition LL_APPEND :: "nat \<Rightarrow> ptr option \<Rightarrow> ptr option \<Rightarrow> dl_heap \<Rightarrow> (ptr option \<times> dl_heap) res option" where
  "LL_APPEND fuel head add h =
     bind_run (Some (set_next h add None)) (\<lambda>h.
     case head of
       Some a \<Rightarrow> bind_run (ll_last fuel h a) (\<lambda>tmp. Some (bind_res (set_next h (Some tmp) add) (\<lambda>h. Inr (head, h))))
     | None \<Rightarrow> Some (Inr (add, h)))"

definition LL_LOWER_BOUND :: "nat \<Rightarrow> dl_heap \<Rightarrow> ptr option \<Rightarrow> ptr \<Rightarrow> (ptr \<Rightarrow> ptr \<Rightarrow> int) \<Rightarrow> ptr option res option" where
  "LL_LOWER_BOUND fuel h head like cmp = lower_bound fuel h None head like cmp"

definition LL_DELETE :: "nat \<Rightarrow> ptr option \<Rightarrow> ptr option \<Rightarrow> dl_heap \<Rightarrow> (ptr option \<times> dl_heap) res option" where
  "LL_DELETE fuel head del h =
     (if head = del then Some (bind_res (load h head) (\<lambda>n. Inr (dl_next n, h)))
      else case head of
        None \<Rightarrow> Some (Inl Null_deref)
      | Some a \<Rightarrow>
          bind_run (ll_before fuel h del a) (\<lambda>tmp. Some (
          bind_res (load h (Some tmp)) (\<lambda>t.
          if dl_next t \<noteq> None
          then bind_res (load h del) (\<lambda>d. bind_res (set_next h (Some tmp) (dl_next d)) (\<lambda>h. Inr (head, h)))
          else Inr (head, h)))))"

text \<open>The \<open>for\<close> loops read as those for doubly linked lists do.\<close>

definition LL_FOREACH :: "nat \<Rightarrow> dl_heap \<Rightarrow> (ptr \<Rightarrow> 's \<Rightarrow> 'r + 's) \<Rightarrow> ptr option \<Rightarrow> 's \<Rightarrow> ('r + 's) res option" where
  "LL_FOREACH = DL_FOREACH"

definition LL_FOREACH_SAFE :: "nat \<Rightarrow> (ptr \<Rightarrow> ptr option \<times> dl_heap \<Rightarrow> (ptr option \<times> dl_heap) res)
    \<Rightarrow> ptr option \<Rightarrow> ptr option \<times> dl_heap \<Rightarrow> (ptr option \<times> dl_heap) res option" where
  "LL_FOREACH_SAFE = DL_FOREACH_SAFE"

definition LL_COUNT :: "nat \<Rightarrow> dl_heap \<Rightarrow> ptr option \<Rightarrow> nat res option" where
  "LL_COUNT fuel h head =
     (case LL_FOREACH fuel h (\<lambda>_ n. Inr (Suc n) :: unit + nat) head 0 of
        None \<Rightarrow> None
      | Some (Inl e) \<Rightarrow> Some (Inl e)
      | Some (Inr (Inl _)) \<Rightarrow> None
      | Some (Inr (Inr n)) \<Rightarrow> Some (Inr n))"

definition LL_REPLACE_ELEM :: "nat \<Rightarrow> ptr option \<Rightarrow> ptr option \<Rightarrow> ptr option \<Rightarrow> dl_heap \<Rightarrow> (ptr option \<times> dl_heap) res option" where
  "LL_REPLACE_ELEM fuel head el add h =
     (case head of
        None \<Rightarrow> Some (Inl Assert_failed)
      | Some a \<Rightarrow>
          (if el = None \<or> add = None then Some (Inl Assert_failed) else
           bind_run (Some (bind_res (load h el) (\<lambda>e. set_next h add (dl_next e)))) (\<lambda>h.
           if head = el then Some (Inr (add, h))
           else bind_run (ll_before fuel h el a) (\<lambda>tmp. Some (
                bind_res (load h (Some tmp)) (\<lambda>t.
                if dl_next t \<noteq> None then bind_res (set_next h (Some tmp) add) (\<lambda>h. Inr (head, h))
                else Inr (head, h)))))))"

definition LL_PREPEND_ELEM :: "nat \<Rightarrow> ptr option \<Rightarrow> ptr option \<Rightarrow> ptr option \<Rightarrow> dl_heap \<Rightarrow> (ptr option \<times> dl_heap) res option" where
  "LL_PREPEND_ELEM fuel head el add h =
     (if el \<noteq> None then
        (case head of
           None \<Rightarrow> Some (Inl Assert_failed)
         | Some a \<Rightarrow>
             (if add = None then Some (Inl Assert_failed) else
              bind_run (Some (set_next h add el)) (\<lambda>h.
              if head = el then Some (Inr (add, h))
              else bind_run (ll_before fuel h el a) (\<lambda>tmp. Some (
                   bind_res (load h (Some tmp)) (\<lambda>t.
                   if dl_next t \<noteq> None then bind_res (set_next h (Some tmp) add) (\<lambda>h. Inr (head, h))
                   else Inr (head, h)))))))
      else LL_APPEND fuel head add h)"

definition LL_APPEND_ELEM :: "ptr option \<Rightarrow> ptr option \<Rightarrow> ptr option \<Rightarrow> dl_heap \<Rightarrow> (ptr option \<times> dl_heap) res" where
  "LL_APPEND_ELEM head el add h =
     (if el \<noteq> None then
        if head = None \<or> add = None then Inl Assert_failed else
        bind_res (load h el) (\<lambda>e.
        bind_res (set_next h add (dl_next e)) (\<lambda>h.
        bind_res (set_next h el add) (\<lambda>h. Inr (head, h))))
      else LL_PREPEND head add h)"

definition LL_INSERT_INORDER :: "nat \<Rightarrow> ptr option \<Rightarrow> ptr \<Rightarrow> (ptr \<Rightarrow> ptr \<Rightarrow> int) \<Rightarrow> dl_heap \<Rightarrow> (ptr option \<times> dl_heap) res option" where
  "LL_INSERT_INORDER fuel head add cmp h =
     (if head \<noteq> None then
        bind_run (LL_LOWER_BOUND fuel h head add cmp) (\<lambda>tmp. Some (LL_APPEND_ELEM head tmp (Some add) h))
      else Some (bind_res (set_next h (Some add) None) (\<lambda>h. Inr (Some add, h))))"

subsection \<open>Lists on the heap\<close>

definition llist :: "dl_heap \<Rightarrow> ptr option \<Rightarrow> ptr list \<Rightarrow> bool" where
  "llist h head xs \<longleftrightarrow> distinct xs \<and> head = first_or xs None \<and> nseg h xs None"

subsection \<open>Lemmas\<close>

lemma llist_Nil [simp]: "llist h head [] \<longleftrightarrow> head = None"
  by (auto simp: llist_def)

lemma ll_last_nseg: "nseg h (x # xs) None \<Longrightarrow> length xs < fuel \<Longrightarrow> ll_last fuel h x = Some (Inr (last (x # xs)))"
proof (induction xs arbitrary: x fuel)
  case Nil
  then show ?case by (cases fuel) auto
next
  case (Cons y xs)
  then show ?case by (cases fuel) auto
qed

lemma ll_before_nseg:
  "nseg h (x # xs @ [y]) (Some el) \<Longrightarrow> el \<notin> set (xs @ [y]) \<Longrightarrow> Suc (length xs) < fuel \<Longrightarrow>
   ll_before fuel h (Some el) x = Some (Inr y)"
proof (induction xs arbitrary: x fuel)
  case Nil
  obtain f where f: "fuel = Suc (Suc f)" using Nil.prems(3) by (cases fuel; cases "fuel - 1") auto
  show ?case using Nil.prems by (auto simp: f)
next
  case (Cons z xs)
  then show ?case by (cases fuel) auto
qed

lemma ll_before_head: "nseg h [x] (Some el) \<Longrightarrow> 0 < fuel \<Longrightarrow> ll_before fuel h (Some el) x = Some (Inr x)"
  by (cases fuel) auto

text \<open>The element before \<open>el\<close>, wherever it is.\<close>

lemma ll_before_llist:
  assumes "nseg h (us @ [u]) (Some el)" "el \<notin> set (us @ [u])" "length us < fuel"
  shows "ll_before fuel h (Some el) (hd (us @ [u])) = Some (Inr u)"
proof (cases us)
  case (Cons x xs)
  then show ?thesis using assms ll_before_nseg [of h x xs u el fuel] by simp
qed (use assms ll_before_head in simp)

lemma LL_PREPEND_llist:
  assumes "llist h head xs" "add \<notin> set xs" "add \<in> dom h"
  shows "\<exists>head' h'. LL_PREPEND head (Some add) h = Inr (head', h') \<and> llist h' head' (add # xs) \<and>
    (\<forall>p. p \<notin> set (add # xs) \<longrightarrow> h' p = h p)"
  using assms by (auto simp: LL_PREPEND_def dl_defs llist_def)

lemma LL_CONCAT_llist:
  assumes "llist h head1 xs" "llist h head2 ys" "set xs \<inter> set ys = {}" "length xs \<le> fuel"
  shows "\<exists>head' h'. LL_CONCAT fuel head1 head2 h = Some (Inr (head', h')) \<and> llist h' head' (xs @ ys) \<and>
    (\<forall>p. p \<notin> set (xs @ ys) \<longrightarrow> h' p = h p)"
proof (cases xs rule: list_cases3)
  case 1
  then show ?thesis using assms by (auto simp: LL_CONCAT_def)
next
  case (2 x)
  then show ?thesis using assms ll_last_nseg [of h x "[]" fuel] by (auto simp: LL_CONCAT_def dl_defs llist_def)
next
  case (3 x ms l)
  then show ?thesis using assms ll_last_nseg [of h x "ms @ [l]" fuel] by (auto simp: LL_CONCAT_def dl_defs llist_def)
qed

lemma LL_APPEND_llist:
  assumes "llist h head xs" "add \<notin> set xs" "add \<in> dom h" "length xs \<le> fuel"
  shows "\<exists>head' h'. LL_APPEND fuel head (Some add) h = Some (Inr (head', h')) \<and> llist h' head' (xs @ [add]) \<and>
    (\<forall>p. p \<notin> set (xs @ [add]) \<longrightarrow> h' p = h p)"
proof -
  from assms(3) obtain n where n: "h add = Some n" by blast
  let ?h = "h(add \<mapsto> n\<lparr>dl_next := None\<rparr>)"
  show ?thesis
  proof (cases xs rule: list_cases3)
    case 1
    then show ?thesis using assms n by (auto simp: LL_APPEND_def dl_defs llist_def)
  next
    case (2 x)
    then show ?thesis using assms n ll_last_nseg [of ?h x "[]" fuel] by (auto simp: LL_APPEND_def dl_defs llist_def)
  next
    case (3 x ms l)
    then show ?thesis using assms n ll_last_nseg [of ?h x "ms @ [l]" fuel] by (auto simp: LL_APPEND_def dl_defs llist_def)
  qed
qed

lemma LL_DELETE_llist:
  assumes "llist h head (xs @ del # ys)" "length xs \<le> fuel"
  shows "\<exists>head' h'. LL_DELETE fuel head (Some del) h = Some (Inr (head', h')) \<and> llist h' head' (xs @ ys) \<and>
    (\<forall>p. p \<notin> set (xs @ ys) \<longrightarrow> h' p = h p)"
proof (cases xs rule: rev_cases)
  case Nil
  then show ?thesis using assms by (auto simp: LL_DELETE_def llist_def)
next
  case (snoc us u)
  have "ll_before fuel h (Some del) (hd (us @ [u])) = Some (Inr u)"
    using assms snoc by (intro ll_before_llist) (auto simp: llist_def)
  then show ?thesis using assms snoc by (cases us) (auto simp: LL_DELETE_def dl_defs llist_def)
qed

lemma LL_REPLACE_ELEM_llist:
  assumes "llist h head (xs @ el # ys)" "add \<notin> set (xs @ el # ys)" "add \<in> dom h" "length xs \<le> fuel"
  shows "\<exists>head' h'. LL_REPLACE_ELEM fuel head (Some el) (Some add) h = Some (Inr (head', h')) \<and> llist h' head' (xs @ add # ys) \<and>
    (\<forall>p. p \<notin> set (xs @ add # ys) \<longrightarrow> h' p = h p)"
proof (cases xs rule: rev_cases)
  case Nil
  then show ?thesis using assms by (auto simp: LL_REPLACE_ELEM_def dl_defs llist_def)
next
  case (snoc us u)
  from assms(3) obtain n where n: "h add = Some n" by blast
  have "ll_before fuel (h(add \<mapsto> n\<lparr>dl_next := first_or ys None\<rparr>)) (Some el) (hd (us @ [u])) = Some (Inr u)"
    using assms snoc by (intro ll_before_llist) (auto simp: llist_def)
  then show ?thesis using assms snoc n by (cases us) (auto simp: LL_REPLACE_ELEM_def dl_defs llist_def)
qed

lemma LL_PREPEND_ELEM_llist:
  assumes "llist h head (xs @ ys)" "add \<notin> set (xs @ ys)" "add \<in> dom h" "length xs \<le> fuel"
  shows "\<exists>head' h'. LL_PREPEND_ELEM fuel head (first_or ys None) (Some add) h = Some (Inr (head', h')) \<and>
    llist h' head' (xs @ add # ys) \<and> (\<forall>p. p \<notin> set (xs @ add # ys) \<longrightarrow> h' p = h p)"
proof (cases ys)
  case Nil
  then show ?thesis using LL_APPEND_llist [of h head xs add fuel] assms by (simp add: LL_PREPEND_ELEM_def)
next
  case (Cons el zs)
  from assms(3) obtain n where n: "h add = Some n" by blast
  show ?thesis
  proof (cases xs rule: rev_cases)
    case Nil
    then show ?thesis using assms Cons n by (auto simp: LL_PREPEND_ELEM_def dl_defs llist_def)
  next
    case (snoc us u)
    have "ll_before fuel (h(add \<mapsto> n\<lparr>dl_next := Some el\<rparr>)) (Some el) (hd (us @ [u])) = Some (Inr u)"
      using assms snoc Cons by (intro ll_before_llist) (auto simp: llist_def)
    then show ?thesis using assms snoc Cons n by (cases us) (auto simp: LL_PREPEND_ELEM_def dl_defs llist_def)
  qed
qed

lemma LL_APPEND_ELEM_llist:
  assumes "llist h head (xs @ ys)" "add \<notin> set (xs @ ys)" "add \<in> dom h"
  shows "\<exists>head' h'. LL_APPEND_ELEM head (bound_of xs) (Some add) h = Inr (head', h') \<and> llist h' head' (xs @ add # ys) \<and>
    (\<forall>p. p \<notin> set (xs @ add # ys) \<longrightarrow> h' p = h p)"
proof (cases xs rule: rev_cases)
  case Nil
  then show ?thesis using LL_PREPEND_llist [of h head ys add] assms by (simp add: bound_of_def LL_APPEND_ELEM_def)
next
  case (snoc us u)
  with assms show ?thesis by (cases us) (auto simp: bound_of_def LL_APPEND_ELEM_def dl_defs llist_def)
qed

lemma LL_INSERT_INORDER_llist:
  assumes "llist h head xs" "add \<notin> set xs" "add \<in> dom h" "length xs \<le> fuel"
  shows "\<exists>head' h'. LL_INSERT_INORDER fuel head add cmp h = Some (Inr (head', h')) \<and> llist h' head' (place cmp add xs) \<and>
    (\<forall>p. p \<notin> set (add # xs) \<longrightarrow> h' p = h p)"
proof (cases "xs = []")
  case True
  with assms show ?thesis by (auto simp: LL_INSERT_INORDER_def dl_defs llist_def place_def)
next
  case False
  let ?ys = "takeWhile (\<lambda>x. cmp x add < 0) xs" and ?zs = "dropWhile (\<lambda>x. cmp x add < 0) xs"
  have head: "head = first_or xs None" "head \<noteq> None" using assms(1) False by (auto simp: llist_def)
  have b: "LL_LOWER_BOUND fuel h head add cmp = Some (Inr (bound_of ?ys))"
    unfolding LL_LOWER_BOUND_def head(1) by (rule lower_bound_nseg) (use assms in \<open>auto simp: llist_def\<close>)
  have s: "set (?ys @ add # ?zs) = set (add # xs)" using place_perm(2) [of cmp add xs] by (simp add: place_def)
  show ?thesis
    using LL_APPEND_ELEM_llist [of h head ?ys ?zs add] assms head(2) b s
    by (auto simp: LL_INSERT_INORDER_def place_def simp del: set_append)
qed

lemma LL_COUNT_llist: "llist h head xs \<Longrightarrow> length xs \<le> fuel \<Longrightarrow> LL_COUNT fuel h head = Some (Inr (length xs))"
proof -
  have f: "nseg h xs None \<Longrightarrow> length xs \<le> fuel \<Longrightarrow>
      DL_FOREACH fuel h (\<lambda>_ n. Inr (Suc n) :: unit + nat) (first_or xs None) m = Some (Inr (Inr (m + length xs)))" for xs fuel m
  proof (induction xs arbitrary: fuel m)
    case (Cons x xs)
    then show ?case by (cases fuel) auto
  qed simp
  show "llist h head xs \<Longrightarrow> length xs \<le> fuel \<Longrightarrow> LL_COUNT fuel h head = Some (Inr (length xs))"
    using f [of xs fuel 0] by (simp add: LL_COUNT_def LL_FOREACH_def llist_def)
qed

interpretation ll_inorder: inorder_list llist LL_INSERT_INORDER
  by unfold_locales (simp, rule LL_INSERT_INORDER_llist)

subsection \<open>Properties\<close>

text \<open>
  C23: the operations at an element of a singly linked list, wherever it stands: \<open>LL_DELETE\<close>
  removes it, \<open>LL_REPLACE_ELEM\<close> puts a new node in its place, \<open>LL_PREPEND_ELEM\<close> and
  \<open>LL_APPEND_ELEM\<close> put it before and behind it. The walk to the element before it ends within
  as many turns as there are nodes before it; the other nodes keep their order and nodes
  outside the list are not touched.
\<close>

theorem ll_elem_macros:
  assumes "llist h head (xs @ el # ys)" "add \<notin> set (xs @ el # ys)" "add \<in> dom h" "length xs \<le> fuel"
  shows "yields llist h (LL_DELETE fuel head (Some el) h) (xs @ ys) \<and>
    yields llist h (LL_REPLACE_ELEM fuel head (Some el) (Some add) h) (xs @ add # ys) \<and>
    yields llist h (LL_PREPEND_ELEM fuel head (Some el) (Some add) h) (xs @ add # el # ys) \<and>
    yields llist h (Some (LL_APPEND_ELEM head (Some el) (Some add) h)) (xs @ el # add # ys)"
  using LL_DELETE_llist [OF assms(1,4)] LL_REPLACE_ELEM_llist [OF assms]
    LL_PREPEND_ELEM_llist [of h head xs "el # ys" add fuel] LL_APPEND_ELEM_llist [of h head "xs @ [el]" ys add] assms
  by (simp add: yields_def bound_of_def)

theorem ll_elem_macros_witness:
  "\<exists>head' h'. LL_DELETE 1 (Some 4) (Some 7) [4 \<mapsto> \<lparr>dl_prev = None, dl_next = Some 7\<rparr>,
      7 \<mapsto> \<lparr>dl_prev = None, dl_next = None\<rparr>, 9 \<mapsto> \<lparr>dl_prev = None, dl_next = None\<rparr>] = Some (Inr (head', h')) \<and> llist h' head' [4]"
  using ll_elem_macros [of "[4 \<mapsto> \<lparr>dl_prev = None, dl_next = Some 7\<rparr>, 7 \<mapsto> \<lparr>dl_prev = None, dl_next = None\<rparr>,
      9 \<mapsto> \<lparr>dl_prev = None, dl_next = None\<rparr>]" "Some 4" "[4]" 7 "[]" 9 1]
  by (auto simp: yields_def llist_def)

end
