(* ===== verification/Utlist_Cdl.thy ===== *)
theory Utlist_Cdl
  imports Utlist_Dl
begin

section \<open>utlist.h: circular doubly linked lists\<close>

text \<open>
  The macros for circular lists: the last element's \<open>next\<close> is the head, the head's \<open>prev\<close> is
  the last element, and a walk ends when it comes back to the head.
\<close>

subsection \<open>The macros\<close>

definition CDL_APPEND :: "ptr option \<Rightarrow> ptr option \<Rightarrow> dl_heap \<Rightarrow> (ptr option \<times> dl_heap) res" where
  "CDL_APPEND head add h =
     (if head \<noteq> None
      then bind_res (load h head) (\<lambda>n.
           bind_res (set_prev h add (dl_prev n)) (\<lambda>h.
           bind_res (set_next h add head) (\<lambda>h.
           bind_res (set_prev h head add) (\<lambda>h.
           bind_res (load h add) (\<lambda>a.
           bind_res (set_next h (dl_prev a) add) (\<lambda>h. Inr (head, h)))))))
      else bind_res (set_prev h add add) (\<lambda>h.
           bind_res (set_next h add add) (\<lambda>h. Inr (add, h))))"

definition CDL_PREPEND :: "ptr option \<Rightarrow> ptr option \<Rightarrow> dl_heap \<Rightarrow> (ptr option \<times> dl_heap) res" where
  "CDL_PREPEND head add h =
     bind_res (if head \<noteq> None
      then bind_res (load h head) (\<lambda>n.
           bind_res (set_prev h add (dl_prev n)) (\<lambda>h.
           bind_res (set_next h add head) (\<lambda>h.
           bind_res (set_prev h head add) (\<lambda>h.
           bind_res (load h add) (\<lambda>a. set_next h (dl_prev a) add)))))
      else bind_res (set_prev h add add) (\<lambda>h. set_next h add add)) (\<lambda>h. Inr (add, h))"

definition CDL_LOWER_BOUND :: "nat \<Rightarrow> dl_heap \<Rightarrow> ptr option \<Rightarrow> ptr \<Rightarrow> (ptr \<Rightarrow> ptr \<Rightarrow> int) \<Rightarrow> ptr option res option" where
  "CDL_LOWER_BOUND fuel h head like cmp = lower_bound fuel h head head like cmp"

definition CDL_DELETE :: "ptr option \<Rightarrow> ptr option \<Rightarrow> dl_heap \<Rightarrow> (ptr option \<times> dl_heap) res" where
  "CDL_DELETE head del h =
     bind_res (if head = del then bind_res (load h head) (\<lambda>n. Inr (dl_next n = head)) else Inr False) (\<lambda>single.
     if single then Inr (None, h)
     else bind_res (load h del) (\<lambda>d.
          bind_res (set_prev h (dl_next d) (dl_prev d)) (\<lambda>h.
          bind_res (load h del) (\<lambda>d.
          bind_res (set_next h (dl_prev d) (dl_next d)) (\<lambda>h.
          if del = head then bind_res (load h del) (\<lambda>d. Inr (dl_next d, h))
          else Inr (head, h))))))"

text \<open>The loop reads \<open>head\<close> in every turn; the body of this one leaves it and the heap alone.\<close>

fun CDL_FOREACH :: "nat \<Rightarrow> dl_heap \<Rightarrow> ptr option \<Rightarrow> (ptr \<Rightarrow> 's \<Rightarrow> 'r + 's) \<Rightarrow> ptr option \<Rightarrow> 's \<Rightarrow> ('r + 's) res option"
where
  "CDL_FOREACH fuel h head body None s = Some (Inr (Inr s))"
| "CDL_FOREACH 0 h head body (Some el) s = None"
| "CDL_FOREACH (Suc fuel) h head body (Some el) s =
     (case body el s of
        Inl r \<Rightarrow> Some (Inr (Inl r))
      | Inr s' \<Rightarrow> (case load h (Some el) of
                    Inl e \<Rightarrow> Some (Inl e)
                  | Inr n \<Rightarrow> CDL_FOREACH fuel h head body (if dl_next n = head then None else dl_next n) s'))"

text \<open>\<open>CDL_FOREACH_SAFE\<close>: the last element \<open>tmp1\<close> is remembered, the successor \<open>tmp2\<close> is read before the body.\<close>

fun cdl_safe_loop :: "nat \<Rightarrow> (ptr \<Rightarrow> ptr option \<times> dl_heap \<Rightarrow> (ptr option \<times> dl_heap) res)
    \<Rightarrow> ptr option \<Rightarrow> ptr option \<Rightarrow> ptr option \<times> dl_heap \<Rightarrow> (ptr option \<times> dl_heap) res option" where
  "cdl_safe_loop fuel body tmp1 None s = Some (Inr s)"
| "cdl_safe_loop 0 body tmp1 (Some el) s = None"
| "cdl_safe_loop (Suc fuel) body tmp1 (Some el) s =
     (case load (snd s) (Some el) of
        Inl e \<Rightarrow> Some (Inl e)
      | Inr n \<Rightarrow> (case body el s of
                    Inl e \<Rightarrow> Some (Inl e)
                  | Inr s' \<Rightarrow> cdl_safe_loop fuel body tmp1 (if Some el = tmp1 then None else dl_next n) s'))"

definition CDL_FOREACH_SAFE :: "nat \<Rightarrow> (ptr \<Rightarrow> ptr option \<times> dl_heap \<Rightarrow> (ptr option \<times> dl_heap) res)
    \<Rightarrow> ptr option \<times> dl_heap \<Rightarrow> (ptr option \<times> dl_heap) res option" where
  "CDL_FOREACH_SAFE fuel body s =
     bind_run (Some (if fst s \<noteq> None then bind_res (load (snd s) (fst s)) (\<lambda>n. Inr (dl_prev n)) else Inr None)) (\<lambda>tmp1.
     cdl_safe_loop fuel body tmp1 (fst s) s)"

definition CDL_COUNT :: "nat \<Rightarrow> dl_heap \<Rightarrow> ptr option \<Rightarrow> nat res option" where
  "CDL_COUNT fuel h head =
     (case CDL_FOREACH fuel h head (\<lambda>_ n. Inr (Suc n) :: unit + nat) head 0 of
        None \<Rightarrow> None
      | Some (Inl e) \<Rightarrow> Some (Inl e)
      | Some (Inr (Inl _)) \<Rightarrow> None
      | Some (Inr (Inr n)) \<Rightarrow> Some (Inr n))"

definition cdl_search_loop :: "nat \<Rightarrow> dl_heap \<Rightarrow> ptr option \<Rightarrow> (ptr \<Rightarrow> bool) \<Rightarrow> ptr option res option" where
  "cdl_search_loop fuel h head test =
     (case CDL_FOREACH fuel h head (\<lambda>out _. if test out then Inl out else Inr ()) head () of
        None \<Rightarrow> None
      | Some (Inl e) \<Rightarrow> Some (Inl e)
      | Some (Inr (Inl out)) \<Rightarrow> Some (Inr (Some out))
      | Some (Inr (Inr _)) \<Rightarrow> Some (Inr None))"

definition CDL_SEARCH :: "nat \<Rightarrow> dl_heap \<Rightarrow> ptr option \<Rightarrow> ptr \<Rightarrow> (ptr \<Rightarrow> ptr \<Rightarrow> int) \<Rightarrow> ptr option res option" where
  "CDL_SEARCH fuel h head elt cmp = cdl_search_loop fuel h head (\<lambda>out. cmp out elt = 0)"

definition CDL_SEARCH_SCALAR :: "nat \<Rightarrow> dl_heap \<Rightarrow> ptr option \<Rightarrow> (ptr \<Rightarrow> 'v) \<Rightarrow> 'v \<Rightarrow> ptr option res option" where
  "CDL_SEARCH_SCALAR fuel h head field val = cdl_search_loop fuel h head (\<lambda>out. field out = val)"

definition CDL_REPLACE_ELEM :: "ptr option \<Rightarrow> ptr option \<Rightarrow> ptr option \<Rightarrow> dl_heap \<Rightarrow> (ptr option \<times> dl_heap) res" where
  "CDL_REPLACE_ELEM head el add h =
     (if head = None \<or> el = None \<or> add = None then Inl Assert_failed else
      bind_res (load h el) (\<lambda>e.
      if dl_next e = el then
        bind_res (set_next h add add) (\<lambda>h.
        bind_res (set_prev h add add) (\<lambda>h. Inr (add, h)))
      else
        bind_res (set_next h add (dl_next e)) (\<lambda>h.
        bind_res (load h el) (\<lambda>e.
        bind_res (set_prev h add (dl_prev e)) (\<lambda>h.
        bind_res (load h add) (\<lambda>a.
        bind_res (set_prev h (dl_next a) add) (\<lambda>h.
        bind_res (load h add) (\<lambda>a.
        bind_res (set_next h (dl_prev a) add) (\<lambda>h.
        Inr (if head = el then add else head, h))))))))))"

definition CDL_PREPEND_ELEM :: "ptr option \<Rightarrow> ptr option \<Rightarrow> ptr option \<Rightarrow> dl_heap \<Rightarrow> (ptr option \<times> dl_heap) res" where
  "CDL_PREPEND_ELEM head el add h =
     (if el \<noteq> None then
        if head = None \<or> add = None then Inl Assert_failed else
        bind_res (set_next h add el) (\<lambda>h.
        bind_res (load h el) (\<lambda>e.
        bind_res (set_prev h add (dl_prev e)) (\<lambda>h.
        bind_res (set_prev h el add) (\<lambda>h.
        bind_res (load h add) (\<lambda>a.
        bind_res (set_next h (dl_prev a) add) (\<lambda>h.
        Inr (if head = el then add else head, h)))))))
      else CDL_APPEND head add h)"

definition CDL_APPEND_ELEM :: "ptr option \<Rightarrow> ptr option \<Rightarrow> ptr option \<Rightarrow> dl_heap \<Rightarrow> (ptr option \<times> dl_heap) res" where
  "CDL_APPEND_ELEM head el add h =
     (if el \<noteq> None then
        if head = None \<or> add = None then Inl Assert_failed else
        bind_res (load h el) (\<lambda>e.
        bind_res (set_next h add (dl_next e)) (\<lambda>h.
        bind_res (set_prev h add el) (\<lambda>h.
        bind_res (set_next h el add) (\<lambda>h.
        bind_res (load h add) (\<lambda>a.
        bind_res (set_prev h (dl_next a) add) (\<lambda>h. Inr (head, h)))))))
      else CDL_PREPEND head add h)"

definition CDL_INSERT_INORDER :: "nat \<Rightarrow> ptr option \<Rightarrow> ptr \<Rightarrow> (ptr \<Rightarrow> ptr \<Rightarrow> int) \<Rightarrow> dl_heap \<Rightarrow> (ptr option \<times> dl_heap) res option" where
  "CDL_INSERT_INORDER fuel head add cmp h =
     (if head \<noteq> None then
        bind_run (CDL_LOWER_BOUND fuel h head add cmp) (\<lambda>tmp. Some (CDL_APPEND_ELEM head tmp (Some add) h))
      else Some (bind_res (set_next h (Some add) (Some add)) (\<lambda>h.
                 bind_res (set_prev h (Some add) (Some add)) (\<lambda>h. Inr (Some add, h)))))"

subsection \<open>Lists on the heap\<close>

definition clist :: "dl_heap \<Rightarrow> ptr option \<Rightarrow> ptr list \<Rightarrow> bool" where
  "clist h head xs \<longleftrightarrow> distinct xs \<and> head = first_or xs None \<and> (xs \<noteq> [] \<longrightarrow> dseg h (last xs) xs (Some (hd xs)))"

text \<open>A body that unlinks the element it visits and frees it.\<close>

definition delete_and_free :: "ptr \<Rightarrow> ptr option \<times> dl_heap \<Rightarrow> (ptr option \<times> dl_heap) res" where
  "delete_and_free el s = bind_res (CDL_DELETE (fst s) (Some el) (snd s)) (\<lambda>(head, h). Inr (head, h(el := None)))"

subsection \<open>Lemmas\<close>

lemma clist_Nil [simp]: "clist h head [] \<longleftrightarrow> head = None"
  by (auto simp: clist_def)

lemma CDL_APPEND_clist:
  assumes "clist h head xs" "add \<notin> set xs" "add \<in> dom h"
  shows "\<exists>head' h'. CDL_APPEND head (Some add) h = Inr (head', h') \<and> clist h' head' (xs @ [add]) \<and>
    (\<forall>p. p \<notin> set (xs @ [add]) \<longrightarrow> h' p = h p)"
  using assms by (cases xs rule: list_cases3) (auto simp: CDL_APPEND_def dl_defs clist_def)

lemma CDL_PREPEND_clist:
  assumes "clist h head xs" "add \<notin> set xs" "add \<in> dom h"
  shows "\<exists>head' h'. CDL_PREPEND head (Some add) h = Inr (head', h') \<and> clist h' head' (add # xs) \<and>
    (\<forall>p. p \<notin> set (add # xs) \<longrightarrow> h' p = h p)"
  using assms by (cases xs rule: list_cases3) (auto simp: CDL_PREPEND_def dl_defs clist_def)

lemma CDL_DELETE_clist:
  assumes "clist h head (xs @ del # ys)"
  shows "\<exists>head' h'. CDL_DELETE head (Some del) h = Inr (head', h') \<and> clist h' head' (xs @ ys) \<and>
    (\<forall>p. p \<notin> set (xs @ ys) \<longrightarrow> h' p = h p)"
  using assms
  by (cases xs rule: list_cases3; cases ys rule: list_cases3) (auto simp: CDL_DELETE_def dl_defs clist_def)

lemma CDL_APPEND_ELEM_clist:
  assumes "clist h head (xs @ ys)" "add \<notin> set (xs @ ys)" "add \<in> dom h"
  shows "\<exists>head' h'. CDL_APPEND_ELEM head (bound_of xs) (Some add) h = Inr (head', h') \<and> clist h' head' (xs @ add # ys) \<and>
    (\<forall>p. p \<notin> set (xs @ add # ys) \<longrightarrow> h' p = h p)"
proof (cases xs rule: rev_cases)
  case Nil
  then show ?thesis using CDL_PREPEND_clist [of h head ys add] assms by (simp add: bound_of_def CDL_APPEND_ELEM_def)
next
  case (snoc us u)
  with assms show ?thesis
    by (cases ys rule: list_cases3; cases us) (auto simp: bound_of_def CDL_APPEND_ELEM_def dl_defs clist_def)
qed

lemma CDL_PREPEND_ELEM_clist:
  assumes "clist h head (xs @ ys)" "add \<notin> set (xs @ ys)" "add \<in> dom h"
  shows "\<exists>head' h'. CDL_PREPEND_ELEM head (first_or ys None) (Some add) h = Inr (head', h') \<and> clist h' head' (xs @ add # ys) \<and>
    (\<forall>p. p \<notin> set (xs @ add # ys) \<longrightarrow> h' p = h p)"
proof (cases ys)
  case Nil
  then show ?thesis using CDL_APPEND_clist [of h head xs add] assms by (simp add: CDL_PREPEND_ELEM_def)
next
  case (Cons y zs)
  with assms show ?thesis
    by (cases xs rule: list_cases3; cases zs rule: rev_cases) (auto simp: CDL_PREPEND_ELEM_def dl_defs clist_def)
qed

lemma CDL_REPLACE_ELEM_clist:
  assumes "clist h head (xs @ el # ys)" "add \<notin> set (xs @ el # ys)" "add \<in> dom h"
  shows "\<exists>head' h'. CDL_REPLACE_ELEM head (Some el) (Some add) h = Inr (head', h') \<and> clist h' head' (xs @ add # ys) \<and>
    (\<forall>p. p \<notin> set (xs @ add # ys) \<longrightarrow> h' p = h p)"
  using assms
  by (cases xs rule: list_cases3; cases ys rule: list_cases3) (auto simp: CDL_REPLACE_ELEM_def dl_defs clist_def)

lemma CDL_INSERT_INORDER_clist:
  assumes "clist h head xs" "add \<notin> set xs" "add \<in> dom h" "length xs \<le> fuel"
  shows "\<exists>head' h'. CDL_INSERT_INORDER fuel head add cmp h = Some (Inr (head', h')) \<and> clist h' head' (place cmp add xs) \<and>
    (\<forall>p. p \<notin> set (add # xs) \<longrightarrow> h' p = h p)"
proof (cases "xs = []")
  case True
  with assms show ?thesis by (auto simp: CDL_INSERT_INORDER_def dl_defs clist_def place_def)
next
  case False
  let ?ys = "takeWhile (\<lambda>x. cmp x add < 0) xs" and ?zs = "dropWhile (\<lambda>x. cmp x add < 0) xs"
  have head: "head = first_or xs None" "head = Some (hd xs)" using assms(1) False by (cases xs; auto simp: clist_def)+
  have n: "nseg h xs (Some (hd xs))" "Some (hd xs) \<notin> Some ` set (tl xs)"
    using assms(1) False by (cases xs; auto simp: clist_def dest: dseg_nseg)+
  have "lower_bound fuel h (Some (hd xs)) (first_or xs None) add cmp = Some (Inr (bound_of ?ys))"
    by (rule lower_bound_nseg [OF n assms(4)])
  then have b: "CDL_LOWER_BOUND fuel h head add cmp = Some (Inr (bound_of ?ys))"
    using head by (simp add: CDL_LOWER_BOUND_def)
  have s: "set (?ys @ add # ?zs) = set (add # xs)" using place_perm(2) [of cmp add xs] by (simp add: place_def)
  show ?thesis
    using CDL_APPEND_ELEM_clist [of h head ?ys ?zs add] assms head(2) b s
    by (auto simp: CDL_INSERT_INORDER_def place_def simp del: set_append)
qed

lemma CDL_FOREACH_nseg:
  assumes "nseg h xs head" "head \<notin> Some ` set (tl xs)" "length xs \<le> fuel"
  shows "CDL_FOREACH fuel h head body (first_or xs None) s = Some (Inr (foreach body xs s))"
  using assms
proof (induction xs arbitrary: fuel s)
  case (Cons x xs)
  obtain f where f: "fuel = Suc f" using Cons.prems(3) by (cases fuel) auto
  have "head \<notin> Some ` set xs" "nseg h xs head" "length xs \<le> f" using Cons.prems f by auto
  moreover from this have "(if first_or xs head = head then None else first_or xs head) = first_or xs None"
    by (cases xs) auto
  ultimately show ?case using Cons f by (cases xs) (auto split: sum.splits)
qed simp

lemma CDL_FOREACH_clist:
  assumes "clist h head xs" "length xs \<le> fuel"
  shows "CDL_FOREACH fuel h head body head s = Some (Inr (foreach body xs s))"
proof (cases xs)
  case (Cons x ys)
  have "head = Some x" "nseg h xs (Some x)" "Some x \<notin> Some ` set (tl xs)"
    using assms(1) Cons by (auto simp: clist_def dest: dseg_nseg)
  then show ?thesis using CDL_FOREACH_nseg [of h xs "Some x" fuel body s] assms(2) Cons by simp
qed (use assms in \<open>simp add: clist_def\<close>)

lemma CDL_COUNT_clist: "clist h head xs \<Longrightarrow> length xs \<le> fuel \<Longrightarrow> CDL_COUNT fuel h head = Some (Inr (length xs))"
  by (simp add: CDL_COUNT_def CDL_FOREACH_clist foreach_count)

lemma cdl_search_clist: "clist h head xs \<Longrightarrow> length xs \<le> fuel \<Longrightarrow> cdl_search_loop fuel h head test = Some (Inr (find test xs))"
proof -
  have "foreach (\<lambda>out (_ :: unit). if test out then Inl out else Inr ()) xs () = (case find test xs of Some p \<Rightarrow> Inl p | None \<Rightarrow> Inr ())"
    by (induction xs) auto
  then show "clist h head xs \<Longrightarrow> length xs \<le> fuel \<Longrightarrow> cdl_search_loop fuel h head test = Some (Inr (find test xs))"
    by (simp add: cdl_search_loop_def CDL_FOREACH_clist split: option.splits)
qed

lemma clist_dom: "clist h head xs \<Longrightarrow> p \<in> set xs \<Longrightarrow> p \<in> dom h"
proof -
  have "nseg h ys nx \<Longrightarrow> p \<in> set ys \<Longrightarrow> p \<in> dom h" for ys nx by (induction ys) auto
  then show "clist h head xs \<Longrightarrow> p \<in> set xs \<Longrightarrow> p \<in> dom h" by (cases xs) (auto simp: clist_def dest: dseg_nseg)
qed

lemma clist_upd: "a \<notin> set xs \<Longrightarrow> clist (h(a := v)) head xs = clist h head xs"
  by (simp add: clist_def)

text \<open>The safe loop may free what it visits.\<close>

lemma delete_and_free_first:
  assumes "clist h head (x # xs)"
  shows "\<exists>h'. delete_and_free x (head, h) = Inr (first_or xs None, h') \<and> clist h' (first_or xs None) xs \<and>
    h' x = None \<and> (\<forall>p. p \<notin> set (x # xs) \<longrightarrow> h' p = h p)"
proof -
  obtain head' h' where d: "CDL_DELETE head (Some x) h = Inr (head', h')" "clist h' head' xs"
      "\<forall>p. p \<notin> set xs \<longrightarrow> h' p = h p"
    using CDL_DELETE_clist [of h head "[]" x xs] assms by auto
  have x: "x \<notin> set xs" using assms by (simp add: clist_def)
  then have "clist (h'(x := None)) head' xs" "head' = first_or xs None" using d(2) clist_upd by (auto simp: clist_def)
  then show ?thesis using d x by (auto simp: delete_and_free_def)
qed

lemma cdl_safe_loop_frees:
  assumes "clist h head (x # xs)" "length xs < fuel"
  shows "\<exists>h'. cdl_safe_loop fuel delete_and_free (Some (last (x # xs))) (Some x) (head, h) = Some (Inr (None, h')) \<and>
    (\<forall>p. h' p = (if p \<in> set (x # xs) then None else h p))"
  using assms
proof (induction xs arbitrary: x h head fuel)
  case Nil
  obtain f where f: "fuel = Suc f" using Nil.prems(2) by (cases fuel) auto
  obtain h' where d: "delete_and_free x (head, h) = Inr (None, h')" "h' x = None" "\<forall>p. p \<notin> {x} \<longrightarrow> h' p = h p"
    using delete_and_free_first [OF Nil.prems(1)] by auto
  obtain n where "h x = Some n" using clist_dom [OF Nil.prems(1), of x] by auto
  then show ?case using d by (auto simp: f)
next
  case (Cons y ys)
  obtain f where f: "fuel = Suc f" "length ys < f" using Cons.prems(2) by (cases fuel) auto
  obtain h1 where d: "delete_and_free x (head, h) = Inr (Some y, h1)" "clist h1 (Some y) (y # ys)" "h1 x = None"
      "\<forall>p. p \<notin> set (x # y # ys) \<longrightarrow> h1 p = h p"
    using delete_and_free_first [OF Cons.prems(1)] by auto
  have x: "h x = Some \<lparr>dl_prev = Some (last (x # y # ys)), dl_next = Some y\<rparr>" "x \<noteq> last (y # ys)" "x \<notin> set (y # ys)"
    using Cons.prems(1) last_in_set [of "y # ys"] by (auto simp: clist_def)
  obtain h' where l: "cdl_safe_loop f delete_and_free (Some (last (y # ys))) (Some y) (Some y, h1) = Some (Inr (None, h'))"
      "\<forall>p. h' p = (if p \<in> set (y # ys) then None else h1 p)"
    using Cons.IH [OF d(2) f(2)] by blast
  then have "\<forall>p. h' p = (if p \<in> set (x # y # ys) then None else h p)" using d(3,4) x(3) by auto
  moreover have "cdl_safe_loop fuel delete_and_free (Some (last (x # y # ys))) (Some x) (head, h) = Some (Inr (None, h'))"
    using d(1) x l(1) f(1) by simp
  ultimately show ?case by blast
qed

lemma CDL_FOREACH_SAFE_frees:
  assumes "clist h head xs" "length xs \<le> fuel"
  shows "CDL_FOREACH_SAFE fuel delete_and_free (head, h) = Some (Inr (None, \<lambda>p. if p \<in> set xs then None else h p))"
proof (cases xs)
  case (Cons x ys)
  then have head: "head = Some x" "h x = Some \<lparr>dl_prev = Some (last (x # ys)), dl_next = first_or ys (Some x)\<rparr>"
    using assms(1) by (auto simp: clist_def)
  obtain h' where "cdl_safe_loop fuel delete_and_free (Some (last (x # ys))) (Some x) (head, h) = Some (Inr (None, h'))"
      "\<forall>p. h' p = (if p \<in> set (x # ys) then None else h p)"
    using cdl_safe_loop_frees [of h head x ys fuel] assms Cons by auto
  then show ?thesis using head Cons by (auto simp: CDL_FOREACH_SAFE_def fun_eq_iff)
qed (use assms in \<open>simp add: CDL_FOREACH_SAFE_def\<close>)

lemma same_alive_c:
  assumes "clist h' head' xs" "\<forall>p. p \<notin> set xs \<longrightarrow> h' p = h p" "\<forall>p \<in> set xs. p \<in> dom h"
  shows "(p \<in> dom h') = (p \<in> dom h)"
  using assms clist_dom [OF assms(1), of p] by (cases "p \<in> set xs") auto

interpretation cdl: linked_list clist "\<lambda>h p. p \<in> dom h" CDL_APPEND CDL_DELETE
proof unfold_locales
  fix h q xs a
  assume a: "clist h q xs" "a \<notin> set xs" "a \<in> dom h"
  obtain q' h' where r: "CDL_APPEND q (Some a) h = Inr (q', h')" "clist h' q' (xs @ [a])"
      "\<forall>p. p \<notin> set (xs @ [a]) \<longrightarrow> h' p = h p"
    using CDL_APPEND_clist [OF a] by auto
  show "\<exists>q' h'. CDL_APPEND q (Some a) h = Inr (q', h') \<and> clist h' q' (xs @ [a]) \<and>
      (\<forall>p. (p \<in> dom h') = (p \<in> dom h))"
    using r same_alive_c [OF r(2,3)] a clist_dom [OF a(1)] by auto
next
  fix h q xs d ys
  assume a: "clist h q (xs @ d # ys)"
  obtain q' h' where r: "CDL_DELETE q (Some d) h = Inr (q', h')" "clist h' q' (xs @ ys)"
      "\<forall>p. p \<notin> set (xs @ ys) \<longrightarrow> h' p = h p"
    using CDL_DELETE_clist [OF a] by auto
  show "\<exists>q' h'. CDL_DELETE q (Some d) h = Inr (q', h') \<and> clist h' q' (xs @ ys) \<and>
      (\<forall>p. (p \<in> dom h') = (p \<in> dom h))"
    using r same_alive_c [OF r(2,3)] clist_dom [OF a] by auto
qed

interpretation cdl_inorder: inorder_list clist CDL_INSERT_INORDER
  by unfold_locales (simp, rule CDL_INSERT_INORDER_clist)

subsection \<open>Properties\<close>

text \<open>
  C24: circular lists. The operations at an element do what their names say and leave a
  circular list; and \<open>CDL_FOREACH_SAFE\<close> with a body that unlinks and frees the element it
  visits ends after as many turns as there are nodes, with an empty list, and has freed
  exactly the nodes of the list.
\<close>

theorem cdl_elem_macros:
  assumes "clist h head (xs @ el # ys)" "add \<notin> set (xs @ el # ys)" "add \<in> dom h" "length (xs @ el # ys) \<le> fuel"
  shows "yields clist h (Some (CDL_DELETE head (Some el) h)) (xs @ ys) \<and>
    yields clist h (Some (CDL_REPLACE_ELEM head (Some el) (Some add) h)) (xs @ add # ys) \<and>
    yields clist h (Some (CDL_PREPEND_ELEM head (Some el) (Some add) h)) (xs @ add # el # ys) \<and>
    yields clist h (Some (CDL_APPEND_ELEM head (Some el) (Some add) h)) (xs @ el # add # ys) \<and>
    CDL_FOREACH_SAFE fuel delete_and_free (head, h) =
      Some (Inr (None, \<lambda>p. if p \<in> set (xs @ el # ys) then None else h p))"
  using CDL_DELETE_clist [OF assms(1)] CDL_REPLACE_ELEM_clist [OF assms(1-3)] CDL_FOREACH_SAFE_frees [OF assms(1,4)]
    CDL_PREPEND_ELEM_clist [of h head xs "el # ys" add] CDL_APPEND_ELEM_clist [of h head "xs @ [el]" ys add] assms
  by (simp add: yields_def bound_of_def)

theorem cdl_elem_macros_witness:
  "\<exists>head' h'. CDL_DELETE (Some 4) (Some 4) [4 \<mapsto> \<lparr>dl_prev = Some 7, dl_next = Some 7\<rparr>,
      7 \<mapsto> \<lparr>dl_prev = Some 4, dl_next = Some 4\<rparr>, 9 \<mapsto> \<lparr>dl_prev = None, dl_next = None\<rparr>] = Inr (head', h') \<and> clist h' head' [7]"
  using cdl_elem_macros [of "[4 \<mapsto> \<lparr>dl_prev = Some 7, dl_next = Some 7\<rparr>, 7 \<mapsto> \<lparr>dl_prev = Some 4, dl_next = Some 4\<rparr>,
      9 \<mapsto> \<lparr>dl_prev = None, dl_next = None\<rparr>]" "Some 4" "[]" 4 "[7]" 9 2]
  by (auto simp: yields_def clist_def)

end
