(* ===== verification/Merge_Sort.thy ===== *)
theory Merge_Sort
  imports Utlist_Dl
begin

section \<open>Bottom-up merge sort, on lists\<close>

text \<open>
  What the three sort macros of \<open>utlist.h\<close> compute, without pointers: passes that merge
  neighbouring runs of length 1, 2, 4 and so on, until one merge has done the whole list. It
  sorts, and elements that compare equal keep their order. Theory \<open>Utlist_Sort\<close> shows
  that the macros do this on the heap.
\<close>

subsection \<open>The algorithm\<close>

fun merge_runs :: "('a \<Rightarrow> 'a \<Rightarrow> int) \<Rightarrow> 'a list \<Rightarrow> 'a list \<Rightarrow> 'a list" where
  "merge_runs cmp [] ys = ys"
| "merge_runs cmp (x # xs) [] = x # xs"
| "merge_runs cmp (x # xs) (y # ys) =
     (if cmp x y \<le> 0 then x # merge_runs cmp xs (y # ys) else y # merge_runs cmp (x # xs) ys)"

text \<open>One pass over runs of length \<open>k\<close>, and how many pairs of runs it merges.\<close>

function sort_pass :: "('a \<Rightarrow> 'a \<Rightarrow> int) \<Rightarrow> nat \<Rightarrow> 'a list \<Rightarrow> 'a list" where
  "sort_pass cmp k xs =
     (if xs = [] \<or> k = 0 then xs
      else merge_runs cmp (take k xs) (take k (drop k xs)) @ sort_pass cmp k (drop (2 * k) xs))"
  by pat_completeness auto
termination by (relation "measure (\<lambda>(cmp, k, xs). length xs)") (auto simp: neq_Nil_conv)

function pass_merges :: "nat \<Rightarrow> 'a list \<Rightarrow> nat" where
  "pass_merges k xs = (if xs = [] \<or> k = 0 then 0 else Suc (pass_merges k (drop (2 * k) xs)))"
  by pat_completeness auto
termination by (relation "measure (\<lambda>(k, xs). length xs)") (auto simp: neq_Nil_conv)

declare sort_pass.simps [simp del] pass_merges.simps [simp del]

lemma merge_runs_Nil2 [simp]: "merge_runs cmp xs [] = xs"
  by (cases xs) simp_all

lemma length_merge_runs [simp]: "length (merge_runs cmp xs ys) = length xs + length ys"
  by (induction cmp xs ys rule: merge_runs.induct) auto

lemma length_sort_pass [simp]: "length (sort_pass cmp k xs) = length xs"
proof (induction cmp k xs rule: sort_pass.induct)
  case (1 cmp k xs)
  then show ?case by (subst sort_pass.simps) auto
qed

function sort_from :: "('a \<Rightarrow> 'a \<Rightarrow> int) \<Rightarrow> nat \<Rightarrow> 'a list \<Rightarrow> 'a list" where
  "sort_from cmp k xs =
     (if length xs \<le> 2 * k \<or> k = 0 then sort_pass cmp k xs else sort_from cmp (2 * k) (sort_pass cmp k xs))"
  by pat_completeness auto
termination by (relation "measure (\<lambda>(cmp, k, xs). length xs - k)") auto

declare sort_from.simps [simp del]

function runs :: "('a \<Rightarrow> 'a \<Rightarrow> int) \<Rightarrow> nat \<Rightarrow> 'a list \<Rightarrow> bool" where
  "runs cmp k xs = (if xs = [] \<or> k = 0 then True else ordered cmp (take k xs) \<and> runs cmp k (drop k xs))"
  by pat_completeness auto
termination by (relation "measure (\<lambda>(cmp, k, xs). length xs)") (auto simp: neq_Nil_conv)

declare runs.simps [simp del]

lemma runs_Nil [simp]: "runs cmp k []"
  by (subst runs.simps) simp

lemma runs_step: "xs \<noteq> [] \<Longrightarrow> 0 < k \<Longrightarrow> runs cmp k xs \<longleftrightarrow> ordered cmp (take k xs) \<and> runs cmp k (drop k xs)"
  by (subst runs.simps) simp

lemma pass_merges_Nil [simp]: "pass_merges k [] = 0"
  by (subst pass_merges.simps) simp

lemma pass_merges_step: "xs \<noteq> [] \<Longrightarrow> 0 < k \<Longrightarrow> pass_merges k xs = Suc (pass_merges k (drop (2 * k) xs))"
  by (subst pass_merges.simps) simp

lemma pass_merges_once: "xs \<noteq> [] \<Longrightarrow> 0 < k \<Longrightarrow> pass_merges k xs \<le> 1 \<longleftrightarrow> length xs \<le> 2 * k"
  by (cases "drop (2 * k) xs = []") (auto simp: pass_merges_step)

lemma sort_pass_Nil [simp]: "sort_pass cmp k [] = []"
  by (subst sort_pass.simps) simp

lemma sort_pass_step: "xs \<noteq> [] \<Longrightarrow> 0 < k \<Longrightarrow>
    sort_pass cmp k xs = merge_runs cmp (take k xs) (take k (drop k xs)) @ sort_pass cmp k (drop (2 * k) xs)"
  by (subst sort_pass.simps) simp

text \<open>A class of elements that compare equal.\<close>

definition same_class :: "('a \<Rightarrow> 'a \<Rightarrow> int) \<Rightarrow> 'a \<Rightarrow> 'a \<Rightarrow> bool" where
  "same_class cmp z x \<longleftrightarrow> cmp z x = 0"

subsection \<open>It is a stable sort\<close>

lemma cmp_okD:
  assumes "cmp_ok cmp"
  shows "cmp x y \<le> 0 \<longleftrightarrow> 0 \<le> cmp y x" "cmp x y \<le> 0 \<Longrightarrow> cmp y z \<le> 0 \<Longrightarrow> cmp x z \<le> 0"
  using assms unfolding cmp_ok_def by blast+

lemma mset_merge_runs [simp]: "mset (merge_runs cmp xs ys) = mset xs + mset ys"
  by (induction cmp xs ys rule: merge_runs.induct) auto

lemma set_merge_runs [simp]: "set (merge_runs cmp xs ys) = set xs \<union> set ys"
  by (induction cmp xs ys rule: merge_runs.induct) auto

lemma ordered_Cons [simp]: "ordered cmp (x # xs) \<longleftrightarrow> (\<forall>y \<in> set xs. cmp x y \<le> 0) \<and> ordered cmp xs"
  by (simp add: ordered_def)

lemma ordered_merge_runs:
  "cmp_ok cmp \<Longrightarrow> ordered cmp xs \<Longrightarrow> ordered cmp ys \<Longrightarrow> ordered cmp (merge_runs cmp xs ys)"
proof (induction cmp xs ys rule: merge_runs.induct)
  case (3 cmp x xs y ys)
  show ?case
  proof (cases "cmp x y \<le> 0")
    case True
    then have "cmp x z \<le> 0" if "z \<in> set (y # ys)" for z using 3(4,5) that cmp_okD(2) [OF 3(3) True] by auto
    then show ?thesis using 3 True by auto
  next
    case False
    then have yx: "cmp y x \<le> 0" using cmp_okD(1) [OF 3(3), of y x] by auto
    then have "cmp y z \<le> 0" if "z \<in> set (x # xs)" for z using 3(4) that cmp_okD(2) [OF 3(3) yx] by auto
    then show ?thesis using 3 False by auto
  qed
qed auto

lemma stable_merge_runs:
  "cmp_ok cmp \<Longrightarrow> ordered cmp xs \<Longrightarrow> ordered cmp ys \<Longrightarrow>
   filter (same_class cmp z) (merge_runs cmp xs ys) = filter (same_class cmp z) xs @ filter (same_class cmp z) ys"
proof (induction cmp xs ys rule: merge_runs.induct)
  case (3 cmp x xs y ys)
  show ?case
  proof (cases "cmp x y \<le> 0")
    case False
    have "\<not> same_class cmp z w" if "w \<in> set (x # xs)" "same_class cmp z y" for w
    proof
      assume w: "same_class cmp z w"
      have "cmp x w \<le> 0" using that(1) 3(4) cmp_okD(1) [OF 3(3), of x x] by auto
      moreover have "cmp w z \<le> 0" "cmp z y \<le> 0" using w that(2) cmp_okD(1) [OF 3(3), of w z] by (auto simp: same_class_def)
      ultimately show False using False cmp_okD(2) [OF 3(3)] by blast
    qed
    then have "same_class cmp z y \<Longrightarrow> filter (same_class cmp z) (x # xs) = []" by (auto simp: filter_empty_conv)
    then show ?thesis using 3 False by auto
  qed (use 3 in auto)
qed auto

lemma mset_take_drop3: "mset (take k xs) + mset (take k (drop k xs)) + mset (drop (2 * k) xs) = mset xs"
  by (metis append_take_drop_id drop_drop mset_append mult_2 union_assoc)

lemma mset_sort_pass [simp]: "mset (sort_pass cmp k xs) = mset xs"
proof (induction cmp k xs rule: sort_pass.induct)
  case (1 cmp k xs)
  then show ?case using mset_take_drop3 [of k xs] by (subst sort_pass.simps) auto
qed

lemma runsD: "runs cmp k xs \<Longrightarrow> 0 < k \<Longrightarrow> ordered cmp (take k xs) \<and> runs cmp k (drop k xs)"
  by (cases "xs = []") (auto simp: ordered_def runs_step)

lemma runs_sort_pass:
  assumes "cmp_ok cmp" "0 < k" "runs cmp k xs"
  shows "runs cmp (2 * k) (sort_pass cmp k xs)"
  using assms(3)
proof (induction "length xs" arbitrary: xs rule: less_induct)
  case less
  show ?case
  proof (cases "xs = []")
    case False
    let ?m = "merge_runs cmp (take k xs) (take k (drop k xs))" and ?r = "sort_pass cmp k (drop (2 * k) xs)"
    have s: "sort_pass cmp k xs = ?m @ ?r" using False assms(2) by (simp add: sort_pass_step)
    have "runs cmp k (drop k (drop k xs))" "ordered cmp (take k xs)" "ordered cmp (take k (drop k xs))"
      using less.prems assms(2) runsD by blast+
    then have m: "ordered cmp ?m" and r: "runs cmp (2 * k) ?r"
      using ordered_merge_runs [OF assms(1)] less.hyps [of "drop (2 * k) xs"] False assms(2) by (auto simp: mult_2)
    show ?thesis
    proof (cases "length xs \<le> 2 * k")
      case True
      then have "?r = []" "length ?m \<le> 2 * k" by simp_all
      then show ?thesis using s m assms(2) by (cases "?m = []") (simp_all add: runs_step)
    next
      case False
      then have "length ?m = 2 * k" by simp
      moreover from this have "?m \<noteq> []" using assms(2) by (metis list.size(3) mult_is_0 neq0_conv zero_neq_numeral)
      ultimately have t: "?m @ ?r \<noteq> []" "take (2 * k) (?m @ ?r) = ?m" "drop (2 * k) (?m @ ?r) = ?r" by auto
      have "runs cmp (2 * k) (?m @ ?r)" using runs_step [OF t(1), of "2 * k" cmp] m r assms(2) unfolding t(2,3) by simp
      then show ?thesis unfolding s .
    qed
  qed simp
qed

lemma stable_sort_pass:
  assumes "cmp_ok cmp" "runs cmp k xs"
  shows "filter (same_class cmp z) (sort_pass cmp k xs) = filter (same_class cmp z) xs"
  using assms(2)
proof (induction "length xs" arbitrary: xs rule: less_induct)
  case less
  let ?f = "filter (same_class cmp z)"
  show ?case
  proof (cases "xs = [] \<or> k = 0")
    case False
    have "runs cmp k (drop k (drop k xs))" "ordered cmp (take k xs)" "ordered cmp (take k (drop k xs))"
      using less.prems False runsD by blast+
    then have "?f (merge_runs cmp (take k xs) (take k (drop k xs))) = ?f (take k xs) @ ?f (take k (drop k xs))"
        "?f (sort_pass cmp k (drop (2 * k) xs)) = ?f (drop (2 * k) xs)"
      using stable_merge_runs [OF assms(1)] less.hyps [of "drop (2 * k) xs"] False by (auto simp: mult_2)
    moreover have "take k xs @ take k (drop k xs) @ drop (2 * k) xs = xs"
      by (metis append_take_drop_id drop_drop mult_2)
    ultimately show ?thesis using False by (simp add: sort_pass_step) (metis append_assoc filter_append)
  next
    case True
    then show ?thesis by (subst sort_pass.simps) auto
  qed
qed

lemma sort_from_sorts:
  assumes "cmp_ok cmp" "0 < k" "runs cmp k xs"
  shows "ordered cmp (sort_from cmp k xs) \<and> mset (sort_from cmp k xs) = mset xs \<and>
    filter (same_class cmp z) (sort_from cmp k xs) = filter (same_class cmp z) xs"
  using assms(2,3)
proof (induction "length xs - k" arbitrary: k xs rule: less_induct)
  case less
  let ?ys = "sort_pass cmp k xs"
  have r: "runs cmp (2 * k) ?ys" using runs_sort_pass [OF assms(1)] less.prems by blast
  have s: "filter (same_class cmp z) ?ys = filter (same_class cmp z) xs" by (rule stable_sort_pass [OF assms(1) less.prems(2)])
  show ?case
  proof (cases "length xs \<le> 2 * k")
    case True
    then have "sort_from cmp k xs = ?ys" by (subst sort_from.simps) simp
    moreover have "ordered cmp ?ys" using runsD [OF r] less.prems(1) True by simp
    ultimately show ?thesis using s by simp
  next
    case False
    then have "sort_from cmp k xs = sort_from cmp (2 * k) ?ys" using less.prems(1) by (subst sort_from.simps) simp
    then show ?thesis using less.hyps [of ?ys "2 * k"] less.prems(1) r s False by simp
  qed
qed

lemma runs_one: "runs cmp 1 xs"
proof (induction xs)
  case (Cons x xs)
  then show ?case by (simp add: runs_step ordered_def)
qed simp

end
