(* ===== verification/Utlist_Sort.thy ===== *)
theory Utlist_Sort
  imports Utlist_Ll Utlist_Cdl Merge_Sort
begin

section \<open>utlist.h: the sort macros\<close>

text \<open>
  \<open>LL_SORT\<close>, \<open>DL_SORT\<close> and \<open>CDL_SORT\<close> are three copies of one merge sort that differ in
  three places, which the parameter \<open>ls_kind\<close> selects: the circular one takes the old head
  for the end of the list, the doubly linked ones set \<open>prev\<close> of a node they append, and each
  closes the list in its way. \<open>psize\<close>, \<open>qsize\<close> and \<open>insize\<close> are \<open>int\<close> in the source; they
  never become negative, and \<open>insize\<close> stays within twice the number of nodes, so that
  natural numbers are right for lists of fewer than \<open>2 ^ 30\<close> nodes.
\<close>

subsection \<open>The macros\<close>

datatype ls_kind = Singly | Doubly | Circular

text \<open>The list built so far in this pass: \<open>list\<close>, \<open>_ls_tail\<close> and the heap.\<close>

type_synonym ls_state = "ptr option \<times> ptr option \<times> dl_heap"

text \<open>The next node; \<open>old\<close> is \<open>_ls_oldhead\<close> of a circular list and \<open>NULL\<close> else.\<close>

definition ls_next :: "ptr option \<Rightarrow> dl_heap \<Rightarrow> ptr option \<Rightarrow> ptr option res" where
  "ls_next old h q = bind_res (load h q) (\<lambda>n. Inr (if dl_next n = old then None else dl_next n))"

text \<open>The \<open>for\<close> loop that steps over the first run; the number is \<open>_ls_insize - _ls_i\<close>.\<close>

fun ls_advance :: "ptr option \<Rightarrow> dl_heap \<Rightarrow> nat \<Rightarrow> nat \<Rightarrow> ptr option \<Rightarrow> (nat \<times> ptr option) res" where
  "ls_advance old h 0 psize q = Inr (psize, q)"
| "ls_advance old h (Suc n) psize q =
     bind_res (ls_next old h q) (\<lambda>q.
     if q = None then Inr (Suc psize, q) else ls_advance old h n (Suc psize) q)"

text \<open>Appending \<open>_ls_e\<close> behind \<open>_ls_tail\<close>.\<close>

definition ls_append :: "ls_kind \<Rightarrow> ptr option \<Rightarrow> ls_state \<Rightarrow> ls_state res" where
  "ls_append kd e s =
     (let (list, tail, h) = s in
      bind_res (if tail \<noteq> None then bind_res (set_next h tail e) (\<lambda>h. Inr (list, h)) else Inr (e, h)) (\<lambda>(list, h).
      bind_res (if kd = Singly then Inr h else set_prev h e tail) (\<lambda>h. Inr (list, e, h))))"

text \<open>The loop that merges two runs; the result is \<open>_ls_q\<close> behind it.\<close>

function ls_merge :: "ls_kind \<Rightarrow> (ptr \<Rightarrow> ptr \<Rightarrow> int) \<Rightarrow> ptr option \<Rightarrow> ptr option \<Rightarrow> nat \<Rightarrow> ptr option \<Rightarrow> nat \<Rightarrow> ls_state
    \<Rightarrow> (ptr option \<times> ls_state) res" where
  "ls_merge kd cmp old p psize q qsize s =
     (if psize > 0 \<or> (qsize > 0 \<and> q \<noteq> None) then
        if psize = 0 then
          bind_res (ls_next old (snd (snd s)) q) (\<lambda>q'. bind_res (ls_append kd q s) (\<lambda>s. ls_merge kd cmp old p psize q' (qsize - 1) s))
        else if qsize = 0 \<or> q = None then
          bind_res (ls_next old (snd (snd s)) p) (\<lambda>p'. bind_res (ls_append kd p s) (\<lambda>s. ls_merge kd cmp old p' (psize - 1) q qsize s))
        else if p = None then Inl Null_deref
        else if cmp (the p) (the q) \<le> 0 then
          bind_res (ls_next old (snd (snd s)) p) (\<lambda>p'. bind_res (ls_append kd p s) (\<lambda>s. ls_merge kd cmp old p' (psize - 1) q qsize s))
        else
          bind_res (ls_next old (snd (snd s)) q) (\<lambda>q'. bind_res (ls_append kd q s) (\<lambda>s. ls_merge kd cmp old p psize q' (qsize - 1) s))
      else Inr (q, s))"
  by pat_completeness auto
termination
  by (relation "measure (\<lambda>(kd, cmp, old, p, psize, q, qsize, s). psize + qsize)") auto

declare ls_merge.simps [simp del]

text \<open>One pass: \<open>while (_ls_p)\<close>. The result is \<open>_ls_nmerges\<close> and the list that was built.\<close>

fun ls_pass :: "nat \<Rightarrow> ls_kind \<Rightarrow> (ptr \<Rightarrow> ptr \<Rightarrow> int) \<Rightarrow> ptr option \<Rightarrow> nat \<Rightarrow> ptr option \<Rightarrow> nat \<Rightarrow> ls_state
    \<Rightarrow> (nat \<times> ls_state) res option" where
  "ls_pass fuel kd cmp old insize None nmerges s = Some (Inr (nmerges, s))"
| "ls_pass 0 kd cmp old insize (Some p) nmerges s = None"
| "ls_pass (Suc fuel) kd cmp old insize (Some p) nmerges s =
     bind_run (Some (bind_res (ls_advance old (snd (snd s)) insize 0 (Some p)) (\<lambda>(psize, q).
       ls_merge kd cmp old (Some p) psize q insize s))) (\<lambda>(q, s).
     ls_pass fuel kd cmp old insize q (Suc nmerges) s)"

text \<open>Closing the list after a pass.\<close>

definition ls_close :: "ls_kind \<Rightarrow> ls_state \<Rightarrow> (ptr option \<times> dl_heap) res" where
  "ls_close kd s =
     (let (list, tail, h) = s in
      case kd of
        Singly \<Rightarrow> if tail \<noteq> None then bind_res (set_next h tail None) (\<lambda>h. Inr (list, h)) else Inr (list, h)
      | Doubly \<Rightarrow> bind_res (set_prev h list tail) (\<lambda>h. bind_res (set_next h tail None) (\<lambda>h. Inr (list, h)))
      | Circular \<Rightarrow> bind_res (set_prev h list tail) (\<lambda>h. bind_res (set_next h tail list) (\<lambda>h. Inr (list, h))))"

text \<open>\<open>while (_ls_looping)\<close>, with fuel for this loop and for the one of a pass.\<close>

fun ls_loop :: "nat \<Rightarrow> nat \<Rightarrow> ls_kind \<Rightarrow> (ptr \<Rightarrow> ptr \<Rightarrow> int) \<Rightarrow> nat \<Rightarrow> ptr option \<Rightarrow> dl_heap \<Rightarrow> (ptr option \<times> dl_heap) res option" where
  "ls_loop 0 fuel kd cmp insize list h = None"
| "ls_loop (Suc rounds) fuel kd cmp insize list h =
     bind_run (ls_pass fuel kd cmp (if kd = Circular then list else None) insize list 0 (None, None, h)) (\<lambda>(nmerges, s).
     bind_run (Some (ls_close kd s)) (\<lambda>(list, h).
     if nmerges \<le> 1 then Some (Inr (list, h)) else ls_loop rounds fuel kd cmp (insize * 2) list h))"

definition LL_SORT :: "nat \<Rightarrow> ptr option \<Rightarrow> (ptr \<Rightarrow> ptr \<Rightarrow> int) \<Rightarrow> dl_heap \<Rightarrow> (ptr option \<times> dl_heap) res option" where
  "LL_SORT fuel list cmp h = (if list \<noteq> None then ls_loop fuel fuel Singly cmp 1 list h else Some (Inr (list, h)))"

definition DL_SORT :: "nat \<Rightarrow> ptr option \<Rightarrow> (ptr \<Rightarrow> ptr \<Rightarrow> int) \<Rightarrow> dl_heap \<Rightarrow> (ptr option \<times> dl_heap) res option" where
  "DL_SORT fuel list cmp h = (if list \<noteq> None then ls_loop fuel fuel Doubly cmp 1 list h else Some (Inr (list, h)))"

definition CDL_SORT :: "nat \<Rightarrow> ptr option \<Rightarrow> (ptr \<Rightarrow> ptr \<Rightarrow> int) \<Rightarrow> dl_heap \<Rightarrow> (ptr option \<times> dl_heap) res option" where
  "CDL_SORT fuel list cmp h = (if list \<noteq> None then ls_loop fuel fuel Circular cmp 1 list h else Some (Inr (list, h)))"

subsection \<open>The list under construction\<close>

fun prevs :: "dl_heap \<Rightarrow> ptr option \<Rightarrow> ptr list \<Rightarrow> bool" where
  "prevs h pv [] \<longleftrightarrow> True"
| "prevs h pv (x # xs) \<longleftrightarrow> (\<exists>n. h x = Some n \<and> dl_prev n = pv) \<and> prevs h (Some x) xs"

text \<open>
  \<open>es\<close> has been appended: its nodes are linked, the \<open>next\<close> of the last one is still what it
  was in the old list.
\<close>

definition built :: "ls_kind \<Rightarrow> ptr list \<Rightarrow> ls_state \<Rightarrow> bool" where
  "built kd es s \<longleftrightarrow> (let (list, tail, h) = s in
     list = first_or es None \<and> tail = bound_of es \<and> set es \<subseteq> dom h \<and>
     nseg h (butlast es) (bound_of es) \<and> (kd \<noteq> Singly \<longrightarrow> prevs h None es))"

text \<open>
  What the merge loop needs: \<open>ps\<close> is what is left of the first run, \<open>qs\<close> the rest of the old
  list from \<open>_ls_q\<close> on.
\<close>

definition merging :: "ls_kind \<Rightarrow> ptr option \<Rightarrow> ptr list \<Rightarrow> ptr list \<Rightarrow> ptr list \<Rightarrow> ls_state \<Rightarrow> bool" where
  "merging kd old es ps qs s \<longleftrightarrow> built kd es s \<and> (\<exists>z. nseg (snd (snd s)) ps z) \<and> nseg (snd (snd s)) qs old \<and>
     old \<notin> Some ` set (tl ps) \<and> old \<notin> Some ` set qs \<and> distinct (es @ ps @ qs)"

text \<open>Which list a heap represents, for each kind.\<close>

definition ls_list :: "ls_kind \<Rightarrow> dl_heap \<Rightarrow> ptr option \<Rightarrow> ptr list \<Rightarrow> bool" where
  "ls_list kd = (case kd of Singly \<Rightarrow> llist | Doubly \<Rightarrow> dlist | Circular \<Rightarrow> clist)"

text \<open>
  What a sort promises: it ends, the result is a list of the same kind and the same nodes,
  in order; nodes that compare equal stand as they stood; nodes outside are not touched.
\<close>

definition sorts :: "(dl_heap \<Rightarrow> ptr option \<Rightarrow> ptr list \<Rightarrow> bool) \<Rightarrow> (ptr \<Rightarrow> ptr \<Rightarrow> int) \<Rightarrow> dl_heap \<Rightarrow> ptr list
    \<Rightarrow> (ptr option \<times> dl_heap) res option \<Rightarrow> bool" where
  "sorts repr cmp h xs r \<longleftrightarrow> (\<exists>q' h' ys. r = Some (Inr (q', h')) \<and> repr h' q' ys \<and> ordered cmp ys \<and> mset ys = mset xs \<and>
     (\<forall>z. filter (same_class cmp z) ys = filter (same_class cmp z) xs) \<and> (\<forall>p. p \<notin> set xs \<longrightarrow> h' p = h p))"

subsection \<open>Lemmas\<close>

lemma prevs_append [simp]: "prevs h pv (xs @ [x]) \<longleftrightarrow>
    prevs h pv xs \<and> (\<exists>n. h x = Some n \<and> dl_prev n = (if xs = [] then pv else Some (last xs)))"
  by (induction xs arbitrary: pv) auto

lemma prevs_upd: "(\<And>p n. p \<in> set xs \<Longrightarrow> h p = Some n \<Longrightarrow> \<exists>n'. h' p = Some n' \<and> dl_prev n' = dl_prev n) \<Longrightarrow>
    prevs h pv xs \<Longrightarrow> prevs h' pv xs"
proof (induction xs arbitrary: pv)
  case (Cons x xs)
  then obtain n where n: "h x = Some n" "dl_prev n = pv" by auto
  with Cons.prems(1) [of x n] obtain n' where "h' x = Some n'" "dl_prev n' = pv" by auto
  moreover have "prevs h' (Some x) xs" using Cons by simp
  ultimately show ?case by simp
qed simp

lemma bound_of_simps [simp]: "bound_of [] = None" "bound_of (xs @ [x]) = Some x" "bound_of [x] = Some x" "bound_of (xs @ [y, x]) = Some x" "bound_of xs = None \<longleftrightarrow> xs = []"
  by (simp_all add: bound_of_def)

lemma nseg_upd_next: "a \<notin> set xs \<Longrightarrow> nseg (h(a \<mapsto> n)) xs nx = nseg h xs nx"
  by simp

lemma ls_append_built:
  assumes "built kd es s" "e \<notin> set es" "e \<in> dom (snd (snd s))" "distinct es"
  shows "\<exists>s'. ls_append kd (Some e) s = Inr s' \<and> built kd (es @ [e]) s' \<and>
    (\<forall>p. p \<notin> set (es @ [e]) \<longrightarrow> snd (snd s') p = snd (snd s) p)"
proof (cases es rule: rev_cases)
  case Nil
  then show ?thesis using assms by (cases s) (auto simp: ls_append_def built_def dl_defs)
next
  case (snoc us u)
  obtain list tail h where s: "s = (list, tail, h)" by (cases s)
  have b: "list = first_or es None" "tail = Some u" "set es \<subseteq> dom h" "nseg h us (Some u)" "kd \<noteq> Singly \<longrightarrow> prevs h None es"
    using assms(1) snoc by (auto simp: built_def s)
  obtain nu where nu: "h u = Some nu" using b(3) snoc by auto
  obtain ne where ne: "h e = Some ne" using assms(3) s by auto
  let ?h = "h(u \<mapsto> nu\<lparr>dl_next := Some e\<rparr>)"
  let ?h' = "if kd = Singly then ?h else ?h(e \<mapsto> ne\<lparr>dl_prev := Some u\<rparr>)"
  have d: "u \<noteq> e" "u \<notin> set us" "e \<notin> set us" using assms(2,4) snoc by auto
  have a: "ls_append kd (Some e) s = Inr (list, Some e, ?h')" using b(2) nu ne d(1) by (simp add: ls_append_def s dl_defs)
  have "prevs ?h' None (es @ [e])" if "kd \<noteq> Singly"
  proof -
    have "prevs ?h' None es"
      by (rule prevs_upd [of es h]) (use b(5) that nu d snoc in auto)
    moreover have "es \<noteq> []" "last es = u" using snoc by simp_all
    ultimately show ?thesis using that by simp
  qed
  moreover have "nseg ?h' es (Some e)" using b(4) nu d snoc by auto
  ultimately have "built kd (es @ [e]) (list, Some e, ?h')" using b(1,3) ne snoc d by (auto simp: built_def butlast_append)
  then show ?thesis using a snoc by (auto simp: s)
qed

lemma ls_next_nseg:
  assumes "nseg h (x # xs) nx" "old \<notin> Some ` set xs"
  shows "\<exists>r. ls_next old h (Some x) = Inr r \<and> (xs \<noteq> [] \<longrightarrow> r = Some (hd xs)) \<and> (nx = old \<longrightarrow> r = first_or xs None)"
  using assms by (cases xs) (auto simp: ls_next_def)

lemma ls_advance_nseg:
  assumes "nseg h xs old" "old \<notin> Some ` set (tl xs)" "xs \<noteq> []" "0 < n"
  shows "ls_advance old h n m (first_or xs None) = Inr (m + min n (length xs), first_or (drop n xs) None)"
  using assms
proof (induction n arbitrary: xs m)
  case (Suc n)
  obtain x ys where xs: "xs = x # ys" using Suc.prems(3) by (cases xs) auto
  have r: "ls_next old h (Some x) = Inr (first_or ys None)" using ls_next_nseg [of h x ys old old] Suc.prems xs by auto
  show ?case
  proof (cases "ys = [] \<or> n = 0")
    case True
    then show ?thesis using r xs by (cases ys; auto)
  next
    case False
    then have "ls_advance old h n (Suc m) (first_or ys None) = Inr (Suc m + min n (length ys), first_or (drop n ys) None)"
      using Suc.prems xs by (intro Suc.IH) (auto dest: list.set_sel(2))
    then show ?thesis using r xs False by simp
  qed
qed simp


lemma nseg_frame: "nseg h xs nx \<Longrightarrow> (\<And>p. p \<in> set xs \<Longrightarrow> h' p = h p) \<Longrightarrow> nseg h' xs nx"
  by (induction xs) auto

lemma merging_left:
  assumes "merging kd old es (x # ps) qs s"
  shows "\<exists>r s'. ls_next old (snd (snd s)) (Some x) = Inr r \<and> (ps \<noteq> [] \<longrightarrow> r = Some (hd ps)) \<and>
    ls_append kd (Some x) s = Inr s' \<and> merging kd old (es @ [x]) ps qs s' \<and>
    (\<forall>p. p \<notin> set (es @ [x]) \<longrightarrow> snd (snd s') p = snd (snd s) p)"
proof -
  obtain z where m: "built kd es s" "nseg (snd (snd s)) (x # ps) z" "nseg (snd (snd s)) qs old" "old \<notin> Some ` set ps"
    "old \<notin> Some ` set qs" "distinct (es @ x # ps @ qs)" using assms by (auto simp: merging_def)
  obtain r where r: "ls_next old (snd (snd s)) (Some x) = Inr r" "ps \<noteq> [] \<longrightarrow> r = Some (hd ps)"
    using ls_next_nseg [OF m(2,4)] by auto
  have d: "x \<notin> set es" "x \<in> dom (snd (snd s))" "distinct es" using m by auto
  obtain s' where s': "ls_append kd (Some x) s = Inr s'" "built kd (es @ [x]) s'"
    "\<forall>p. p \<notin> set (es @ [x]) \<longrightarrow> snd (snd s') p = snd (snd s) p"
    using ls_append_built [OF m(1) d] by blast
  have "nseg (snd (snd s')) ps z" by (rule nseg_frame [of "snd (snd s)"]) (use m s'(3) in auto)
  moreover have "nseg (snd (snd s')) qs old" by (rule nseg_frame [of "snd (snd s)"]) (use m s'(3) in auto)
  moreover have "old \<notin> Some ` set (tl ps)" using m(4) by (cases ps) auto
  ultimately have "merging kd old (es @ [x]) ps qs s'" using s'(2) m by (auto simp: merging_def)
  then show ?thesis using r s' by blast
qed

lemma merging_right:
  assumes "merging kd old es ps (y # qs) s"
  shows "\<exists>s'. ls_next old (snd (snd s)) (Some y) = Inr (first_or qs None) \<and>
    ls_append kd (Some y) s = Inr s' \<and> merging kd old (es @ [y]) ps qs s' \<and>
    (\<forall>p. p \<notin> set (es @ [y]) \<longrightarrow> snd (snd s') p = snd (snd s) p)"
proof -
  obtain z where m: "built kd es s" "nseg (snd (snd s)) ps z" "nseg (snd (snd s)) (y # qs) old" "old \<notin> Some ` set (tl ps)"
    "old \<notin> Some ` set qs" "distinct (es @ ps @ y # qs)" using assms by (auto simp: merging_def)
  have d: "y \<notin> set es" "y \<in> dom (snd (snd s))" "distinct es" using m by auto
  obtain s' where s': "ls_append kd (Some y) s = Inr s'" "built kd (es @ [y]) s'"
    "\<forall>p. p \<notin> set (es @ [y]) \<longrightarrow> snd (snd s') p = snd (snd s) p"
    using ls_append_built [OF m(1) d] by blast
  have "nseg (snd (snd s')) ps z" by (rule nseg_frame [of "snd (snd s)"]) (use m s'(3) in auto)
  moreover have "nseg (snd (snd s')) qs old" by (rule nseg_frame [of "snd (snd s)"]) (use m s'(3) in auto)
  ultimately have "merging kd old (es @ [y]) ps qs s'" using s'(2) m by (auto simp: merging_def)
  then show ?thesis using ls_next_nseg [OF m(3), of old] m(5) s' by auto
qed

lemma ls_merge_runs:
  assumes "merging kd old es ps qs s" "ps \<noteq> [] \<longrightarrow> p = Some (hd ps)"
  shows "\<exists>s'. ls_merge kd cmp old p (length ps) (first_or qs None) qsize s = Inr (first_or (drop qsize qs) None, s') \<and>
    merging kd old (es @ merge_runs cmp ps (take qsize qs)) [] (drop qsize qs) s' \<and>
    (\<forall>x. x \<notin> set (es @ ps @ take qsize qs) \<longrightarrow> snd (snd s') x = snd (snd s) x)"
  using assms
proof (induction "length ps + qsize" arbitrary: es ps qs qsize p s rule: less_induct)
  case less
  have left: ?case if ps: "ps = x # ps'" and run: "ls_merge kd cmp old p (length ps) (first_or qs None) qsize s =
      bind_res (ls_next old (snd (snd s)) p) (\<lambda>p'. bind_res (ls_append kd p s) (\<lambda>s. ls_merge kd cmp old p' (length ps - 1) (first_or qs None) qsize s))"
    and m: "merge_runs cmp ps (take qsize qs) = x # merge_runs cmp ps' (take qsize qs)" for x ps'
  proof -
    have p: "p = Some x" using less.prems(2) ps by simp
    obtain r s1 where s1: "ls_next old (snd (snd s)) p = Inr r" "ps' \<noteq> [] \<longrightarrow> r = Some (hd ps')" "ls_append kd p s = Inr s1"
      "merging kd old (es @ [x]) ps' qs s1" "\<forall>p. p \<notin> set (es @ [x]) \<longrightarrow> snd (snd s1) p = snd (snd s) p"
      using merging_left [of kd old es x ps' qs s] less.prems(1) p unfolding ps by blast
    from less.hyps [OF _ s1(4,2), of qsize] show ?thesis using s1 ps unfolding run m by auto
  qed
  have right: ?case if qs: "qs = y # qs'" "qsize = Suc k" and run: "ls_merge kd cmp old p (length ps) (first_or qs None) qsize s =
      bind_res (ls_next old (snd (snd s)) (Some y)) (\<lambda>q'. bind_res (ls_append kd (Some y) s) (\<lambda>s. ls_merge kd cmp old p (length ps) q' k s))"
    and m: "merge_runs cmp ps (take qsize qs) = y # merge_runs cmp ps (take k qs')" for y qs' k
  proof -
    obtain s1 where s1: "ls_next old (snd (snd s)) (Some y) = Inr (first_or qs' None)" "ls_append kd (Some y) s = Inr s1"
      "merging kd old (es @ [y]) ps qs' s1" "\<forall>p. p \<notin> set (es @ [y]) \<longrightarrow> snd (snd s1) p = snd (snd s) p"
      using merging_right [of kd old es ps y qs' s] less.prems(1) unfolding qs(1) by blast
    from less.hyps [OF _ s1(3) less.prems(2), of k] show ?thesis using s1 qs unfolding run m by auto
  qed
  show ?case
  proof (cases ps)
    case Nil
    show ?thesis
    proof (cases "qs = [] \<or> qsize = 0")
      case True
      then have "ls_merge kd cmp old p (length ps) (first_or qs None) qsize s = Inr (first_or (drop qsize qs) None, s)"
        using Nil by (subst ls_merge.simps) auto
      moreover have t: "take qsize qs = []" "drop qsize qs = qs" using True by auto
      ultimately show ?thesis using less.prems(1) Nil by (intro exI [of _ s]) (simp add: t)
    next
      case False
      then obtain y qs' k where q: "qs = y # qs'" "qsize = Suc k" by (cases qs; cases qsize) auto
      show ?thesis by (rule right [OF q], subst ls_merge.simps) (use Nil q in simp_all)
    qed
  next
    case (Cons x ps')
    have p: "p = Some x" using less.prems(2) Cons by simp
    show ?thesis
    proof (cases "qs = [] \<or> qsize = 0")
      case True
      show ?thesis by (rule left [OF Cons], subst ls_merge.simps) (use True Cons in auto)
    next
      case False
      then obtain y qs' k where q: "qs = y # qs'" "qsize = Suc k" by (cases qs; cases qsize) auto
      show ?thesis
      proof (cases "cmp x y \<le> 0")
        case True
        show ?thesis by (rule left [OF Cons], subst ls_merge.simps) (use True Cons p q in simp_all)
      next
        case False
        show ?thesis by (rule right [OF q], subst ls_merge.simps) (use False Cons p q in simp_all)
      qed
    qed
  qed
qed


text \<open>One pass.\<close>

lemma ls_pass_sorts:
  assumes "built kd es s" "nseg (snd (snd s)) xs old" "old \<notin> Some ` set (tl xs)" "distinct (es @ xs)" "0 < k" "length xs \<le> fuel"
  shows "\<exists>s'. ls_pass fuel kd cmp old k (first_or xs None) m s = Some (Inr (m + pass_merges k xs, s')) \<and>
    built kd (es @ sort_pass cmp k xs) s' \<and> (\<forall>x. x \<notin> set (es @ xs) \<longrightarrow> snd (snd s') x = snd (snd s) x)"
  using assms
proof (induction fuel arbitrary: es s xs m)
  case 0
  then show ?case by (intro exI [of _ s]) simp
next
  case (Suc fuel)
  show ?case
  proof (cases xs)
    case Nil
    then show ?thesis using Suc.prems by (intro exI [of _ s]) simp
  next
    case (Cons x xs')
    let ?ps = "take k xs" and ?qs = "drop k xs" and ?r = "drop (2 * k) xs"
    have adv: "ls_advance old (snd (snd s)) k 0 (Some x) = Inr (length ?ps, first_or ?qs None)"
      using ls_advance_nseg [OF Suc.prems(2,3) _ Suc.prems(5), of 0] Cons by (simp add: min.commute)
    have "set (tl ?ps) \<subseteq> set (tl xs)" "set ?qs \<subseteq> set (tl xs)"
      using Cons Suc.prems(5) by (cases k; auto dest: in_set_takeD in_set_dropD)+
    then have "old \<notin> Some ` set (tl ?ps)" "old \<notin> Some ` set ?qs" using Suc.prems(3) by blast+
    moreover have "nseg (snd (snd s)) (?ps @ ?qs) old" "distinct (es @ ?ps @ ?qs)" using Suc.prems(2,4) by simp_all
    ultimately have mg: "merging kd old es ?ps ?qs s" using Suc.prems(1) unfolding merging_def nseg_append by blast
    have hp: "?ps \<noteq> [] \<longrightarrow> Some x = Some (hd ?ps)" using Cons by (cases k) auto
    let ?m = "merge_runs cmp ?ps (take k ?qs)"
    obtain s1 where s1: "ls_merge kd cmp old (Some x) (length ?ps) (first_or ?qs None) k s = Inr (first_or ?r None, s1)"
      "merging kd old (es @ ?m) [] ?r s1" "\<forall>x. x \<notin> set (es @ ?ps @ take k ?qs) \<longrightarrow> snd (snd s1) x = snd (snd s) x"
      using ls_merge_runs [OF mg hp, of cmp k] by (auto simp: mult_2 simp del: split_paired_Ex)
    have "old \<notin> Some ` set ?r" using s1(2) unfolding merging_def by blast
    then have "old \<notin> Some ` set (tl ?r)" by (cases ?r) auto
    moreover have "length ?r \<le> fuel" using Suc.prems(5,6) Cons by simp
    ultimately obtain s' where s': "ls_pass fuel kd cmp old k (first_or ?r None) (Suc m) s1 = Some (Inr (Suc m + pass_merges k ?r, s'))"
      "built kd ((es @ ?m) @ sort_pass cmp k ?r) s'" "\<forall>x. x \<notin> set ((es @ ?m) @ ?r) \<longrightarrow> snd (snd s') x = snd (snd s1) x"
      using Suc.IH [of "es @ ?m" s1 ?r "Suc m"] s1(2) Suc.prems(5) unfolding merging_def by auto
    have run: "ls_pass (Suc fuel) kd cmp old k (first_or xs None) m s = Some (Inr (m + pass_merges k xs, s'))"
      using adv s1(1) s'(1) Cons Suc.prems(5) by (simp add: pass_merges_step)
    have set: "set xs = set ?ps \<union> set (take k ?qs) \<union> set ?r"
      by (metis append_take_drop_id drop_drop mult_2 set_append Un_assoc)
    then have "\<forall>x. x \<notin> set (es @ xs) \<longrightarrow> snd (snd s') x = snd (snd s) x" using s1(3) s'(3) by auto
    moreover have "built kd (es @ sort_pass cmp k xs) s'" using s'(2) Cons Suc.prems(5) by (simp add: sort_pass_step)
    ultimately show ?thesis using run by blast
  qed
qed

text \<open>Closing the list.\<close>

lemma dseg_iff: "dseg h pv xs nx \<longleftrightarrow> nseg h xs nx \<and> prevs h (Some pv) xs"
proof (induction xs arbitrary: pv)
  case (Cons x xs)
  have "h x = Some \<lparr>dl_prev = Some pv, dl_next = a\<rparr> \<longleftrightarrow> (\<exists>n. h x = Some n \<and> dl_next n = a) \<and> (\<exists>n. h x = Some n \<and> dl_prev n = Some pv)" for a
    by (cases "h x") (auto intro: dl_node.equality)
  then show ?case using Cons by auto
qed simp

lemma prevs_frame: "(\<And>p. p \<in> set xs \<Longrightarrow> h' p = h p) \<Longrightarrow> prevs h' pv xs = prevs h pv xs"
  by (induction xs arbitrary: pv) auto

lemma ls_close_built:
  assumes "built kd es s" "es \<noteq> []" "distinct es"
  shows "\<exists>h'. ls_close kd s = Inr (first_or es None, h') \<and> ls_list kd h' (first_or es None) es \<and>
    (\<forall>p. p \<notin> set es \<longrightarrow> h' p = snd (snd s) p)"
proof -
  obtain list tail h where s: "s = (list, tail, h)" by (cases s)
  have b: "list = first_or es None" "tail = bound_of es" "set es \<subseteq> dom h" "nseg h (butlast es) (bound_of es)" "kd \<noteq> Singly \<longrightarrow> prevs h None es"
    using assms(1) by (auto simp: built_def s)
  show ?thesis
  proof (cases es rule: list_cases3)
    case (2 x)
    then show ?thesis using b
      by (cases kd) (auto simp: ls_close_def s dl_defs ls_list_def llist_def dlist_def clist_def)
  next
    case (3 x ms l)
    obtain nx nl where n: "h x = Some nx" "h l = Some nl" using b(3) 3 by auto
    have d: "x \<noteq> l" "x \<notin> set ms" "l \<notin> set ms" using assms(3) 3 by auto
    have e: "list = Some x" "tail = Some l" using b 3 by (simp_all add: bound_of_def)
    have nx: "nseg h ms (Some l)" "dl_next nx = first_or ms (Some l)" using b(4) 3 n by (auto simp: bound_of_def butlast_append)
    let ?h = "\<lambda>v. h(x \<mapsto> nx\<lparr>dl_prev := Some l\<rparr>, l \<mapsto> nl\<lparr>dl_next := v\<rparr>)"
    have pv: "dseg (?h v) l es v" if "kd \<noteq> Singly" for v
    proof -
      have "prevs h (Some x) (ms @ [l])" using b(5) that 3 by simp
      moreover have "prevs (?h v) (Some x) ms = prevs h (Some x) ms" by (rule prevs_frame) (use d in auto)
      ultimately have "prevs (?h v) (Some x) (ms @ [l])" using d n by auto
      then show ?thesis using 3 nx d n by (auto simp: dseg_iff)
    qed
    show ?thesis
    proof (cases kd)
      case Singly
      then show ?thesis using 3 nx d n e assms(3) by (auto simp: ls_close_def s dl_defs ls_list_def llist_def)
    next
      case Doubly
      then show ?thesis using 3 d n e assms(3) pv [of None] by (auto simp: ls_close_def s dl_defs ls_list_def dlist_def simp del: dseg.simps dseg_append)
    next
      case Circular
      then show ?thesis using 3 d n e assms(3) pv [of "Some x"] by (auto simp: ls_close_def s dl_defs ls_list_def clist_def simp del: dseg.simps dseg_append)
    qed
  qed (use assms(2) in simp)
qed


lemma ls_listD:
  assumes "ls_list kd h q xs" "xs \<noteq> []"
  shows "distinct xs" "q = first_or xs None" "nseg h xs (if kd = Circular then q else None)"
    "(if kd = Circular then q else None) \<notin> Some ` set (tl xs)"
  using assms by (cases kd; cases xs; auto simp: ls_list_def llist_def dlist_def clist_def dest: dseg_nseg)+

lemma set_sort_pass [simp]: "set (sort_pass cmp k xs) = set xs" "distinct (sort_pass cmp k xs) = distinct xs"
  using mset_sort_pass [of cmp k xs] by (metis set_mset_mset, metis mset_eq_imp_distinct_iff)

text \<open>The whole loop: with as many rounds and turns as there are nodes it ends, and sorts.\<close>

lemma ls_loop_sorts:
  assumes "ls_list kd h q xs" "xs \<noteq> []" "0 < k" "length xs \<le> fuel" "length xs - k < rounds"
  shows "\<exists>q' h'. ls_loop rounds fuel kd cmp k q h = Some (Inr (q', h')) \<and> ls_list kd h' q' (sort_from cmp k xs) \<and>
    (\<forall>p. p \<notin> set xs \<longrightarrow> h' p = h p)"
  using assms
proof (induction rounds arbitrary: h q xs k)
  case (Suc rounds)
  let ?ys = "sort_pass cmp k xs" and ?old = "if kd = Circular then q else None"
  note l = ls_listD [OF Suc.prems(1,2)]
  have b: "built kd [] (None, None, h)" by (simp add: built_def)
  obtain s where s: "ls_pass fuel kd cmp ?old k q 0 (None, None, h) = Some (Inr (pass_merges k xs, s))" "built kd ?ys s"
    "\<forall>x. x \<notin> set xs \<longrightarrow> snd (snd s) x = h x"
    using ls_pass_sorts [OF b, of xs ?old k fuel cmp 0] l Suc.prems(3,4) by (auto simp del: split_paired_Ex split_paired_All)
  have ys: "?ys \<noteq> []" by (metis Suc.prems(2) length_0_conv length_sort_pass)
  have ysd: "distinct ?ys" using l(1) by simp
  obtain h1 where h1: "ls_close kd s = Inr (first_or ?ys None, h1)" "ls_list kd h1 (first_or ?ys None) ?ys" "\<forall>p. p \<notin> set xs \<longrightarrow> h1 p = h p"
    using ls_close_built [OF s(2) ys ysd] s(3) by auto
  show ?case
  proof (cases "length xs \<le> 2 * k")
    case True
    then have "sort_from cmp k xs = ?ys" by (subst sort_from.simps) simp
    then show ?thesis using s(1) h1 True pass_merges_once [OF Suc.prems(2,3)] by simp
  next
    case False
    then have "sort_from cmp k xs = sort_from cmp (2 * k) ?ys" using Suc.prems(3) by (subst sort_from.simps) simp
    moreover have "length ?ys - 2 * k < rounds" using Suc.prems(3,5) False by simp
    moreover have "\<not> pass_merges k xs \<le> 1" using False pass_merges_once [OF Suc.prems(2,3)] by simp
    ultimately show ?thesis using Suc.IH [OF h1(2) ys, of "2 * k"] Suc.prems(3,4) s(1) h1(1,3) by (simp add: mult.commute)
  qed
qed simp

lemma ls_sort_correct:
  assumes "cmp_ok cmp" "ls_list kd h q xs" "xs \<noteq> []" "length xs \<le> fuel"
  shows "\<exists>q' h' ys. ls_loop fuel fuel kd cmp 1 q h = Some (Inr (q', h')) \<and> ls_list kd h' q' ys \<and> ordered cmp ys \<and>
    mset ys = mset xs \<and> (\<forall>z. filter (same_class cmp z) ys = filter (same_class cmp z) xs) \<and> (\<forall>p. p \<notin> set xs \<longrightarrow> h' p = h p)"
proof -
  have "length xs - 1 < fuel" using assms(3,4) by (cases xs) auto
  then obtain q' h' where r: "ls_loop fuel fuel kd cmp 1 q h = Some (Inr (q', h'))" "ls_list kd h' q' (sort_from cmp 1 xs)"
      "\<forall>p. p \<notin> set xs \<longrightarrow> h' p = h p"
    using ls_loop_sorts [OF assms(2,3) zero_less_one assms(4), of fuel cmp] by blast
  have "ordered cmp (sort_from cmp 1 xs)" "mset (sort_from cmp 1 xs) = mset xs"
    "\<forall>z. filter (same_class cmp z) (sort_from cmp 1 xs) = filter (same_class cmp z) xs"
    using sort_from_sorts [OF assms(1) zero_less_one runs_one, of xs] by blast+
  then show ?thesis using r by blast
qed

lemma sorts_Nil: "repr h None [] \<Longrightarrow> sorts repr cmp h [] (Some (Inr (None, h)))"
  by (auto simp: sorts_def ordered_def)

subsection \<open>Properties\<close>

text \<open>
  C19: the sort macros. Given a comparison that is a total preorder and a list of \<open>n\<close> nodes,
  \<open>LL_SORT\<close>, \<open>DL_SORT\<close> and \<open>CDL_SORT\<close> end within \<open>n\<close> rounds of \<open>n\<close> merges each, and leave a list of
  the same kind with the same nodes in ascending order; nodes that compare equal keep their
  order, and no other node is touched.
\<close>

theorem sort_macros_sort:
  assumes "cmp_ok cmp" "length xs \<le> fuel"
  shows "(llist h q xs \<longrightarrow> sorts llist cmp h xs (LL_SORT fuel q cmp h)) \<and>
    (dlist h q xs \<longrightarrow> sorts dlist cmp h xs (DL_SORT fuel q cmp h)) \<and>
    (clist h q xs \<longrightarrow> sorts clist cmp h xs (CDL_SORT fuel q cmp h))"
proof (cases "xs = []")
  case True
  then show ?thesis using sorts_Nil [of llist h cmp] sorts_Nil [of dlist h cmp] sorts_Nil [of clist h cmp]
    by (simp add: LL_SORT_def DL_SORT_def CDL_SORT_def)
next
  case False
  have "ls_list kd h q xs \<Longrightarrow> q \<noteq> None \<and> sorts (ls_list kd) cmp h xs (ls_loop fuel fuel kd cmp 1 q h)" for kd
    using ls_sort_correct [OF assms(1) _ False assms(2), of kd h q] ls_listD(2) [of kd h q xs] False unfolding sorts_def by auto
  from this [of Singly] this [of Doubly] this [of Circular] show ?thesis
    by (simp add: LL_SORT_def DL_SORT_def CDL_SORT_def ls_list_def)
qed

theorem sort_macros_sort_witness:
  "sorts dlist (\<lambda>a b. int a - int b) [7 \<mapsto> \<lparr>dl_prev = Some 4, dl_next = Some 4\<rparr>, 4 \<mapsto> \<lparr>dl_prev = Some 7, dl_next = None\<rparr>] [7, 4]
     (DL_SORT 2 (Some 7) (\<lambda>a b. int a - int b) [7 \<mapsto> \<lparr>dl_prev = Some 4, dl_next = Some 4\<rparr>, 4 \<mapsto> \<lparr>dl_prev = Some 7, dl_next = None\<rparr>])"
proof -
  have "cmp_ok (\<lambda>a b. int a - int b)" by (auto simp: cmp_ok_def)
  from sort_macros_sort [OF this, of "[7, 4]" 2 "[7 \<mapsto> \<lparr>dl_prev = Some 4, dl_next = Some 4\<rparr>, 4 \<mapsto> \<lparr>dl_prev = Some 7, dl_next = None\<rparr>]" "Some 7"]
  show ?thesis by (auto simp: dlist_def)
qed

text \<open>
  C21: insertion in order. Nodes inserted one after the other with \<open>LL_INSERT_INORDER\<close>,
  \<open>DL_INSERT_INORDER\<close> or \<open>CDL_INSERT_INORDER\<close> into an empty list are a list of that kind, in
  ascending order, of exactly these nodes; each search for the place ends within as many
  turns as there are nodes.
\<close>

theorem inorder_macros_sort:
  assumes "cmp_ok cmp" "distinct as" "set as \<subseteq> dom h" "length as \<le> fuel"
  shows "(\<exists>q h' ys. insert_each LL_INSERT_INORDER fuel cmp as (None, h) = Some (Inr (q, h')) \<and> llist h' q ys \<and> ordered cmp ys \<and> mset ys = mset as) \<and>
    (\<exists>q h' ys. insert_each DL_INSERT_INORDER fuel cmp as (None, h) = Some (Inr (q, h')) \<and> dlist h' q ys \<and> ordered cmp ys \<and> mset ys = mset as) \<and>
    (\<exists>q h' ys. insert_each CDL_INSERT_INORDER fuel cmp as (None, h) = Some (Inr (q, h')) \<and> clist h' q ys \<and> ordered cmp ys \<and> mset ys = mset as)"
  using ll_inorder.insert_each_sorts [OF assms] dl_inorder.insert_each_sorts [OF assms] cdl_inorder.insert_each_sorts [OF assms] by blast

theorem inorder_macros_sort_witness:
  "\<exists>q h' ys. insert_each CDL_INSERT_INORDER 2 (\<lambda>a b. int a - int b) [9, 5]
     (None, [5 \<mapsto> \<lparr>dl_prev = None, dl_next = None\<rparr>, 9 \<mapsto> \<lparr>dl_prev = None, dl_next = None\<rparr>]) = Some (Inr (q, h')) \<and>
     clist h' q ys \<and> ordered (\<lambda>a b. int a - int b) ys \<and> mset ys = {#5, 9#}"
proof -
  have "cmp_ok (\<lambda>a b. int a - int b)" by (auto simp: cmp_ok_def)
  from inorder_macros_sort [OF this, of "[9, 5]" "[5 \<mapsto> \<lparr>dl_prev = None, dl_next = None\<rparr>, 9 \<mapsto> \<lparr>dl_prev = None, dl_next = None\<rparr>]" 2]
  show ?thesis by (auto simp: add_mset_commute)
qed

end
