(* ===== verification/Spec2Isabelle.thy ===== *)
theory Spec2Isabelle
  imports Example_Start Large_Dao Memory Utlist_Sort
begin

text \<open>
  A model of \<open>rpld\<close>, a routing daemon for RPL (RFC 6550, storing mode) on Linux, and the
  theorems that make it correct. The daemon reads a configuration, opens a raw ICMPv6 socket
  and a routing socket, and then answers events one at a time: a packet arrives, or a timer
  of a dag or of an interface fires. Its state is the list of interfaces; an interface has
  instances, an instance has dags (destination oriented directed acyclic graphs), a dag has a
  parent, children and pending acknowledgements.

  \<^bold>\<open>Parts, theories and sources\<close>
  \<^item> \<open>Rpld_Prelude\<close>: machine integers, faults, sequencing of fallible code, bounded reads and
    writes. \<open>Environment\<close>: the calls to the kernel, libev, libmnl and the allocator as events
    of a trace, their answers as an arbitrary record \<open>env\<close>.
  \<^item> \<open>Utlist\<close> (\<open>utlist.h\<close>, \<open>list.h\<close>): the list macros that the daemon uses, on an explicit heap,
    and the contract \<open>linked_list\<close> by which the other theories use plain lists. \<open>Utlist_Dl\<close>,
    \<open>Utlist_Ll\<close>, \<open>Utlist_Cdl\<close>: the other macros for doubly linked, singly linked and circular
    lists, with the contract \<open>inorder_list\<close> of insertion in order; \<open>Utlist_Sort\<close>: the three sort
    macros, which run the algorithm of theory \<open>Merge_Sort\<close>. \<open>Keyed_List\<close>: the contract of the
    searches over keyed lists, interpreted on the searches of the daemon.
  \<^item> \<open>Buffer\<close> (\<open>buffer.c\<close>): the growing buffer and its contract. \<open>Rpl_Wire\<close> (\<open>rpl.h\<close>): the
    message structures and their bytes, with one contract for all of them.
  \<^item> \<open>Structs\<close> (\<open>dag.h\<close>, \<open>config.h\<close>, \<open>helpers.h\<close>): the records of the state. \<open>Helpers\<close>
    (\<open>helpers.c\<close>), \<open>Netlink\<close> (\<open>netlink.c\<close>), \<open>Send\<close> (\<open>send.c\<close>), \<open>Recv\<close> (\<open>recv.c\<close>).
  \<^item> \<open>Dag\<close> (\<open>dag.c\<close>): instances, dags, children, the builders of the messages. \<open>Dag_Table\<close>: the
    two-level list as a table keyed by instance and DODAG id, contract \<open>dag_store\<close>.
  \<^item> \<open>Process\<close> (\<open>process.c\<close>): the handlers. \<open>Iface_Invariant\<close>: the invariant of an interface.
    \<open>Dio_Handler\<close>, \<open>Dao_Handler\<close>, \<open>Dis_Handler\<close>: what each handler does on every path.
  \<^item> \<open>Config\<close>, \<open>Config_Load\<close>, \<open>Config_Free\<close> (\<open>config.c\<close>): from the Lua configuration to the
    interfaces, and their release. \<open>Socket\<close> (\<open>socket.c\<close>), \<open>Log\<close> (\<open>log.c\<close>).
  \<^item> \<open>Daemon\<close> (\<open>rpld.c\<close>): the callbacks and the event loop as a step relation. \<open>Rpld_Main\<close>
    (\<open>rpld.c\<close>): the command line, start-up and shut-down.
    \<open>Memory\<close>: the objects on the heap during the loop.
  \<^item> \<open>Dodag\<close>: the protocol as an abstract machine, with its invariant. \<open>Network\<close>: daemons on a
    common medium, and that every turn of one of them is a step of that machine.
    \<open>Network_Join\<close>: what the network can always do next. \<open>Large_Dao\<close>: a DAO that exceeds the
    receiver's buffer. \<open>Started_Net\<close>: the network from the
    command lines of the daemons on. \<open>Example_Node\<close>, \<open>Example_Net\<close>, \<open>Example_Config\<close>,
    \<open>Example_Start\<close>: concrete nodes, networks and configurations for the witnesses.

  \<^bold>\<open>How the model reads\<close>
  A C function that changes state is a function that returns the changed state; \<open>fault + 'a\<close>
  is the type of a run that may end in an \<open>exit\<close>, a failed assertion or undefined behaviour.
  Every return of a handler is a value of its own. Pointers into lists are indices, which is
  sound since the daemon only ever appends to its lists while the loop runs; the one place
  where freed memory matters, an instance that \<open>dag_create\<close> frees while it stays linked, is
  a flag that turns each later access into a fault, and \<open>config_free\<close>, which unlinks what it
  has freed, is modelled on the explicit heap. The macros of \<open>utlist.h\<close> take their arguments by
  value: an element argument is a pointer of its own, not the variable \<open>head\<close> that the macro
  assigns. Code outside the repository is a parameter:
  \<open>env\<close>, and for the configuration \<open>lua_api\<close> and \<open>sys_api\<close>.

  \<^bold>\<open>What is shown\<close>
  \<^item> Networks: however many daemons run in whatever interleaving on a medium that may lose,
    repeat and reorder packets, the parents of a dag form a graph without cycles that leads
    to the configured roots, all members agree on version and prefix, and the network can
    always complete the dag. The daemons refine the abstract protocol turn by turn.
  \<^item> Two nodes: a DIO makes the receiver join, its DAO makes the parent learn the child and
    answer, and the answer gives the child its default route; messages are read as they were
    written.
  \<^item> One node: each handler on all its paths, the errors included; the table of dags; what a
    sent DAO contains and when it does not fit, at the sender or at the receiver, and what is
    read of a DAO that ends within a target.
  \<^item> Runs: for every order of packets and timers the invariant holds, dags keep their
    identity and their parent, parents' ranks never rise, no memory leaks, and a callback
    returns or ends in one of three faults, each with the packets that cause it. From the
    command line on: what the configuration yields and when it satisfies the invariant, what is
    in place when the loop starts, that configured roots stay roots, and how a failed start and
    the shut-down end.
  \<^item> The components: lists of all three kinds refine sequences, inserting in order and the sort
    macros sort, the latter stably and within a number of rounds; the buffer refines byte sequences with the
    bounds of its growth, the structures of the messages have the layout of RFC 6550, the
    strings that are accepted as a prefix are characterised, addresses are sorted as promised,
    the socket is closed on every failing path, messages reach the log.

  \<^bold>\<open>Hypotheses\<close>
  \<open>memory_available\<close>: allocations succeed (without it the code writes through null pointers).
  \<open>length (stack_junk E) = 16\<close>: the uninitialised prefix on the stack has the size of an
  address. \<open>sys_ok\<close>: \<open>inet_pton\<close> stores sixteen bytes. \<open>prefixes_ok\<close>: the configuration names no
  prefix of more than 128 bits; \<open>config_load\<close> accepts up to 255, and such a dag does not satisfy
  the invariant. It is assumed by the theorems on started daemons and networks and nowhere else.

  \<^bold>\<open>Bounds\<close>
  Loops are structural recursions or have a measure (\<open>dao_options\<close>: the bytes left;
  \<open>getopt\<close>: the characters left). Only the walks over the heap have fuel, as a corrupted
  list may be circular; the length of the list is enough, and theorems say so. The sizes of
  the sort macros' runs are natural numbers; in C they are \<open>int\<close>, which lists of less than
  \<open>2 ^ 30\<close> nodes do not exceed. A network has up to 65535 interfaces, as the rank has sixteen
  bits and grows by one from parent to child. The bound of
  eighteen bytes behind a packet (\<open>short_packet\<close>) is how far a target option is read beyond
  the message; 64 KiB is the buffer's own limit, which a DAO with up to 3274 children meets. The buffer that receives it has 1500 bytes:
  72 children are the most that it holds.

  \<^bold>\<open>Not modelled\<close>
  Log output of the other components (it does not change their state), the usage text,
  libev's watchers beyond the calls that start and stop timers (that \<open>sigint_cb\<close> ends
  the loop is a rule of \<open>rpld_main\<close>), the ICMPv6 filter that is built and never installed, the
  variants of the macros of \<open>utlist.h\<close> under \<open>NO_DECLTYPE\<close>, which are for compilers without
  \<open>typeof\<close> and are not compiled.
\<close>

section \<open>The protocol between two nodes, and one message at a time\<close>

text \<open>
  C5: a DIO that a node sends about a well-formed dag, received by a node that does not know
  the dag, makes the receiver join: it has then a dag with the same DODAG id, version and
  prefix, the sender as its parent at the sender's rank, and a rank one above it. Nothing
  else in its table changes, and it announces itself to the sender with a DAO; the DAOs of
  its dags have to fit into 64 KiB.
\<close>

theorem dio_round_trip:
  assumes "memory_available E" "length (stack_junk E) = 16" "iface_ok i" "wf_addr from1" "wf_dag d"
    "dag_table i (iid, dodagid d) = None" "\<forall>d \<in> ran (dag_table i). dao_fits d"
  shows "\<exists>i' w' d'. process_dio E i (drop 4 (dio_message iid d) @ rest) (length (dio_message iid d) - 4) from1 w
      = Inr (Dio_done, i', w') \<and> joined_dag d from1 d' \<and> dag_table i' = (dag_table i)((iid, dodagid d) \<mapsto> d') \<and>
      last (w_trace w') = Sendmsg (icmp_call i (the (ifaddr_src i)) from1 (dao_message iid d'))"
proof -
  obtain i' w' d' es where "process_dio E i (drop 4 (dio_message iid d) @ rest) (length (dio_message iid d) - 4) from1 w
      = Inr (Dio_done, i', w')" "joined_dag d from1 d'" "dag_table i' = (dag_table i)((iid, dodagid d) \<mapsto> d')"
      "w_trace w' = w_trace w @ es @ [Sendmsg (icmp_call i (the (ifaddr_src i)) from1 (dao_message iid d'))]"
    using dio_delivery [OF assms] by blast
  then show ?thesis by (intro exI [of _ i'] exI [of _ w'] exI [of _ d']) simp
qed

theorem dio_round_trip_witness:
  "\<exists>i' w' d'. process_dio env0 new_node (drop 4 (dio_message 7 root_dag) @ []) (length (dio_message 7 root_dag) - 4)
     (addr_of 1) world0 = Inr (Dio_done, i', w') \<and> joined_dag root_dag (addr_of 1) d' \<and>
     dag_table i' = (dag_table new_node)((7, addr_of 1) \<mapsto> d') \<and>
     last (w_trace w') = Sendmsg (icmp_call new_node (the (ifaddr_src new_node)) (addr_of 1) (dao_message 7 d'))"
  using dio_round_trip [of env0 new_node "addr_of 1" root_dag 7 "[]" world0] by (simp add: ran_def)

text \<open>
  C4: the three messages by which a node joins a parent. The child processes the parent's
  DIO, the parent processes the DAO the child sent in return, the child processes the
  DAO-ACK the parent sent in return. In the end the child has the dag with the parent as its
  parent, the parent has the child's address among the dag's children and has asked for a route
  to each of them, and the child has a default route to the parent. The DAO has to fit into
  64 KiB, and to leave eighteen bytes of the parent's receive buffer unused.
\<close>

theorem join_handshake:
  assumes env: "memory_available E" "length (stack_junk E) = 16"
    and root: "iface_ok r" "dag_table r (iid, did) = Some d" and rest: "18 \<le> length junk"
    and leaf: "iface_ok i" "dag_table i (iid, did) = None" "\<forall>d \<in> ran (dag_table i). dao_fits d"
    and addrs: "wf_addr parent_addr" "wf_addr child_addr1"
  shows "\<exists>i1 w1 d1 r1 v1 es d2 w2 t.
    process_dio E i (drop 4 (dio_message iid d) @ junk) (length (dio_message iid d) - 4) parent_addr w = Inr (Dio_done, i1, w1) \<and>
    last (w_trace w1) = Sendmsg (icmp_call i (the (ifaddr_src i)) parent_addr (dao_message iid d1)) \<and>
    process_dao E r (drop 4 (dao_message iid d1) @ junk) (length (dao_message iid d1) - 4) child_addr1 v = Inr (Dao_done, r1, v1) \<and>
    w_trace v1 = w_trace v @ es @ [Sendmsg (icmp_call r (the (ifaddr_src r)) child_addr1 (dao_ack_message iid d2))] \<and>
    routes_for (ifindex r) (childs d2) es \<and>
    process_daoack E i1 (drop 4 (dao_ack_message iid d2) @ junk) (length (dao_ack_message iid d2) - 4) parent_addr w1
      = Inr (Daoack_done, i1, w2) \<and>
    dag_table i1 (iid, did) = Some d1 \<and> joined_dag d parent_addr d1 \<and>
    dag_table r1 (iid, did) = Some d2 \<and> self d1 \<in> child_addr ` set (childs d2) \<and>
    last (w_trace w2) = Netlink (route_default_request t (ifindex i) parent_addr)"
proof -
  have inv: "keys_inv r" using root by (simp add: iface_ok_def)
  obtain p where p: "lookup_key r (iid, did) = Inr (Some p)" "get_dag r p = d" using ds.presentE [OF inv root(2)] by blast
  have d: "wf_dag d" "dodagid d = did" using iface_ok_lookupD(2,8) [OF root(1) p(1)] p(2) by auto
  obtain i1 w1 d1 es1 where dio: "process_dio E i (drop 4 (dio_message iid d) @ junk) (length (dio_message iid d) - 4) parent_addr w
      = Inr (Dio_done, i1, w1)" "joined_dag d parent_addr d1" "dag_table i1 = (dag_table i)((iid, dodagid d) \<mapsto> d1)"
      "iface_ok i1" "wf_dag d1" "ifindex i1 = ifindex i"
      "w_trace w1 = w_trace w @ es1 @ [Sendmsg (icmp_call i (the (ifaddr_src i)) parent_addr (dao_message iid d1))]"
    using dio_delivery [OF env leaf(1) addrs(1) d(1) leaf(2) [folded d(2)] leaf(3), of junk w] by blast
  let ?d2 = "d\<lparr>childs := learn child_addr1 (self d1 # map child_addr (childs d1)) (childs d)\<rparr>"
  have k: "dag_table r (iid, dodagid d1) = Some d" using root(2) d(2) dio(2) by (simp add: joined_dag_def)
  obtain r1 v1 es where dao: "process_dao E r (drop 4 (dao_message iid d1) @ junk) (length (dao_message iid d1) - 4) child_addr1 v
      = Inr (Dao_done, r1, v1)" "dag_table r1 = (dag_table r)((iid, dodagid d1) \<mapsto> ?d2)"
      "w_trace v1 = w_trace v @ es @ [Sendmsg (icmp_call r (the (ifaddr_src r)) child_addr1 (dao_ack_message iid ?d2))]"
      "routes_for (ifindex r) (childs ?d2) es"
    using dao_delivery [OF env(1) root(1) addrs(2) dio(5) k refl rest, of v] by (auto simp: Let_def)
  have i1: "keys_inv i1" "dag_table i1 (iid, dodagid ?d2) = Some d1"
      "parent d1 = Some \<lparr>peer_addr = parent_addr, peer_rank = my_rank d\<rparr>" "wf_addr (dodagid ?d2)"
    using dio d by (auto simp: iface_ok_def joined_dag_def wf_dag_def)
  obtain w2 where ack: "process_daoack E i1 (drop 4 (dao_ack_message iid ?d2) @ junk) (length (dao_ack_message iid ?d2) - 4) parent_addr w1
      = Inr (Daoack_done, i1, w2)"
      "w_trace w2 = w_trace w1 @ [Netlink (route_default_request (sys_time E (w_trace w1)) (ifindex i) parent_addr)]"
    using daoack_delivery [OF i1, of E junk parent_addr w1] dio(6) by auto
  have "self d1 \<in> child_addr ` set (childs ?d2)" by (simp add: learn_addrs)
  moreover have "dag_table i1 (iid, did) = Some d1" "dag_table r1 (iid, did) = Some ?d2"
    using dio(2,3) dao(2) d(2) by (simp_all add: joined_dag_def)
  ultimately show ?thesis
    using dio(1,2,7) dao(1,3,4) ack
    by (intro exI [of _ i1] exI [of _ w1] exI [of _ d1] exI [of _ r1] exI [of _ v1] exI [of _ es] exI [of _ ?d2] exI [of _ w2]
        exI [of _ "sys_time E (w_trace w1)"]) simp
qed

theorem join_handshake_witness:
  "\<exists>i1 w1 d1 r1 v1 es d2 w2 t.
    process_dio env0 new_node (drop 4 (dio_message 7 root_dag) @ replicate 18 0) (length (dio_message 7 root_dag) - 4) (addr_of 1) world0 = Inr (Dio_done, i1, w1) \<and>
    last (w_trace w1) = Sendmsg (icmp_call new_node (the (ifaddr_src new_node)) (addr_of 1) (dao_message 7 d1)) \<and>
    process_dao env0 root_node (drop 4 (dao_message 7 d1) @ replicate 18 0) (length (dao_message 7 d1) - 4) (addr_of 2) world0 = Inr (Dao_done, r1, v1) \<and>
    w_trace v1 = w_trace world0 @ es @ [Sendmsg (icmp_call root_node (the (ifaddr_src root_node)) (addr_of 2) (dao_ack_message 7 d2))] \<and>
    routes_for (ifindex root_node) (childs d2) es \<and>
    process_daoack env0 i1 (drop 4 (dao_ack_message 7 d2) @ replicate 18 0) (length (dao_ack_message 7 d2) - 4) (addr_of 1) w1
      = Inr (Daoack_done, i1, w2) \<and>
    dag_table i1 (7, addr_of 1) = Some d1 \<and> joined_dag root_dag (addr_of 1) d1 \<and>
    dag_table r1 (7, addr_of 1) = Some d2 \<and> self d1 \<in> child_addr ` set (childs d2) \<and>
    last (w_trace w2) = Netlink (route_default_request t (ifindex new_node) (addr_of 1))"
  using join_handshake [of env0 root_node 7 "addr_of 1" root_dag "replicate 18 0" new_node "addr_of 1" "addr_of 2" world0 world0]
  by (simp add: ran_def)

text \<open>
  C6: a DAO that a node sends about a well-formed dag, received by a node that has the dag,
  makes the receiver learn the sender's own address and those of all its children, each once
  and reached through the sender; it asks for a route to every child it then has and
  answers with a DAO-ACK to the sender. Eighteen bytes of the receive buffer stay behind the
  message.
\<close>

theorem dao_round_trip:
  assumes "memory_available E" "iface_ok i" "wf_addr from1" "wf_dag d" "dag_table i (iid, dodagid d) = Some dr"
    "18 \<le> length rest" "d' = dr\<lparr>childs := learn from1 (self d # map child_addr (childs d)) (childs dr)\<rparr>"
  shows "\<exists>i' w' es. process_dao E i (drop 4 (dao_message iid d) @ rest) (length (dao_message iid d) - 4) from1 w
      = Inr (Dao_done, i', w') \<and>
    dag_table i' = (dag_table i)((iid, dodagid d) \<mapsto> d') \<and>
    child_addr ` set (childs d') = child_addr ` set (childs dr) \<union> {self d} \<union> child_addr ` set (childs d) \<and>
    distinct (map child_addr (childs d')) \<and> routes_for (ifindex i) (childs d') es \<and>
    w_trace w' = w_trace w @ es @ [Sendmsg (icmp_call i (the (ifaddr_src i)) from1 (dao_ack_message iid d'))]"
proof -
  have inv: "keys_inv i" using assms(2) by (simp add: iface_ok_def)
  obtain p where p: "lookup_key i (iid, dodagid d) = Inr (Some p)" "get_dag i p = dr"
    using ds.presentE [OF inv assms(5)] by blast
  have "distinct (map child_addr (childs dr))"
    using iface_ok_lookupD(2) [OF assms(2) p(1)] p(2) by (simp add: wf_dag_def)
  then have "distinct (map child_addr (childs d'))" by (simp add: assms(7) learn_distinct)
  moreover have "child_addr ` set (childs d') = child_addr ` set (childs dr) \<union> {self d} \<union> child_addr ` set (childs d)"
    by (auto simp: assms(7) learn_addrs)
  ultimately show ?thesis
    using dao_delivery [OF assms(1-5) refl assms(6), of w] unfolding assms(7) Let_def by blast
qed

theorem dao_round_trip_witness:
  "\<exists>i' w' es. process_dao env0 root_node (drop 4 (dao_message 7 leaf_dag) @ replicate 18 0)
       (length (dao_message 7 leaf_dag) - 4) (addr_of 9) world0 = Inr (Dao_done, i', w') \<and>
    (\<exists>d'. dag_table i' (7, addr_of 1) = Some d' \<and> child_addr ` set (childs d') = {addr_of 3, addr_of 4} \<and>
       routes_for (ifindex root_node) (childs d') es)"
proof -
  define d' where "d' = root_dag\<lparr>childs := learn (addr_of 9) (self leaf_dag # map child_addr (childs leaf_dag)) (childs root_dag)\<rparr>"
  from dao_round_trip [of env0 root_node "addr_of 9" leaf_dag 7 root_dag "replicate 18 0" d' world0, OF _ _ _ _ _ _ d'_def]
  obtain i' w' es where "process_dao env0 root_node (drop 4 (dao_message 7 leaf_dag) @ replicate 18 0)
       (length (dao_message 7 leaf_dag) - 4) (addr_of 9) world0 = Inr (Dao_done, i', w')"
      "dag_table i' = (dag_table root_node)((7, addr_of 1) \<mapsto> d')"
      "child_addr ` set (childs d') = child_addr ` set (childs root_dag) \<union> {self leaf_dag} \<union> child_addr ` set (childs leaf_dag)"
      "routes_for (ifindex root_node) (childs d') es"
    by auto
  then show ?thesis
    by (intro exI [of _ i'] exI [of _ w'] exI [of _ es] conjI exI [of _ d']) (simp_all add: root_dag_def leaf_dag_def insert_commute)
qed

text \<open>
  C12: processing a DIO. Whatever the message, the handler ends in one of four ways: the
  DIO is about a dag the node has or can create and its rank is acceptable, and then that dag
  takes the rank, keeps or gets its parent, and exactly one DAO goes to the parent; or the
  node's state and the outside world stay as they are; or the option's prefix length is
  above 128 bits and the copy into the sixteen bytes of the prefix is out of bounds; or a
  dag has more children than a DAO of 64 KiB holds and the program exits.
\<close>

theorem process_dio_correct:
  assumes "memory_available E" "length (stack_junk E) = 16" "iface_ok i" "wf_addr from1"
    "len \<le> length msg" "dio = nd_rpl_dio_of (take 24 msg)"
  shows "(\<exists>d d' i' w'. 24 \<le> len \<and> process_dio E i msg len from1 w = Inr (Dio_done, i', w') \<and>
        dio_accepted E i dio msg (len - 24) from1 w d d' i' w' \<and> iface_ok i') \<or>
    (\<exists>ex. ex \<noteq> Dio_done \<and> process_dio E i msg len from1 w = Inr (ex, i, w) \<and>
        (24 \<le> len \<longrightarrow> (\<forall>d. dio_subject E i dio msg (len - 24) d \<longrightarrow> \<not> rank_accepted d (ntohs (dio_dagrank dio))))) \<or>
    (process_dio E i msg len from1 w = Inl Out_of_bounds \<and> 128 < unat (msg ! 26) \<and> dag_table i (dio_key dio) = None) \<or>
    (process_dio E i msg len from1 w = Inl (Exit 1) \<and> (\<exists>d \<in> ran (dag_table i). \<not> dao_fits d))"
  using process_dio_total [OF assms(1-5), of w]
proof (elim disjE exE conjE)
  fix ex i' w' assume run: "process_dio E i msg len from1 w = Inr (ex, i', w')"
  show ?thesis
  proof (cases "ex = Dio_done")
    case True
    moreover have "24 \<le> len" using run True by (cases rule: process_dio_InrE) auto
    ultimately show ?thesis
      using process_dio_spec [OF assms(1-4) run] process_dio_iface_ok [OF assms(1-4) run] run assms(6) by blast
  next
    case False
    then show ?thesis using process_dio_spec [OF assms(1-4) run] run assms(6) by blast
  qed
qed (use assms(6) in blast)+

theorem process_dio_correct_witness:
  "(\<exists>d d' i' w'. 24 \<le> length (dio_message 7 root_dag) - 4 \<and>
      process_dio env0 new_node (drop 4 (dio_message 7 root_dag)) (length (dio_message 7 root_dag) - 4) (addr_of 1) world0
        = Inr (Dio_done, i', w') \<and>
      dio_accepted env0 new_node (nd_rpl_dio_of (take 24 (drop 4 (dio_message 7 root_dag)))) (drop 4 (dio_message 7 root_dag))
        (length (dio_message 7 root_dag) - 4 - 24) (addr_of 1) world0 d d' i' w' \<and> iface_ok i')"
proof -
  let ?m = "drop 4 (dio_message 7 root_dag)" and ?n = "length (dio_message 7 root_dag) - 4"
  note m = dio_message_destprefix [OF example_dags(1), of ?m 7 "[]" env0 "?n - 24"]
  have sub: "\<exists>d. dio_subject env0 new_node (nd_rpl_dio_of (take 24 ?m)) ?m (?n - 24) d \<and>
      rank_accepted d (ntohs (dio_dagrank (nd_rpl_dio_of (take 24 ?m))))"
    using m(1) by (simp add: dio_subject_def rank_accepted_def)
  have "24 \<le> ?n" "\<not> 128 < unat (?m ! 26)"
    using dio_chunks_message(3) [OF example_dags(1), of 7] m(2) by (simp_all add: root_dag_def prefix0_def)
  then show ?thesis
    using process_dio_correct [of env0 new_node "addr_of 1" ?n ?m _ world0, OF _ _ _ _ _ refl] sub
    by (auto simp: ran_def)
qed

text \<open>
  C14: a DIO about an unknown dag whose option announces a prefix of more than 128 bits, and
  is as long as it announces, makes the handler copy more than sixteen bytes into the
  sixteen bytes of the prefix on its stack.
\<close>

theorem dio_prefix_overflow:
  assumes "keys_inv i" "dio = nd_rpl_dio_of (take 24 msg)" "dag_table i (dio_key dio) = None"
    "msg ! 24 = 3" "128 < unat (msg ! 26)" "32 + unat (bits_to_bytes (msg ! 26)) \<le> len" "len \<le> length msg"
    "length (stack_junk E) = 16"
  shows "process_dio E i msg len from1 w = Inl Out_of_bounds"
proof -
  have "lookup_key i (dio_key dio) = Inr None" using ds.absent_iff [OF assms(1)] assms(3) by simp
  then have dl: "dag_lookup i (dio_instanceid dio) (dio_dagid dio) = Inr None" by (simp add: lookup_key_def dio_key_def)
  have "16 < unat (bits_to_bytes (msg ! 26))" using assms(5) by (simp add: unat_bits_to_bytes)
  then have "read_destprefix E msg (len - 24) = Inl Out_of_bounds"
    using assms by (auto simp: read_destprefix_def mem_u8_def mem_read_def mem_write_def Let_def)
  then show ?thesis
    using assms dl by (simp add: process_dio_def dio_find_dag_def mem_read_def Let_def)
qed

theorem dio_prefix_overflow_witness:
  "process_dio env0 new_node (replicate 24 0 @ [3, 0, 136, 0, 0, 0, 0, 0] @ replicate 17 0) 49 (addr_of 9) world0
     = Inl Out_of_bounds"
proof -
  have "unat (bits_to_bytes 136) = 17" by (simp add: unat_bits_to_bytes)
  moreover have "keys_inv new_node" using example_nodes_ok(1) by (simp add: iface_ok_def)
  ultimately show ?thesis
    using dio_prefix_overflow [of new_node _ "replicate 24 0 @ [3, 0, 136, 0, 0, 0, 0, 0] @ replicate 17 0" 49 env0, OF _ refl]
    by (simp add: nth_append)
qed

text \<open>
  C15: a DAO for a known dag whose last option, behind any number of whole targets, is a
  target option that the message ends within: of its twenty bytes only \<open>m\<close> belong to the
  message. \<open>process_dao\<close> reads all of them nevertheless: it learns a child whose address it
  takes from behind the message and answers the DAO, or, where the buffer ends before, it
  reads beyond the buffer.
\<close>

theorem dao_short_target_reads_beyond:
  assumes "memory_available E" "iface_ok i" "wf_addr from1" "length hdr = 20"
    "dag_table i (dao_key (nd_rpl_dao_of hdr)) = Some d" "\<forall>a \<in> set as. wf_addr a" "2 \<le> m" "m < 20" "m \<le> 2 + unat l"
    "msg = hdr @ concat (map target_bytes as) @ [RPL_DAO_RPLTARGET, l] @ rest" "len = 20 + 20 * length as + m"
  shows "if length rest < 18 then process_dao E i msg len from1 w = Inl Out_of_bounds
    else \<exists>i' w'. process_dao E i msg len from1 w = Inr (Dao_done, i', w') \<and>
      dag_table i' = (dag_table i)(dao_key (nd_rpl_dao_of hdr) \<mapsto>
        d\<lparr>childs := learn from1 (as @ [take 16 (drop 2 rest)]) (childs d)\<rparr>)"
proof -
  have m: "2 \<le> int m" "int m \<le> 2 + int (unat l)" "int (len - 20) = 20 * int (length as) + int m" "20 \<le> len"
    using assms(7,9,11) by linarith+
  note o = dao_options_last_target [OF assms(6) m(1,2) assms(10), of E from1 d w, folded m(3), unfolded assms(4)]
  have "keys_inv i" using assms(2) by (simp add: iface_ok_def)
  note p = process_dao_of_options [OF this assms(4,5,10) m(4), of E from1 w]
  show ?thesis using o p(1) p(2) [OF assms(1-3)] assms(1) by (cases "length rest < 18") auto
qed

theorem dao_short_target_reads_beyond_witness:
  "\<exists>i' w' d'. process_dao env0 root_node (([7, 0, 0, 0] @ addr_of 1) @ [RPL_DAO_RPLTARGET, 0] @ [0, 0] @ addr_of 8)
      22 (addr_of 9) world0 = Inr (Dao_done, i', w') \<and> dag_table i' (7, addr_of 1) = Some d' \<and> addr_of 8 \<in> child_addr ` set (childs d')"
proof -
  have k: "dao_key (nd_rpl_dao_of ([7, 0, 0, 0] @ addr_of 1)) = (7, addr_of 1)"
    by (simp add: dao_key_def nd_rpl_dao_of_def addr_of_def)
  have l: "length ([7, 0, 0, 0] @ addr_of 1) = 20" "length ([0, 0] @ addr_of 8) = 18" "take 16 (drop 2 ([0, 0] @ addr_of 8)) = addr_of 8"
    by (simp_all add: addr_of_def)
  from dao_short_target_reads_beyond [of env0 root_node "addr_of 9" "[7, 0, 0, 0] @ addr_of 1" root_dag "[]" 2 0 _ "[0, 0] @ addr_of 8" _ world0,
      OF _ _ _ l(1) _ _ _ _ _ refl refl]
  show ?thesis unfolding k l by (auto simp: learn_addrs)
qed

text \<open>
  C13: a DIS is answered. The node sends one DIO for each of its dags on that interface, in
  the order of its lists, to the multicast group of all RPL nodes, with the instance, the
  rank and the prefix of the dag, and does nothing else; each dag's sequence number goes up
  by one.
\<close>

theorem dis_answered:
  assumes "memory_available E" "iface_find_by_ifindex is ifi = Some n" "iface_ok (is ! n)" "6 \<le> len" "len \<le> 6 + int (length rest)"
  shows "\<exists>i' w'. process E is (dis_message @ rest) len from1 (Some ifi) w = Inr (Pkt_dis, is[n := i'], w') \<and>
    (\<forall>k. dag_table i' k = map_option (\<lambda>d. d\<lparr>dtsn := dtsn d + 1\<rparr>) (dag_table (is ! n) k)) \<and>
    w_trace w' = w_trace w @ map (\<lambda>(iid, d). Sendmsg (icmp_call (is ! n) (the (ifaddr_src (is ! n))) all_rpl_addr (dio_message iid d)))
      (concat (map (\<lambda>r. map (Pair (instance_id r)) (dags r)) (rpls (is ! n))))"
proof -
  obtain i' w' where s: "process_dis E (is ! n) (drop 4 (dis_message @ rest)) (nat (len - 4)) from1 w = Inr (i', w')"
      "\<forall>k. dag_table i' k = map_option bump_dtsn (dag_table (is ! n) k)"
      "w_trace w' = w_trace w @ map (dio_event (is ! n)) (all_ptrs (is ! n))"
    using process_dis_spec [OF assms(1,3)] by blast
  have "process E is (dis_message @ rest) len from1 (Some ifi) w = Inr (Pkt_dis, is[n := i'], w')"
    using s(1) assms(2,4) by (simp add: process_def dis_message_def mem_u8_def Let_def)
  moreover have "bump_dtsn = (\<lambda>d. d\<lparr>dtsn := dtsn d + 1\<rparr>)" by (simp add: bump_dtsn_def fun_eq_iff)
  ultimately show ?thesis using s(2,3) all_ptrs_entries [of "is ! n"]
    by (intro exI [of _ i'] exI [of _ w']) (simp add: dio_events_entries)
qed

theorem dis_answered_witness:
  "\<exists>i' w'. process env0 [root_node] (dis_message @ []) 6 (addr_of 9) (Some 3) world0 = Inr (Pkt_dis, [root_node][0 := i'], w') \<and>
    w_trace w' = [Sendmsg (icmp_call root_node (addr_of 1) all_rpl_addr (dio_message 7 root_dag))]"
proof -
  have "rpls root_node = [\<lparr>instance_id = 7, dags = [root_dag], rpl_freed = False\<rparr>]" "ifaddr_src root_node = Some (addr_of 1)"
      "iface_find_by_ifindex [root_node] 3 = Some 0" "w_trace world0 = []"
    by (simp_all add: root_node_def iface_with_def world0_def)
  then show ?thesis
    using dis_answered [of env0 "[root_node]" 3 0 6 "[]" "addr_of 9" world0] by auto
qed

text \<open>
  C17: a packet that is no RPL message for one of the daemon's interfaces (too short, on an
  unknown interface, another ICMPv6 type, an unknown code) changes nothing.
\<close>

theorem foreign_packet_ignored:
  assumes "nat len \<le> length msg"
    "len < 4 \<or> iface_find_by_ifindex is ifi = None \<or> msg ! 0 \<noteq> ND_RPL_MESSAGE \<or>
     msg ! 1 \<notin> {ND_RPL_DAG_IS, ND_RPL_DAG_IO, ND_RPL_DAO, ND_RPL_DAO_ACK}"
  shows "\<exists>ex. process E is msg len from1 (Some ifi) w = Inr (ex, is, w)"
  using assms by (auto simp: process_def mem_u8_def Let_def split: option.splits)

theorem foreign_packet_ignored_witness:
  "\<exists>ex. process env0 [root_node] [ND_RPL_MESSAGE, 4, 0, 0] 4 (addr_of 9) (Some 3) world0 = Inr (ex, [root_node], world0)"
  using foreign_packet_ignored [of 4 "[ND_RPL_MESSAGE, 4, 0, 0]" "[root_node]" 3 env0 "addr_of 9" world0]
  by (simp add: ND_RPL_DAG_IS_def ND_RPL_DAG_IO_def ND_RPL_DAO_def ND_RPL_DAO_ACK_def)

section \<open>The table of dags\<close>

text \<open>
  C25: creating a dag that is not there yet. With memory \<open>dag_create\<close> succeeds, \<open>dag_lookup\<close>
  then finds the new dag with the given rank, version and prefix and no parent or children,
  every other lookup finds what it found before, and the dag's timer is started.
\<close>

theorem dag_create_then_lookup:
  assumes "keys_inv i" "dag_lookup i iid did = Inr None" "memory_available E"
  shows "\<exists>p i' w'. dag_create E i iid did t rank ver (Some dst) w = Inr (Some p, i', w') \<and> keys_inv i' \<and>
    dag_lookup i' iid did = Inr (Some p) \<and> get_dag i' p = fresh_dag did rank ver dst \<and>
    (\<forall>k. k \<noteq> (iid, did) \<longrightarrow> dag_table i' k = dag_table i k) \<and>
    w_trace w' = w_trace w @ [Ev_timer_start (Trickle_w (ifindex i) iid did) DEFAULT_TICKLE_T DEFAULT_TICKLE_T]"
proof -
  have none: "lookup_key i (iid, did) = Inr None" using assms(2) by (simp add: lookup_key_def)
  obtain p rs w' where c: "dag_create E i iid did t rank ver (Some dst) w = Inr (Some p, i\<lparr>rpls := rs\<rparr>, w')"
      "keys_inv (i\<lparr>rpls := rs\<rparr>)" "lookup_key (i\<lparr>rpls := rs\<rparr>) (iid, did) = Inr (Some p)"
      "dag_table (i\<lparr>rpls := rs\<rparr>) = (dag_table i)((iid, did) \<mapsto> fresh_dag did rank ver dst)"
      "w_trace w' = w_trace w @ [Ev_timer_start (Trickle_w (ifindex i) iid did) DEFAULT_TICKLE_T DEFAULT_TICKLE_T]"
    using dag_create_Inr [OF assms(1) none assms(3), of t rank ver dst w] by auto
  have "get_dag (i\<lparr>rpls := rs\<rparr>) p = fresh_dag did rank ver dst" using ds.present [OF c(2,3)] c(4) by simp
  with c show ?thesis
    by (intro exI [of _ p] exI [of _ "i\<lparr>rpls := rs\<rparr>"] exI [of _ w']) (auto simp: lookup_key_def)
qed

theorem dag_create_then_lookup_witness:
  "\<exists>p i' w'. dag_create env0 new_node 7 (addr_of 1) 5 1 1 (Some prefix0) world0 = Inr (Some p, i', w') \<and>
     dag_lookup i' 7 (addr_of 1) = Inr (Some p)"
proof -
  have "keys_inv new_node" using example_nodes_ok(1) by (simp add: iface_ok_def)
  moreover have "dag_lookup new_node 7 (addr_of 1) = Inr None" by (simp add: dag_lookup_def new_node_def iface_with_def)
  ultimately show ?thesis
    using dag_create_then_lookup [of new_node 7 "addr_of 1" env0 5 1 1 prefix0 world0] by auto
qed

text \<open>
  C26: creating a dag that is already there. \<open>dag_create\<close> reports failure, but it frees the
  instance the dag belongs to and leaves it on the interface's list: every later lookup in
  that instance follows a pointer to freed memory.
\<close>

theorem dag_create_duplicate_frees:
  assumes "keys_inv i" "dag_lookup i iid did = Inr (Some p)"
  shows "\<exists>i' w'. dag_create E i iid did t rank ver dst w = Inr (None, i', w') \<and>
    (\<forall>x. dag_lookup i' iid x = Inl Use_after_free)"
proof -
  have rl: "dag_lookup_rpl (rpls i) iid = Inr (index_of instance_id (rpls i) iid)"
    using assms(1) by (intro rpl_list.lookup_live) (simp add: keys_inv_def)
  obtain r d where r: "index_of instance_id (rpls i) iid = Some r" "index_of dodagid (dags (rpls i ! r)) did = Some d"
    using assms by (auto simp: dag_lookup_index split: option.splits)
  have "dag_lookup_dodag (dags (rpls i ! r)) did = Some d"
    using dag_list.lookup_live [of "dags (rpls i ! r)" did] r(2) by simp
  then have "dag_create E i iid did t rank ver dst w = Inr (None, free_rpl i r, release w)"
    by (simp add: dag_create_def rl r(1))
  moreover have "dag_lookup (free_rpl i r) iid x = Inl Use_after_free" for x
    using lookup_freed_rpl [OF r(1)] assms(1) by (simp add: dag_lookup_def free_rpl_def keys_inv_def)
  ultimately show ?thesis by blast
qed

theorem dag_create_duplicate_frees_witness:
  "\<exists>i' w'. dag_create env0 root_node 7 (addr_of 1) 5 1 1 (Some prefix0) world0 = Inr (None, i', w') \<and>
    dag_lookup i' 7 (addr_of 2) = Inl Use_after_free"
proof -
  have "keys_inv root_node" using example_nodes_ok(2) by (simp add: iface_ok_def)
  moreover have "dag_lookup root_node 7 (addr_of 1) = Inr (Some (0, 0))" by (simp add: dag_lookup_def root_node_def iface_with_def)
  ultimately show ?thesis
    using dag_create_duplicate_frees [of root_node 7 "addr_of 1" "(0, 0)" env0 5 1 1 "Some prefix0" world0] by auto
qed

section \<open>Sending\<close>

text \<open>
  C27: sending a DAO. If the dag's DAO fits into 64 KiB, exactly one message leaves: to the
  given address, from the interface's source address, carrying the dag's own address and
  its children as targets; all the buffer's memory is given back. The sequence number of the
  message is 0 whatever \<open>dsn\<close> is, and the pending acknowledgement is recorded under 0.
\<close>

theorem send_dao_exact:
  assumes "memory_available E" "wf_dag (get_dag i p)" "valid_dag i p" "\<not> rpl_freed (rpls i ! fst p)" "ifaddr_src i = Some src"
    "44 + 20 * length (childs (get_dag i p)) \<le> 64 * 1024"
  shows "\<exists>i' w' m. send_dao E i to p w = Inr (i', w') \<and>
    w_trace w' = w_trace w @ [Sendmsg (icmp_call i src to m)] \<and>
    m = [155, 2, 0, 0] @ [instance_id (rpls i ! fst p), 0x40, 0, 0] @ dodagid (get_dag i p) @
      concat (map target_bytes (self (get_dag i p) # map child_addr (childs (get_dag i p)))) \<and>
    dsn (get_dag i' p) = dsn (get_dag i p) + 1 \<and>
    pending_acks (get_dag i' p) = pending_acks (get_dag i p) @ [\<lparr>ack_dsn = 0\<rparr>] \<and>
    w_live w' = w_live w + 1"
proof -
  let ?d = "get_dag i p" and ?iid = "instance_id (rpls i ! fst p)"
  obtain i' w' where s: "send_dao E i to p w = Inr (i', w')" using send_dao_fits [OF assms(1,2,4,5,6)] by blast
  obtain d' where d': "dao_sent E ?d d'" "i' = upd_dag i p (\<lambda>_. d')"
      "w_live w' = w_live w + (int (length (pending_acks d')) - int (length (pending_acks ?d)))"
      "w_trace w' = w_trace w @ [Sendmsg (icmp_call i src to (dao_message ?iid ?d))]"
    using send_dao_InrD [OF s assms(2,4,5)] by blast
  have "d' = ?d\<lparr>pending_acks := pending_acks ?d @ [\<lparr>ack_dsn = 0\<rparr>], dsn := dsn ?d + 1\<rparr>"
    using d'(1) assms(1) by (simp add: dao_sent_def)
  moreover have "dao_message ?iid ?d = [155, 2, 0, 0] @ [?iid, 0x40, 0, 0] @ dodagid ?d @
      concat (map target_bytes (self ?d # map child_addr (childs ?d)))"
    by (simp add: dao_message_def dao_of_dag_def nd_rpl_daoack_bytes_def ND_RPL_MESSAGE_def ND_RPL_DAO_def RPL_DAO_D_MASK_def)
  ultimately show ?thesis using s d' assms(3)
    by (intro exI [of _ i'] exI [of _ w'] exI [of _ "dao_message ?iid ?d"]) simp
qed

theorem send_dao_exact_witness:
  "\<exists>i' w' m. send_dao env0 leaf_node (addr_of 1) (0, 0) world0 = Inr (i', w') \<and>
     w_trace w' = [Sendmsg (icmp_call leaf_node (addr_of 3) (addr_of 1) m)] \<and> w_live w' = 1"
proof -
  have "get_dag leaf_node (0, 0) = leaf_dag" "valid_dag leaf_node (0, 0)" "\<not> rpl_freed (rpls leaf_node ! 0)"
      "ifaddr_src leaf_node = Some (addr_of 3)" "length (childs leaf_dag) = 1" "w_trace world0 = []" "w_live world0 = 0"
    by (simp_all add: get_dag_def valid_dag_def leaf_node_def iface_with_def leaf_dag_def world0_def)
  then show ?thesis using send_dao_exact [of env0 leaf_node "(0, 0)" "addr_of 3" "addr_of 1" world0] by auto
qed

text \<open>
  C28: a dag with more than 3274 children, which other nodes' DAOs can bring about, ends the
  daemon: the DAO it has to send exceeds the buffer's 64 KiB.
\<close>

theorem send_dao_too_many_children:
  assumes "memory_available E" "wf_dag (get_dag i p)" "\<not> rpl_freed (rpls i ! fst p)" "3274 < length (childs (get_dag i p))"
  shows "send_dao E i to p w = Inl (Exit 1)"
  using assms(4) by (intro send_dao_overflow [OF assms(1-3)]) simp

theorem send_dao_too_many_children_witness:
  "send_dao env0 crowded_node (addr_of 1) (0, 0) world0 = Inl (Exit 1)"
  using send_dao_too_many_children [of env0 crowded_node "(0, 0)" "addr_of 1" world0] crowded_dag_wf
  by (simp add: crowded_node_def iface_with_def get_dag_def)

section \<open>Runs of the daemon\<close>

text \<open>
  C8: whatever sequence of packets and timers the daemon handles, the invariant of its
  interfaces holds afterwards: unique keys, no freed instance on a list, well-formed dags,
  and the rank of a dag with a parent one above the parent's. And the daemon does not leak:
  the objects allocated since the start are exactly the new instances, dags, peers, children
  and pending acknowledgements on its lists.
\<close>

theorem run_keeps_invariant:
  assumes "daemon_run E (is, w) es (is', w')" "memory_available E" "length (stack_junk E) = 16" "\<forall>i \<in> set is. iface_ok i"
  shows "length is' = length is \<and> (\<forall>i \<in> set is'. iface_ok i) \<and> w_live w' - w_live w = objects is' - objects is"
  using run_evolves [OF assms(1-3)] run_books [OF assms(1-3)] assms(4) by (auto simp: state_ok_def state_evolves_def dest: list_all2_lengthD)

theorem run_keeps_invariant_witness:
  "\<exists>is' w'. daemon_run env0 ([root_node], world0) [Trickle 0 (0, 0)] (is', w') \<and> (\<forall>i \<in> set is'. iface_ok i) \<and>
     w_live w' = objects is' - objects [root_node]"
proof -
  obtain is' w' where "daemon_run env0 ([root_node], world0) [Trickle 0 (0, 0)] (is', w')"
    using example_run by blast
  moreover have "w_live world0 = 0" by (simp add: world0_def)
  ultimately show ?thesis using run_keeps_invariant [of env0 "[root_node]" world0 "[Trickle 0 (0, 0)]"] by fastforce
qed

text \<open>
  C9: what a run can do to a dag. Along every run a dag of the table stays in the table,
  under the same DODAG id, version and prefix; once it has a parent, the parent's address
  never changes and the parent's rank never rises; a root (rank 1) keeps its rank and
  acquires no parent; and no child is ever forgotten.
\<close>

theorem run_dag_history:
  assumes "daemon_run E (is, w) es (is', w')" "memory_available E" "length (stack_junk E) = 16" "\<forall>i \<in> set is. iface_ok i"
    and "n < length is" "dag_table (is ! n) k = Some d"
  shows "\<exists>d'. dag_table (is' ! n) k = Some d' \<and>
    dodagid d' = dodagid d \<and> version d' = version d \<and> dest d' = dest d \<and>
    set (childs d) \<subseteq> set (childs d') \<and>
    (my_rank d = 1 \<longrightarrow> my_rank d' = 1 \<and> parent d' = parent d) \<and>
    (\<forall>pe. parent d = Some pe \<longrightarrow>
      (\<exists>pe'. parent d' = Some pe' \<and> peer_addr pe' = peer_addr pe \<and> peer_rank pe' \<le> peer_rank pe))"
proof -
  have "table_evolves (is ! n) (is' ! n)"
    using run_evolves [OF assms(1-3)] assms(4,5) by (auto simp: state_ok_def state_evolves_def list_all2_conv_all_nth)
  then obtain d' where "dag_table (is' ! n) k = Some d'" "evolves d d'" using assms(6) unfolding table_evolves_def by blast
  then show ?thesis by (intro exI [of _ d']) (auto simp: evolves_def)
qed

theorem run_dag_history_witness:
  "\<exists>is' w' d'. daemon_run env0 ([root_node], world0) [Trickle 0 (0, 0)] (is', w') \<and>
     dag_table (is' ! 0) (7, addr_of 1) = Some d' \<and> my_rank d' = 1 \<and> parent d' = None"
proof -
  obtain is' w' where r: "daemon_run env0 ([root_node], world0) [Trickle 0 (0, 0)] (is', w')"
    using example_run by blast
  with run_dag_history [OF r, of 0 "(7, addr_of 1)" root_dag] show ?thesis by (auto simp: root_dag_def)
qed

text \<open>
  C10: how a callback ends. In a state that satisfies the invariant, with memory available,
  the callback of every watcher that can fire returns, with three exceptions, all of them
  packets: a DIO with a prefix length above 128 bits and a DAO that leaves less than eighteen
  bytes of the receive buffer unused may make the daemon access memory out of bounds, and a
  DIO may make it exit when a dag has more children than a DAO of 64 KiB holds. The callbacks
  of the timers always return.
\<close>

theorem callbacks_return:
  assumes "memory_available E" "length (stack_junk E) = 16" "\<forall>i \<in> set is. iface_ok i" "enabled is e"
  shows "(\<exists>is' w'. daemon_step E (is, w) e (is', w')) \<or>
    (\<exists>r. e = Packet r \<and>
       (dispatch E is e w = Inl Out_of_bounds \<and> rm_buf r ! 1 = ND_RPL_DAG_IO \<and> 128 < unat (rm_buf r ! 30) \<or>
        dispatch E is e w = Inl Out_of_bounds \<and> rm_buf r ! 1 = ND_RPL_DAO \<and> \<not> short_packet r \<or>
        dispatch E is e w = Inl (Exit 1) \<and> rm_buf r ! 1 = ND_RPL_DAG_IO \<and> \<not> state_fits is))"
proof -
  have "state_ok is" using assms(3) by (simp add: state_ok_def)
  from dispatch_total [OF assms(1,2) this assms(4), of w] assms(4) show ?thesis by (simp add: daemon_step_iff)
qed

theorem callbacks_return_witness:
  "\<exists>is' w'. daemon_step env0 ([root_node], world0) (Packet example_packet) (is', w')"
proof -
  have "enabled [root_node] (Packet example_packet)" "rm_buf example_packet ! 1 = ND_RPL_DAG_IS"
    by (simp_all add: enabled_def example_packet_def recv_wf_def MSG_SIZE_RECV_def dis_message_def)
  then show ?thesis
    using callbacks_return [of env0 "[root_node]" "Packet example_packet" world0]
    by (auto simp: ND_RPL_DAG_IS_def ND_RPL_DAG_IO_def ND_RPL_DAO_def)
qed

section \<open>The network\<close>

text \<open>
  C1: what a network of daemons builds, from their command lines on. Any number of daemons
  has started, each with its own host, configuration and environment; their source
  addresses are distinct, there are at most 65535 interfaces (the rank has sixteen bits), no
  configured prefix has more than 128 bits, and nodes that are configured as roots of one dag
  give it the same version and prefix. Let them
  run in any interleaving on a medium that loses, delays, repeats and reorders packets but does
  not invent RPL messages. Then for every dag and at any time the parents form no cycle and
  lead from every member to a configured root, every member has the roots' version and
  prefix, its rank is at least one and at most the number of members, and exactly the
  configured roots have rank one and no parent.
\<close>

theorem network_forms_dodag:
  assumes "envs_ok Es" "\<forall>n < length ss. started (Es n) (Ss n) (Ls n) (ss ! n)" "N = net_of ss"
    "inj_on (src_at N) (ports N)" "card (ports N) \<le> 65535" "\<forall>d \<in> ran (dag_at N k). dag_info d = g" "net_run Es N es N'"
  shows "acyclic (parents N' k) \<and> roots N k \<subseteq> dom (dag_at N' k) \<and>
    (\<forall>x d. dag_at N' k x = Some d \<longrightarrow> dag_info d = g \<and>
       1 \<le> unat (my_rank d) \<and> unat (my_rank d) \<le> card (dom (dag_at N' k)) \<and>
       (my_rank d = 1 \<longleftrightarrow> x \<in> roots N k) \<and> (parent d = None \<longleftrightarrow> x \<in> roots N k) \<and>
       (\<exists>y \<in> roots N k. (x, y) \<in> (parents N' k)\<^sup>*))"
proof -
  have "configured N k g" using started_configured [OF assms(1,2)] assms(3-6) by simp
  note run = assms(7,1) this
  show ?thesis
  proof (intro conjI allI impI)
    show "acyclic (parents N' k)" by (rule network_parents [OF run])
    show "roots N k \<subseteq> dom (dag_at N' k)" by (rule roots_stay [OF run])
  next
    fix x d assume d: "dag_at N' k x = Some d"
    then show "\<exists>y \<in> roots N k. (x, y) \<in> (parents N' k)\<^sup>*" by (intro network_parents(2) [OF run]) blast
  qed (use network_dags [OF run] in blast)+
qed

theorem network_forms_dodag_witness:
  "\<exists>r l es N' d y. started env0 (example_sys 0) (example_lua 0) r \<and> started env0 (example_sys 1) (example_lua 1) l \<and>
     net_run (\<lambda>_. env0) (net_of [r, l]) es N' \<and> dag_at N' (7, addr_of 1) (Port 1 0) = Some d \<and> parent d \<noteq> None \<and>
     y \<in> roots (net_of [r, l]) (7, addr_of 1) \<and> (Port 1 0, y) \<in> (parents N' (7, addr_of 1))\<^sup>* \<and> acyclic (parents N' (7, addr_of 1))"
proof -
  obtain r l es N' d g where n: "\<forall>n < length [r, l]. started env0 (example_sys n) (example_lua n) ([r, l] ! n)"
      "inj_on (src_at (net_of [r, l])) (ports (net_of [r, l]))" "card (ports (net_of [r, l])) \<le> 65535"
      "\<forall>e \<in> ran (dag_at (net_of [r, l]) (7, addr_of 1)). dag_info e = g" "net_run (\<lambda>_. env0) (net_of [r, l]) es N'"
    and d: "dag_at N' (7, addr_of 1) (Port 1 0) = Some d" "parent d \<noteq> None"
    using example_started_net_joins by blast
  have "envs_ok (\<lambda>_. env0)" by (simp add: envs_ok_def)
  note f = network_forms_dodag [OF this n(1) refl n(2-5)]
  have "started env0 (example_sys 0) (example_lua 0) r" "started env0 (example_sys 1) (example_lua 1) l" 
    using n(1) by (auto dest: spec [of _ 0] spec [of _ 1])
  then show ?thesis using f d n(5) by blast
qed

text \<open>
  C3: the network can always complete a dag. In whatever state a run has led it, as long as
  the dag has a root and the interfaces can take part, two more turns for every interface
  that is not yet a member are enough for all of them to be members with a path to a root.
\<close>

theorem network_can_complete:
  assumes "net_run Es N es M" "envs_ok Es" "configured N k g" "roots N k \<noteq> {}" "can_join M"
  shows "\<exists>fs N'. net_run Es N (es @ fs) N' \<and> length fs = 2 * card (ports M - dom (dag_at M k)) \<and>
    (\<forall>x \<in> ports N. \<exists>r \<in> roots N k. (x, r) \<in> (parents N' k)\<^sup>*)"
proof -
  have M: "net_ok M" "ports M = ports N" using net_run_inv [OF assms(1-3)] by auto
  obtain x where "dag_at M k x \<noteq> None" using roots_stay [OF assms(1-3)] assms(4) by blast
  from network_completes [OF assms(2) M(1) assms(5) this] obtain fs N' where
    f: "net_run Es M fs N'" "length fs = 2 * card (ports M - dom (dag_at M k))" "dom (dag_at N' k) = ports M" by blast
  have r: "net_run Es N (es @ fs) N'" by (rule net_run_append [OF f(1) assms(1)])
  have "\<exists>r \<in> roots N k. (x, r) \<in> (parents N' k)\<^sup>*" if "x \<in> ports N" for x
    by (rule network_parents(2) [OF r assms(2,3)]) (use that f(3) M(2) in blast)
  then show ?thesis using r f(2) by blast
qed

theorem network_can_complete_witness:
  "\<exists>fs N' r. net_run (\<lambda>_. env0) example_net fs N' \<and> length fs = 2 \<and>
     r \<in> roots example_net (7, addr_of 1) \<and> (Port 1 0, r) \<in> (parents N' (7, addr_of 1))\<^sup>*"
proof -
  have env: "envs_ok (\<lambda>_. env0)" by (simp add: envs_ok_def)
  have p: "ports example_net = {Port 0 0, Port 1 0}" unfolding example_net_def by (rule two_ports)
  have "dag_at example_net (7, addr_of 1) x = (if x = Port 0 0 then Some root_dag else None)" for x
    using p by (auto simp: dag_at_def iface_at_def example_net_def)
  then have d: "dom (dag_at example_net (7, addr_of 1)) = {Port 0 0}" by (auto split: if_splits)
  then have "roots example_net (7, addr_of 1) \<noteq> {}" by (simp add: roots_def)
  from network_can_complete [OF net_run.Start env example_net_configured this example_net_can_join]
  obtain fs N' r where "net_run (\<lambda>_. env0) example_net ([] @ fs) N'" "length fs = 2 * card (ports example_net - {Port 0 0})"
    "r \<in> roots example_net (7, addr_of 1)" "(Port 1 0, r) \<in> (parents N' (7, addr_of 1))\<^sup>*" unfolding d p by blast
  moreover have "ports example_net - {Port 0 0} = {Port 1 0}" using p by auto
  ultimately show ?thesis by force
qed

text \<open>
  C2: the daemons implement the protocol. Whatever one daemon of the network does in one turn
  of its event loop is, for every dag, one step of the abstract machine: it announces the
  role it has, joins on an announcement, improves its rank on one, or nothing changes.
  The source addresses stay, and so do the conditions under which this holds.
\<close>

theorem network_refines_dodag:
  assumes "net_ok N" "envs_ok Es" "net_step Es N (n, e) N'"
  shows "dodag_step (src_at N) (dodag_of k N) (dodag_of k N') \<and> src_at N' = src_at N \<and> net_ok N'"
  using net_step_refines [OF assms] by blast

theorem network_refines_dodag_witness:
  "\<exists>N'. net_step (\<lambda>_. env0) example_net (0, Trickle 0 (0, 0)) N' \<and> net_ok N' \<and>
     dodag_step (src_at example_net) (dodag_of (7, addr_of 1) example_net) (dodag_of (7, addr_of 1) N')"
proof -
  have ok: "net_ok example_net" "envs_ok (\<lambda>_. env0)" using configured_inv [OF example_net_configured] by (simp_all add: envs_ok_def)
  obtain N' where "net_step (\<lambda>_. env0) example_net (0, Trickle 0 (0, 0)) N'" using example_net_first by blast
  with network_refines_dodag [OF ok this] show ?thesis by blast
qed

section \<open>From the configuration to the end of the program\<close>



text \<open>
  C7: from any command line and any configuration that lets the daemon start and names no
  prefix of more than 128 bits (those up to 255 are accepted, but then the invariant does not
  hold from the start), every run of the event loop, whatever packets and timers come in
  whatever order, keeps the invariant of the interfaces, and a dag that the configuration made
  this node the root of stays: the node remains its root, at rank one and without a parent.
\<close>

theorem started_daemon_keeps_roots:
  assumes "memory_available E" "length (stack_junk E) = 16" "sys_ok S"
    "\<forall>file conf. lua_run L file = Some conf \<longrightarrow> (\<forall>v \<in> set (lua_values L conf). prefixes_ok S L v)"
    "start_up E S L fopen_ok now pname args w = Inr (Inr s)" "daemon_run E (r_ifaces s, r_world s) es (is', w')"
  shows "state_ok is' \<and> length is' = length (r_ifaces s) \<and>
    (\<forall>k < length is'. \<forall>key d. dag_table (r_ifaces s ! k) key = Some d \<longrightarrow>
       (\<exists>d'. dag_table (is' ! k) key = Some d' \<and> my_rank d' = 1 \<and> parent d' = None \<and> dodagid d' = dodagid d))"
proof -
  from start_up_ifaces [OF assms(1,3,5)] obtain path v where v: "lua_run L path = Some v"
    and l: "list_all2 (iface_loaded S L) (lua_values L v) (r_ifaces s)" by auto
  have ok: "state_ok (r_ifaces s)" using loaded_short [OF l] assms(4) v by blast
  have e: "state_ok is'" "state_evolves (r_ifaces s) is'" using run_evolves [OF assms(6,1,2)] ok by auto
  have "my_rank d = 1 \<and> parent d = None" if "k < length (r_ifaces s)" "dag_table (r_ifaces s ! k) key = Some d" for k key d
  proof -
    have "iface_loaded S L (lua_values L v ! k) (r_ifaces s ! k)" using l that(1) by (simp add: list_all2_conv_all_nth)
    then show ?thesis using ranI [of "dag_table (r_ifaces s ! k)" key d] that(2)
      by (auto simp: iface_loaded_def loaded_def root_of_itself_def)
  qed
  then show ?thesis using e
    by (fastforce simp: state_evolves_def list_all2_conv_all_nth table_evolves_def evolves_def simp del: split_paired_All)
qed

theorem started_daemon_keeps_roots_witness:
  "\<exists>s is' w'. start_up env0 sys0 (lua_of root_conf) (\<lambda>_. True) ''now'' ''rpld'' [] world0 = Inr (Inr s) \<and>
     daemon_run env0 (r_ifaces s, r_world s) [Dis_timer 0] (is', w') \<and> state_ok is' \<and> length is' = 1"
proof -
  obtain s where s: "start_up env0 sys0 (lua_of root_conf) (\<lambda>_. True) ''now'' ''rpld'' [] world0 = Inr (Inr s)"
      "length (r_ifaces s) = 1" using root_conf_starts by blast
  have p: "\<forall>file conf. lua_run (lua_of root_conf) file = Some conf \<longrightarrow>
      (\<forall>v \<in> set (lua_values (lua_of root_conf) conf). prefixes_ok sys0 (lua_of root_conf) v)"
    using conf_prefixes by simp
  note keeps = started_daemon_keeps_roots [OF env0_ok sys_at_ok p s(1)]
  have "state_ok (r_ifaces s)" using keeps [OF Idle] by simp
  then have i: "iface_ok (r_ifaces s ! 0)" using s(2) by (simp add: state_ok_def)
  then obtain src where "ifaddr_src (r_ifaces s ! 0) = Some src" by (auto simp: iface_ok_def)
  from send_dis_Inr(2) [OF this env0_ok(1), of "emit (Ev_timer_stop (Dis_w (ifindex (r_ifaces s ! 0)))) (r_world s)"]
  obtain is' w' where
    "dispatch env0 (r_ifaces s) (Dis_timer 0) (r_world s) = Inr (is', w')"
    by (auto simp: dispatch_def send_dis_cb_def Let_def)
  then have "daemon_step env0 (r_ifaces s, r_world s) (Dis_timer 0) (is', w')"
    using s(2) by (simp add: daemon_step_iff enabled_def)
  then have r: "daemon_run env0 (r_ifaces s, r_world s) [Dis_timer 0] (is', w')" using Turn [OF Idle] by fastforce
  from keeps [OF this] s r show ?thesis by auto
qed

text \<open>
  C18: what is in place when the loop starts. The log takes messages; one DIS timer per
  interface and one trickle timer per dag have been started, in the order of the lists, and
  a root has asked the kernel for the address of each of its dags; the limit on hop-by-hop
  options has been raised; and the socket is open with its options set and the group of the
  protocol joined on every interface, in this order.
\<close>

theorem start_up_ready:
  assumes "memory_available E" "sys_ok S" "start_up E S L fopen_ok now pname args w = Inr (Inr s)"
  shows "log_ok (r_log s) \<and> 0 \<le> r_sock s \<and>
    (\<exists>before es. w_trace (r_world s) = before @ es @ Write_file PROC_SYS_IP6_MAX_HBH_OPTS_NUM 99 # Open_socket # open_calls (r_ifaces s) \<and>
      timers es = concat (map iface_timers (r_ifaces s)) \<and>
      new_addrs es = concat (map (\<lambda>i. if dodag_root i then map dodagid (all_dags i) else []) (r_ifaces s)))"
proof -
  let ?is = "r_ifaces s"
  obtain opt l where l: "log_ok l" and n: "start_network E S L now opt l (init_random_gen E w) = Inr (Inr s)"
    using start_up_run [OF assms(3)] by blast
  obtain w1 w2 w3 where c: "config_load E S L (conf_path opt) [] w1 = Inr (0, ?is, w2)"
    and r: "rpld_setup E ?is w2 = Inr (0, w3)" and k: "start_socket E now ?is l w3 = Inr (Inr s)"
    using start_network_run [OF n] by blast
  obtain w4 where v: "set_var E PROC_SYS_IP6_MAX_HBH_OPTS_NUM 99 w3 = (0, w4)"
    and o: "open_icmpv6_socket E ?is w4 = (r_sock s, r_world s)" "0 \<le> r_sock s" "r_log s = l"
    using start_socket_run [OF k] by blast
  have "\<forall>i \<in> set ?is. keys_inv i" using config_load_loaded [OF assms(1,2) c] by (auto dest!: loaded_keys)
  from rpld_setup_events [OF this, of E w2] r obtain es where es: "w_trace w3 = w_trace w2 @ es"
      "timers es = concat (map iface_timers ?is)"
      "new_addrs es = concat (map (\<lambda>i. if dodag_root i then map dodagid (all_dags i) else []) ?is)" by auto
  have t4: "w_trace w4 = w_trace w3 @ [Write_file PROC_SYS_IP6_MAX_HBH_OPTS_NUM 99]"
    using v by (auto simp: set_var_def write_value_def split: if_splits)
  have t5: "w_trace (r_world s) = w_trace w4 @ Open_socket # open_calls ?is"
    using open_socket_success [OF o(1,2)] by simp
  have "w_trace (r_world s) = w_trace w2 @ es @ Write_file PROC_SYS_IP6_MAX_HBH_OPTS_NUM 99 # Open_socket # open_calls ?is"
    by (simp add: t5 t4 es(1))
  then show ?thesis using l o es by blast
qed

theorem start_up_ready_witness:
  "\<exists>s before es. start_up env0 sys0 (lua_of root_conf) (\<lambda>_. True) ''now'' ''rpld'' [] world0 = Inr (Inr s) \<and>
     log_ok (r_log s) \<and>
     w_trace (r_world s) = before @ es @ Write_file PROC_SYS_IP6_MAX_HBH_OPTS_NUM 99 # Open_socket # open_calls (r_ifaces s) \<and>
     timers es = concat (map iface_timers (r_ifaces s))"
proof -
  obtain s where s: "start_up env0 sys0 (lua_of root_conf) (\<lambda>_. True) ''now'' ''rpld'' [] world0 = Inr (Inr s)"
    using root_conf_starts by blast
  from start_up_ready [OF env0_ok(1) sys_at_ok s] s show ?thesis by blast
qed



text \<open>
  The shut-down after the loop. With at least one interface it never returns: \<open>config_free\<close>
  reads a freed interface. Without interfaces it returns 0, unless the log goes to a file,
  which the last message finds closed.
\<close>

lemma shut_down_faults:
  assumes "log_ok l"
  shows "if is = [] \<and> log_method l \<noteq> L_LOGFILE then (\<exists>l'. shut_down E now is l w = Inr (0, l', close_icmpv6_socket E is (netlink_close w)))
    else shut_down E now is l w = Inl Use_after_free"
proof (cases "is = []")
  case True
  show ?thesis using assms
  proof (cases rule: log_method_cases)
    case (6 p)
    then show ?thesis using True
      by (simp add: shut_down_def free_ifaces_fault log_close_def file_close_def flog_def vlog_def file_print_def log_methods Let_def)
  qed (use True assms in \<open>auto simp: shut_down_def free_ifaces_fault log_close_def flog_def vlog_def log_methods Let_def\<close>)
qed (auto simp: shut_down_def free_ifaces_fault Let_def)

text \<open>
  C35: a table of dags that spells out one DODAG id twice is refused with -1 by
  \<open>config_load_dags\<close>, wherever in the table the two entries stand.
\<close>

theorem duplicate_dag_refused:
  assumes "memory_available E" "sys_ok S" "loaded i" "lua_getfield L v ''dags'' = Inr f" "lua_values L f = xs @ e # ys @ e' # zs"
    "entry_dodagid S L e = Some did" "entry_dodagid S L e' = Some did" "config_load_dags E S L v iid i w = Inr (rc, i', w')"
  shows "rc = -1"
proof (rule ccontr)
  assume "rc \<noteq> -1"
  then have "load_dags E S L iid ((xs @ e # ys) @ e' # zs) i w = Inr (0, i', w')"
    using config_load_dags_rc [OF assms(8)] assms(4,5,8) by (auto simp: config_load_dags_def split: if_splits)
  from load_dags_append [OF this] obtain i1 w1 where 1: "load_dags E S L iid (xs @ e # ys) i w = Inr (0, i1, w1)"
    and 2: "load_dags E S L iid (e' # zs) i1 w1 = Inr (0, i', w')" by blast
  have "loaded i1" "(iid, did) \<in> dag_keys i1"
    using load_dags_loads [OF assms(1,2) 1 assms(3)] assms(6) by (auto simp: loads_def)
  from load_dags_known [OF assms(2) this(1) assms(7) this(2)] 2 show False by simp
qed

theorem duplicate_dag_refused_witness:
  "\<exists>i' w'. config_load_dags env0 sys0 (lua_of Nil_val) (Tab [(''dags'', Tab [(''1'', dag_entry ''64''), (''2'', dag_entry ''64'')])]) 7
     conf_iface world0 = Inr (-1, i', w')"
proof -
  let ?L = "lua_of Nil_val" and ?e = "dag_entry ''64''"
  let ?v = "Tab [(''dags'', Tab [(''1'', ?e), (''2'', ?e)])]"
  have ok: "loaded conf_iface" using loaded_no_rpls [of conf_iface] by (simp add: conf_iface_at_def zero_iface_def ll_ok_def)
  have e: "entry_dodagid sys0 ?L ?e = Some (addr_of 1)"
    by (simp add: entry_dodagid_def dag_entry_def) (simp add: sys_at_def)
  have "\<exists>rc i' w'. config_load_dags env0 sys0 ?L ?v 7 conf_iface world0 = Inr (rc, i', w')"
  proof -
    have "keys_inv conf_iface" "lookup_key conf_iface (7, addr_of 1) = Inr None"
      by (simp_all add: conf_iface_at_def zero_iface_def keys_inv_def lookup_key_def dag_lookup_def)
    from dag_create_Inr [OF this env0_ok(1), of DEFAULT_TICKLE_T 1 DEFAULT_DAG_VERSION "\<lparr>prefix = 0xfd # replicate 15 0, pfx_len = 64\<rparr>" world0]
    obtain p rs w1 where c: "dag_create env0 conf_iface 7 (addr_of 1) DEFAULT_TICKLE_T 1 DEFAULT_DAG_VERSION
        (Some \<lparr>prefix = 0xfd # replicate 15 0, pfx_len = 64\<rparr>) world0 = Inr (Some p, conf_iface\<lparr>rpls := rs\<rparr>, w1)" by blast
    let ?i = "upd_dag (conf_iface\<lparr>rpls := rs\<rparr>) p (\<lambda>d. d\<lparr>self := addr_of 1\<rparr>)"
    have "loaded ?i" "(7, addr_of 1) \<in> dag_keys ?i"
      using root_dag_created [OF ok env0_ok(1) _ _ c] by (auto simp: wf_prefix_def wf_addr_def [of "0xfd # replicate 15 0"])
    then obtain x where "keys_inv ?i" "dag_table ?i (7, addr_of 1) = Some x" by (auto simp: loaded_def dag_keys_def)
    from ds.presentE [OF this] obtain q where "keys_inv ?i" "lookup_key ?i (7, addr_of 1) = Inr (Some q)" using \<open>keys_inv ?i\<close> by blast
    from dag_create_known [OF this] obtain i' w' where "dag_create env0 ?i 7 (addr_of 1) DEFAULT_TICKLE_T 1 DEFAULT_DAG_VERSION
        (Some \<lparr>prefix = 0xfd # replicate 15 0, pfx_len = 64\<rparr>) w1 = Inr (None, i', w')" by blast
    with c show ?thesis by (simp add: config_load_dags_def dag_entry_fields)
  qed
  then obtain rc i' w' where r: "config_load_dags env0 sys0 ?L ?v 7 conf_iface world0 = Inr (rc, i', w')" by blast
  have "rc = -1"
    using duplicate_dag_refused [of env0 sys0 conf_iface ?L ?v "Tab [(''1'', ?e), (''2'', ?e)]" "[]" ?e "[]" ?e "[]" "addr_of 1" 7 world0 rc i' w']
      sys_at_ok ok e r by simp
  with r show ?thesis by blast
qed



end
